(* ===== verification/Prelude.thy ===== *)
theory Prelude
  imports Main "HOL-Library.Sublist"
begin

text \<open>
  Shared vocabulary of the development: Rust's \<open>Result\<close> as a sum type, saturating
  machine arithmetic on \<open>usize\<close>, and the list operations of \<open>Vec\<close> that the components
  use (\<open>last_mut\<close>, \<open>remove\<close>, \<open>insert\<close>, \<open>position\<close>, \<open>retain\<close>), each with the lemmas
  that the component proofs rely on.
\<close>

text \<open>
  Evaluation collections: equations that let the simplifier run a component on a closed input.
\<close>

named_theorems vec_eval \<open>unfolding of the vector operations\<close>
named_theorems str_eval \<open>unfolding of the string operations\<close>
named_theorems patch_eval \<open>unfolding of the patch parser and the patch application\<close>
named_theorems policy_eval \<open>unfolding of the command and network policies\<close>
named_theorems stream_eval \<open>unfolding of the streamed-text parsers\<close>

section \<open>Results\<close>

text \<open>\<open>Result<T, E>\<close> is \<open>'e + 'a\<close>: \<open>Inl\<close> is \<open>Err\<close>, \<open>Inr\<close> is \<open>Ok\<close>.\<close>

type_synonym ('a, 'e) result = "'e + 'a"

abbreviation Ok :: "'a \<Rightarrow> ('a, 'e) result" where
  "Ok \<equiv> Inr"

abbreviation Err :: "'e \<Rightarrow> ('a, 'e) result" where
  "Err \<equiv> Inl"

text \<open>The \<open>?\<close> operator.\<close>

definition try_bind :: "('a, 'e) result \<Rightarrow> ('a \<Rightarrow> ('b, 'e) result) \<Rightarrow> ('b, 'e) result" where
  "try_bind r f = (case r of Inl e \<Rightarrow> Inl e | Inr x \<Rightarrow> f x)"

lemma try_bind_simps [simp]:
  "try_bind (Inl e) f = Inl e"
  "try_bind (Inr x) f = f x"
  by (simp_all add: try_bind_def)

lemma try_bind_Inr_iff: "try_bind r f = Inr y \<longleftrightarrow> (\<exists>x. r = Inr x \<and> f x = Inr y)"
  by (cases r) auto

lemma try_bind_assoc: "try_bind (try_bind r f) g = try_bind r (\<lambda>x. try_bind (f x) g)"
  by (cases r) auto

section \<open>Machine integers\<close>

text \<open>
  \<open>usize\<close> values are natural numbers below \<open>2 ^ 64\<close>; the saturating operations
  of the source are written out.
\<close>

definition usize_max :: nat where
  "usize_max = 2 ^ 64 - 1"

definition saturating_add :: "nat \<Rightarrow> nat \<Rightarrow> nat" where
  "saturating_add a b = min (a + b) usize_max"

definition saturating_mul :: "nat \<Rightarrow> nat \<Rightarrow> nat" where
  "saturating_mul a b = min (a * b) usize_max"

lemma saturating_add_exact [simp]: "a + b \<le> usize_max \<Longrightarrow> saturating_add a b = a + b"
  by (simp add: saturating_add_def)

lemma saturating_mul_exact [simp]: "a * b \<le> usize_max \<Longrightarrow> saturating_mul a b = a * b"
  by (simp add: saturating_mul_def)

lemma saturating_add_le: "saturating_add a b \<le> a + b"
  by (simp add: saturating_add_def)

lemma saturating_add_assoc: "saturating_add (saturating_add a b) c = saturating_add a (b + c)"
  by (simp add: saturating_add_def)

lemma saturating_add_min: "saturating_add (min a usize_max) b = min (a + b) usize_max"
  by (simp add: saturating_add_def)

lemma min_add_min: "min (a + min b m + c) m = min (a + b + c) (m :: nat)"
  by (simp add: min_def)

section \<open>Vectors\<close>

text \<open>\<open>last()\<close> and an update through \<open>last_mut()\<close>.\<close>

definition last_opt :: "'a list \<Rightarrow> 'a option" where
  "last_opt xs = (if xs = [] then None else Some (last xs))"

definition update_last :: "('a \<Rightarrow> 'a) \<Rightarrow> 'a list \<Rightarrow> 'a list" where
  "update_last f xs = (if xs = [] then [] else butlast xs @ [f (last xs)])"

lemma last_opt_simps [simp]:
  "last_opt [] = None"
  "last_opt (xs @ [x]) = Some x"
  "last_opt (xs @ y # ys) = last_opt (y # ys)"
  by (simp_all add: last_opt_def)

lemma last_opt_single [simp]: "last_opt [x] = Some x"
  by (simp add: last_opt_def)

lemma last_opt_Some_iff: "last_opt xs = Some x \<longleftrightarrow> (\<exists>ys. xs = ys @ [x])"
  by (cases xs rule: rev_cases) auto

lemma last_opt_None_iff [simp]: "last_opt xs = None \<longleftrightarrow> xs = []"
  by (simp add: last_opt_def)

lemma update_last_simps [simp]:
  "update_last f [] = []"
  "update_last f (xs @ [x]) = xs @ [f x]"
  by (simp_all add: update_last_def)

lemma update_last_single [simp]: "update_last f [x] = [f x]"
  by (simp add: update_last_def)

lemma length_update_last [simp]: "length (update_last f xs) = length xs"
  by (cases xs rule: rev_cases) auto

text \<open>\<open>Vec::remove\<close> and \<open>Vec::insert\<close>; \<open>None\<close> is the out-of-range panic.\<close>

definition vec_remove :: "nat \<Rightarrow> 'a list \<Rightarrow> 'a list option" where
  "vec_remove i xs = (if i < length xs then Some (take i xs @ drop (Suc i) xs) else None)"

definition vec_insert :: "nat \<Rightarrow> 'a \<Rightarrow> 'a list \<Rightarrow> 'a list option" where
  "vec_insert i x xs = (if i \<le> length xs then Some (take i xs @ x # drop i xs) else None)"

text \<open>\<open>Iterator::position\<close>.\<close>

fun position :: "('a \<Rightarrow> bool) \<Rightarrow> 'a list \<Rightarrow> nat option" where
  "position p [] = None"
| "position p (x # xs) = (if p x then Some 0 else map_option Suc (position p xs))"

lemma position_None_iff: "position p xs = None \<longleftrightarrow> (\<forall>x \<in> set xs. \<not> p x)"
  by (induction xs) auto

lemma position_SomeD:
  "position p xs = Some i \<Longrightarrow> i < length xs \<and> p (xs ! i) \<and> (\<forall>j < i. \<not> p (xs ! j))"
proof (induction xs arbitrary: i)
  case Nil
  then show ?case by simp
next
  case (Cons x xs)
  show ?case
  proof (cases "p x")
    case True
    with Cons.prems show ?thesis by auto
  next
    case False
    with Cons.prems obtain k where k: "position p xs = Some k" "i = Suc k" by auto
    with Cons.IH[OF k(1)] False show ?thesis
      by (auto simp: less_Suc_eq_0_disj)
  qed
qed

section \<open>Sequences of fallible steps\<close>

text \<open>
  A loop whose body updates a state and may leave the loop with an error: on an error the
  state is the one the failing step left behind, on success the results of all steps are
  collected.
\<close>

fun run_steps ::
    "('x \<Rightarrow> 's \<Rightarrow> 's \<times> ('b, 'e) result) \<Rightarrow> 'x list \<Rightarrow> 's \<Rightarrow> 's \<times> ('b list, 'e) result" where
  "run_steps step [] s = (s, Ok [])"
| "run_steps step (x # xs) s =
     (case step x s of
        (s', Inl e) \<Rightarrow> (s', Err e)
      | (s', Inr b) \<Rightarrow>
          (case run_steps step xs s' of
             (s'', Inl e) \<Rightarrow> (s'', Err e)
           | (s'', Inr bs) \<Rightarrow> (s'', Ok (b # bs))))"

lemma run_steps_Cons_OkE:
  assumes "run_steps step (x # xs) s = (s'', Ok bs)"
  obtains s' b bs' where "step x s = (s', Ok b)" "run_steps step xs s' = (s'', Ok bs')" "bs = b # bs'"
  using assms by (auto split: prod.splits sum.splits)

text \<open>The contract of a step: what it keeps, whether it succeeds or fails.\<close>

locale fallible_machine =
  fixes step :: "'x \<Rightarrow> 's \<Rightarrow> 's \<times> ('b, 'e) result"
    and inv :: "'s \<Rightarrow> bool"
    and ok :: "'x \<Rightarrow> bool"
    and allowed :: "'e \<Rightarrow> bool"
  assumes step_inv: "inv s \<Longrightarrow> ok x \<Longrightarrow> inv (fst (step x s))"
    and step_error: "inv s \<Longrightarrow> ok x \<Longrightarrow> snd (step x s) = Err e \<Longrightarrow> allowed e"
begin

lemma run_inv: "inv s \<Longrightarrow> list_all ok xs \<Longrightarrow> inv (fst (run_steps step xs s))"
proof (induction xs arbitrary: s)
  case (Cons x xs)
  obtain s' r where s': "step x s = (s', r)" by (cases "step x s")
  with Cons.prems step_inv[of s x] have "inv s'" by simp
  with Cons s' show ?case
    by (cases r; cases "run_steps step xs s'"; cases "snd (run_steps step xs s')") fastforce+
qed simp

lemma run_error:
  "inv s \<Longrightarrow> list_all ok xs \<Longrightarrow> snd (run_steps step xs s) = Err e \<Longrightarrow> allowed e"
proof (induction xs arbitrary: s)
  case (Cons x xs)
  obtain s' r where s': "step x s = (s', r)" by (cases "step x s")
  with Cons.prems step_inv[of s x] have "inv s'" by simp
  with Cons s' step_error[of s x] show ?case
    by (cases r; cases "run_steps step xs s'"; cases "snd (run_steps step xs s')") fastforce+
qed simp

end

lemmas [vec_eval] = last_opt_def update_last_def vec_remove_def vec_insert_def Let_def

end
