(* ===== verification/Rust_Str.thy ===== *)
theory Rust_Str
  imports Prelude
begin

text \<open>
  The part of Rust's \<open>str\<close>/\<open>String\<close> that the program uses. A string is the list of its
  Unicode scalar values (code points), so \<open>chars()\<close> is the list itself; byte lengths are
  recovered with \<open>utf8_len\<close>. Literals are written \<open>str ''...''\<close>.
\<close>

section \<open>Characters and strings\<close>

type_synonym rchar = nat
type_synonym rstr = "rchar list"

definition str :: "string \<Rightarrow> rstr" where
  "str s = map of_char s"

abbreviation LF :: rchar where "LF \<equiv> 10"
abbreviation CR :: rchar where "CR \<equiv> 13"
abbreviation SPC :: rchar where "SPC \<equiv> 32"
abbreviation SQ :: rchar where "SQ \<equiv> 39"  \<comment> \<open>single quote\<close>

text \<open>\<open>char::is_whitespace\<close>: the Unicode \<open>White_Space\<close> property.\<close>

definition is_whitespace :: "rchar \<Rightarrow> bool" where
  "is_whitespace c \<longleftrightarrow>
     (9 \<le> c \<and> c \<le> 13) \<or> c = 32 \<or> c = 0x85 \<or> c = 0xA0 \<or> c = 0x1680 \<or>
     (0x2000 \<le> c \<and> c \<le> 0x200A) \<or> c = 0x2028 \<or> c = 0x2029 \<or> c = 0x202F \<or>
     c = 0x205F \<or> c = 0x3000"

definition is_ascii_digit :: "rchar \<Rightarrow> bool" where
  "is_ascii_digit c \<longleftrightarrow> 48 \<le> c \<and> c \<le> 57"

definition ascii_lower :: "rchar \<Rightarrow> rchar" where
  "ascii_lower c = (if 65 \<le> c \<and> c \<le> 90 then c + 32 else c)"

definition to_ascii_lowercase :: "rstr \<Rightarrow> rstr" where
  "to_ascii_lowercase s = map ascii_lower s"

text \<open>\<open>char::len_utf8\<close> and \<open>str::len\<close>.\<close>

definition len_utf8 :: "rchar \<Rightarrow> nat" where
  "len_utf8 c = (if c < 0x80 then 1 else if c < 0x800 then 2 else if c < 0x10000 then 3 else 4)"

definition str_len :: "rstr \<Rightarrow> nat" where
  "str_len s = sum_list (map len_utf8 s)"

lemma str_len_simps [simp]:
  "str_len [] = 0"
  "str_len (c # s) = len_utf8 c + str_len s"
  "str_len (s @ t) = str_len s + str_len t"
  by (simp_all add: str_len_def)

lemma len_utf8_pos [simp]: "0 < len_utf8 c"
  by (simp add: len_utf8_def)

lemma len_utf8_le: "len_utf8 c \<le> 4"
  by (simp add: len_utf8_def)

lemma length_le_str_len: "length s \<le> str_len s"
proof (induction s)
  case (Cons c s)
  have "Suc 0 \<le> len_utf8 c" by (simp add: Suc_le_eq)
  with Cons.IH show ?case by simp
qed simp

lemma str_len_eq_0_iff [simp]: "str_len s = 0 \<longleftrightarrow> s = []"
  by (cases s) auto

section \<open>Trimming\<close>

definition trim_start :: "rstr \<Rightarrow> rstr" where
  "trim_start s = dropWhile is_whitespace s"

definition trim_end_matches :: "(rchar \<Rightarrow> bool) \<Rightarrow> rstr \<Rightarrow> rstr" where
  "trim_end_matches p s = rev (dropWhile p (rev s))"

definition trim_end :: "rstr \<Rightarrow> rstr" where
  "trim_end s = trim_end_matches is_whitespace s"

definition trim :: "rstr \<Rightarrow> rstr" where
  "trim s = trim_end (trim_start s)"

lemma trim_start_Nil [simp]: "trim_start [] = []"
  by (simp add: trim_start_def)

lemma trim_end_matches_Nil [simp]: "trim_end_matches p [] = []"
  by (simp add: trim_end_matches_def)

lemma trim_end_matches_snoc:
  "trim_end_matches p (s @ [c]) = (if p c then trim_end_matches p s else s @ [c])"
  by (simp add: trim_end_matches_def)

lemma trim_end_Nil [simp]: "trim_end [] = []"
  by (simp add: trim_end_def)

lemma trim_Nil [simp]: "trim [] = []"
  by (simp add: trim_def)

lemma trim_end_matches_prefix: "prefix (trim_end_matches p s) s"
proof (induction s rule: rev_induct)
  case (snoc c s)
  then show ?case by (auto simp: trim_end_matches_snoc intro: prefix_order.trans)
qed simp

lemma trim_end_matches_idem [simp]:
  "trim_end_matches p (trim_end_matches p s) = trim_end_matches p s"
  by (induction s rule: rev_induct) (auto simp: trim_end_matches_snoc)

lemma trim_end_idem [simp]: "trim_end (trim_end s) = trim_end s"
  by (simp add: trim_end_def)

lemma set_trim_end_matches: "set (trim_end_matches p s) \<subseteq> set s"
  using trim_end_matches_prefix[of p s] by (auto dest: set_mono_prefix)

lemma set_trim_start: "set (trim_start s) \<subseteq> set s"
  by (auto simp: trim_start_def dest: set_dropWhileD)

lemma set_trim: "set (trim s) \<subseteq> set s"
  unfolding trim_def trim_end_def
  using set_trim_end_matches set_trim_start by blast

text \<open>A string with no leading and no trailing white space is left alone by every trim.\<close>

definition trimmed :: "rstr \<Rightarrow> bool" where
  "trimmed s \<longleftrightarrow> s = [] \<or> (\<not> is_whitespace (hd s) \<and> \<not> is_whitespace (last s))"

lemma trim_end_last: "s = [] \<or> \<not> is_whitespace (last s) \<Longrightarrow> trim_end s = s"
  by (cases s rule: rev_cases) (auto simp: trim_end_def trim_end_matches_snoc)

lemma trim_start_hd: "s = [] \<or> \<not> is_whitespace (hd s) \<Longrightarrow> trim_start s = s"
  by (cases s) (auto simp: trim_start_def)

lemma trim_trimmed: "trimmed s \<Longrightarrow> trim s = s"
  by (auto simp: trimmed_def trim_def trim_end_last trim_start_hd)

lemma last_trim_end: "trim_end s \<noteq> [] \<Longrightarrow> \<not> is_whitespace (last (trim_end s))"
  by (induction s rule: rev_induct) (auto simp: trim_end_def trim_end_matches_snoc split: if_splits)

lemma hd_trim_start: "trim_start s \<noteq> [] \<Longrightarrow> \<not> is_whitespace (hd (trim_start s))"
  by (induction s) (auto simp: trim_start_def split: if_splits)

lemma trim_end_eq_append: "\<exists>ws. s = trim_end s @ ws \<and> (\<forall>c \<in> set ws. is_whitespace c)"
proof (induction s rule: rev_induct)
  case (snoc c s)
  then obtain ws where ws: "s = trim_end s @ ws" "\<forall>c \<in> set ws. is_whitespace c" by blast
  show ?case
  proof (cases "is_whitespace c")
    case True
    then have "s @ [c] = trim_end (s @ [c]) @ (ws @ [c])"
      using ws(1) by (simp add: trim_end_def trim_end_matches_snoc)
    with ws(2) True show ?thesis by (metis Un_iff set_append set_ConsD empty_iff list.set(1))
  next
    case False
    then show ?thesis by (simp add: trim_end_def trim_end_matches_snoc)
  qed
qed simp

lemma trim_end_all_ws: "(\<forall>c \<in> set w. is_whitespace c) \<Longrightarrow> trim_end (s @ w) = trim_end s"
proof (induction w rule: rev_induct)
  case (snoc c w)
  then show ?case
    using trim_end_matches_snoc[of is_whitespace "s @ w" c] by (simp add: trim_end_def)
qed simp

lemma trim_start_append:
  "trim_start (s @ w) = (if \<forall>c \<in> set s. is_whitespace c then trim_start w else trim_start s @ w)"
  by (induction s) (auto simp: trim_start_def)

lemma trim_start_all_ws: "(\<forall>c \<in> set s. is_whitespace c) \<Longrightarrow> trim_start s = []"
  by (simp add: trim_start_def)

lemma hd_trim_end: "trim_end s \<noteq> [] \<Longrightarrow> hd (trim_end s) = hd s"
  using trim_end_eq_append[of s] by (metis hd_append2)

lemma trimmed_trim [simp]: "trimmed (trim s)"
proof (cases "trim s = []")
  case True
  then show ?thesis by (simp add: trimmed_def)
next
  case False
  then have ne: "trim_end (trim_start s) \<noteq> []" by (simp add: trim_def)
  then have "trim_start s \<noteq> []" by auto
  then have "\<not> is_whitespace (hd (trim_start s))" by (rule hd_trim_start)
  with ne have "\<not> is_whitespace (hd (trim_end (trim_start s)))" by (simp add: hd_trim_end)
  moreover from ne have "\<not> is_whitespace (last (trim_end (trim_start s)))" by (rule last_trim_end)
  ultimately show ?thesis by (simp add: trimmed_def trim_def)
qed

lemma trim_idem [simp]: "trim (trim s) = trim s"
  by (rule trim_trimmed) simp

section \<open>Prefixes, suffixes, searching\<close>

definition strip_prefix :: "rstr \<Rightarrow> rstr \<Rightarrow> rstr option" where
  "strip_prefix p s = (if prefix p s then Some (drop (length p) s) else None)"

definition strip_suffix :: "rstr \<Rightarrow> rstr \<Rightarrow> rstr option" where
  "strip_suffix p s = (if suffix p s then Some (take (length s - length p) s) else None)"

lemma strip_prefix_append [simp]: "strip_prefix p (p @ s) = Some s"
  by (simp add: strip_prefix_def)

lemma strip_prefix_Some_iff: "strip_prefix p s = Some t \<longleftrightarrow> s = p @ t"
  by (auto simp: strip_prefix_def prefix_def)

lemma strip_prefix_None_iff: "strip_prefix p s = None \<longleftrightarrow> \<not> prefix p s"
  by (simp add: strip_prefix_def)

lemma strip_suffix_append [simp]: "strip_suffix p (s @ p) = Some s"
  by (simp add: strip_suffix_def suffix_def)

lemma strip_suffix_Some_iff: "strip_suffix p s = Some t \<longleftrightarrow> s = t @ p"
  by (auto simp: strip_suffix_def suffix_def)

lemma strip_suffix_None_iff: "strip_suffix p s = None \<longleftrightarrow> \<not> suffix p s"
  by (simp add: strip_suffix_def)

text \<open>\<open>str::find\<close> of a substring, as an index into the characters.\<close>

fun find_sub :: "rstr \<Rightarrow> rstr \<Rightarrow> nat option" where
  "find_sub p [] = (if p = [] then Some 0 else None)"
| "find_sub p (c # s) = (if prefix p (c # s) then Some 0 else map_option Suc (find_sub p s))"

definition contains :: "rstr \<Rightarrow> rstr \<Rightarrow> bool" where
  "contains p s \<longleftrightarrow> find_sub p s \<noteq> None"

definition split_once :: "rstr \<Rightarrow> rstr \<Rightarrow> (rstr \<times> rstr) option" where
  "split_once p s = map_option (\<lambda>i. (take i s, drop (i + length p) s)) (find_sub p s)"

text \<open>\<open>str::rsplit_once\<close> with a one-character separator.\<close>

definition rsplit_once_char :: "rchar \<Rightarrow> rstr \<Rightarrow> (rstr \<times> rstr) option" where
  "rsplit_once_char c s =
     (if c \<in> set s
      then Some (butlast (rev (dropWhile (\<lambda>d. d \<noteq> c) (rev s))), rev (takeWhile (\<lambda>d. d \<noteq> c) (rev s)))
      else None)"

lemma find_sub_Some_iff:
  "find_sub p s = Some i \<longleftrightarrow>
     i \<le> length s \<and> prefix p (drop i s) \<and> (\<forall>j < i. \<not> prefix p (drop j s))"
proof (induction s arbitrary: i)
  case Nil
  then show ?case by auto
next
  case (Cons c s)
  show ?case
  proof (cases "prefix p (c # s)")
    case True
    then show ?thesis by (cases i) auto
  next
    case False
    show ?thesis
    proof (cases i)
      case 0
      with False show ?thesis by auto
    next
      case (Suc k)
      have "(\<forall>j < Suc k. \<not> prefix p (drop j (c # s))) \<longleftrightarrow> (\<forall>j < k. \<not> prefix p (drop j s))"
        using False by (auto simp: less_Suc_eq_0_disj)
      with False Suc Cons.IH[of k] show ?thesis by auto
    qed
  qed
qed

lemma find_sub_None_iff: "find_sub p s = None \<longleftrightarrow> (\<forall>i \<le> length s. \<not> prefix p (drop i s))"
proof (induction s)
  case Nil
  then show ?case by simp
next
  case (Cons c s)
  have "(\<forall>i \<le> length (c # s). \<not> prefix p (drop i (c # s))) \<longleftrightarrow>
        \<not> prefix p (c # s) \<and> (\<forall>i \<le> length s. \<not> prefix p (drop i s))"
    by (metis Suc_le_mono drop0 drop_Suc_Cons length_Cons not0_implies_Suc zero_le)
  with Cons.IH show ?case by auto
qed

section \<open>Lines\<close>

text \<open>\<open>str::split(c)\<close>: always at least one part.\<close>

fun split_char :: "rchar \<Rightarrow> rstr \<Rightarrow> rstr list" where
  "split_char c [] = [[]]"
| "split_char c (d # s) =
     (if d = c then [] # split_char c s
      else (case split_char c s of [] \<Rightarrow> [[d]] | p # ps \<Rightarrow> (d # p) # ps))"

text \<open>\<open>slice::join\<close>.\<close>

fun join :: "rstr \<Rightarrow> rstr list \<Rightarrow> rstr" where
  "join sep [] = []"
| "join sep [s] = s"
| "join sep (s # t # ts) = s @ sep @ join sep (t # ts)"

text \<open>
  \<open>str::lines\<close>: the text is cut after each line feed; a part that ended in a line feed
  loses it and then one carriage return, the last part (without a line feed) is kept as it
  is and dropped when empty.
\<close>

definition strip_cr :: "rstr \<Rightarrow> rstr" where
  "strip_cr l = (case strip_suffix [CR] l of None \<Rightarrow> l | Some l' \<Rightarrow> l')"

definition lines :: "rstr \<Rightarrow> rstr list" where
  "lines s =
     (let parts = split_char LF s
      in map strip_cr (butlast parts) @ (if last parts = [] then [] else [last parts]))"

lemma split_char_neq_Nil [simp]: "split_char c s \<noteq> []"
  by (induction s) (auto split: list.splits)

lemma split_char_no_sep: "c \<notin> set s \<Longrightarrow> split_char c s = [s]"
  by (induction s) auto

lemma split_char_append_sep: "c \<notin> set s \<Longrightarrow> split_char c (s @ c # t) = s # split_char c t"
  by (induction s) auto

lemma join_split_char: "join [c] (split_char c s) = s"
proof (induction s)
  case (Cons d s)
  obtain p ps where ps: "split_char c s = p # ps"
    by (cases "split_char c s") auto
  with Cons.IH show ?case by (cases ps) auto
qed simp

lemma split_char_join:
  "ls \<noteq> [] \<Longrightarrow> (\<And>l. l \<in> set ls \<Longrightarrow> c \<notin> set l) \<Longrightarrow> split_char c (join [c] ls) = ls"
proof (induction ls)
  case (Cons l ls)
  show ?case
  proof (cases ls)
    case Nil
    with Cons.prems show ?thesis by (simp add: split_char_no_sep)
  next
    case (Cons l' ls')
    with Cons.IH Cons.prems show ?thesis by (simp add: split_char_append_sep)
  qed
qed simp

lemma split_char_parts: "l \<in> set (split_char c s) \<Longrightarrow> c \<notin> set l"
proof (induction s arbitrary: l)
  case (Cons d s)
  then show ?case by (auto split: if_splits list.splits)
qed simp

lemma strip_cr_id: "l = [] \<or> last l \<noteq> CR \<Longrightarrow> strip_cr l = l"
  by (auto simp: strip_cr_def strip_suffix_Some_iff split: option.splits)

lemma split_char_append: "split_char c (s @ c # t) = split_char c s @ split_char c t"
  by (induction s) (auto split: list.split)

text \<open>\<open>str::split_inclusive\<close> at line feeds.\<close>

fun split_incl :: "rstr \<Rightarrow> rstr list" where
  "split_incl [] = []"
| "split_incl (c # s) =
     (if c = LF then [c] # split_incl s
      else case split_incl s of [] \<Rightarrow> [[c]] | l # ls \<Rightarrow> (c # l) # ls)"

lemma split_incl_body: "LF \<notin> set body \<Longrightarrow> body \<noteq> [] \<Longrightarrow> split_incl body = [body]"
proof (induction body)
  case (Cons c body)
  then show ?case by (cases body) auto
qed simp

lemma split_incl_line: "LF \<notin> set body \<Longrightarrow> split_incl (body @ LF # rest) = (body @ [LF]) # split_incl rest"
  by (induction body) simp_all

lemma concat_split_incl [simp]: "concat (split_incl s) = s"
  by (induction s) (auto split: list.split)

lemma split_incl_append: "s = [] \<or> last s = LF \<Longrightarrow> split_incl (s @ t) = split_incl s @ split_incl t"
proof (induction "length s" arbitrary: s rule: less_induct)
  case less
  show ?case
  proof (cases "s = []")
    case False
    with less.prems have "LF \<in> set s" using last_in_set by metis
    then obtain body rest where s: "s = body @ LF # rest" "LF \<notin> set body" by (blast dest: split_list_first)
    with less.prems have "rest = [] \<or> last rest = LF" by (auto split: if_splits)
    with s less.hyps[of rest] show ?thesis by (simp add: split_incl_line)
  qed simp
qed

text \<open>The lines of a text whose last line is terminated, and of one more line.\<close>

lemma lines_snoc_LF: "lines (s @ [LF]) = map strip_cr (split_char LF s)"
  using split_char_append[of LF s "[]"] by (simp add: lines_def)

lemma lines_append_line:
  "LF \<notin> set l \<Longrightarrow> lines ((s @ [LF]) @ l @ [LF]) = lines (s @ [LF]) @ [strip_cr l]"
  using split_char_append[of LF s l] lines_snoc_LF[of "s @ LF # l"] by (simp add: lines_snoc_LF split_char_no_sep)

lemma lines_single: "LF \<notin> set l \<Longrightarrow> lines (l @ [LF]) = [strip_cr l]"
  by (simp add: lines_snoc_LF split_char_no_sep)

lemma last_split_char: "s \<noteq> [] \<Longrightarrow> last s \<noteq> c \<Longrightarrow> last (split_char c s) \<noteq> [] \<and> last (last (split_char c s)) = last s"
  by (induction s) (auto split: list.splits if_splits)

lemma lines_terminate:
  assumes "s \<noteq> []" "last s \<noteq> LF" "last s \<noteq> CR"
  shows "lines (s @ [LF]) = lines s"
proof -
  let ?p = "split_char LF s"
  from last_split_char[OF assms(1,2)] assms(3) have "strip_cr (last ?p) = last ?p" by (intro strip_cr_id) simp
  moreover have "map strip_cr ?p = map strip_cr (butlast ?p) @ [strip_cr (last ?p)]"
    by (metis append_butlast_last_id list.simps(8,9) map_append split_char_neq_Nil)
  ultimately show ?thesis
    unfolding lines_snoc_LF using last_split_char[OF assms(1,2)] by (simp add: lines_def Let_def)
qed

text \<open>Decimal rendering of an unsigned integer by \<open>format!\<close>.\<close>

fun show_nat :: "nat \<Rightarrow> rstr" where
  "show_nat n = (if n < 10 then [48 + n] else show_nat (n div 10) @ [48 + n mod 10])"

declare show_nat.simps [simp del]

lemmas [str_eval] =
  str_def is_whitespace_def is_ascii_digit_def ascii_lower_def to_ascii_lowercase_def len_utf8_def
  trim_start_def trim_end_matches_def trim_end_def trim_def strip_prefix_def strip_suffix_def
  suffix_to_prefix contains_def split_once_def rsplit_once_char_def strip_cr_def lines_def
  show_nat.simps Let_def

end
