(* ===== verification/Patch_Types.thy ===== *)
theory Patch_Types
  imports Rust_Str
begin

text \<open>
  The data of the patch format (\<open>codex-rs/apply-patch/src/parser.rs\<close> and \<open>lib.rs\<close>): the
  markers, parse errors, update chunks and hunks, and the two file-update modes. Paths
  (\<open>PathBuf\<close>) are their text.
\<close>

type_synonym path_buf = rstr

section \<open>Markers\<close>

definition BEGIN_PATCH_MARKER :: rstr where "BEGIN_PATCH_MARKER = str ''*** Begin Patch''"
definition END_PATCH_MARKER :: rstr where "END_PATCH_MARKER = str ''*** End Patch''"
definition ADD_FILE_MARKER :: rstr where "ADD_FILE_MARKER = str ''*** Add File: ''"
definition DELETE_FILE_MARKER :: rstr where "DELETE_FILE_MARKER = str ''*** Delete File: ''"
definition UPDATE_FILE_MARKER :: rstr where "UPDATE_FILE_MARKER = str ''*** Update File: ''"
definition MOVE_TO_MARKER :: rstr where "MOVE_TO_MARKER = str ''*** Move to: ''"
definition EOF_MARKER :: rstr where "EOF_MARKER = str ''*** End of File''"
definition CHANGE_CONTEXT_MARKER :: rstr where "CHANGE_CONTEXT_MARKER = str ''@@ ''"
definition EMPTY_CHANGE_CONTEXT_MARKER :: rstr where "EMPTY_CHANGE_CONTEXT_MARKER = str ''@@''"
definition ENVIRONMENT_ID_MARKER :: rstr where "ENVIRONMENT_ID_MARKER = str ''*** Environment ID:''"

lemmas marker_defs =
  BEGIN_PATCH_MARKER_def END_PATCH_MARKER_def ADD_FILE_MARKER_def DELETE_FILE_MARKER_def
  UPDATE_FILE_MARKER_def MOVE_TO_MARKER_def EOF_MARKER_def CHANGE_CONTEXT_MARKER_def
  EMPTY_CHANGE_CONTEXT_MARKER_def ENVIRONMENT_ID_MARKER_def

section \<open>Errors, chunks and hunks\<close>

datatype parse_error =
    InvalidPatchError rstr
  | InvalidHunkError rstr nat  \<comment> \<open>message, line number\<close>

record update_file_chunk =
  change_context :: "rstr option"
  old_lines :: "rstr list"
  new_lines :: "rstr list"
  context_line_indices :: "(nat \<times> nat) list"
  is_end_of_file :: bool

definition default_chunk :: update_file_chunk where
  "default_chunk =
     \<lparr>change_context = None, old_lines = [], new_lines = [], context_line_indices = [],
      is_end_of_file = False\<rparr>"

datatype hunk =
    AddFile path_buf rstr  \<comment> \<open>path, contents\<close>
  | DeleteFile path_buf
  | UpdateFile path_buf "path_buf option" "update_file_chunk list"  \<comment> \<open>path, move path, chunks\<close>

text \<open>\<open>Hunk::path\<close>: the move destination for rename hunks; \<open>Hunk::resolve_path\<close> uses the source.\<close>

fun hunk_path :: "hunk \<Rightarrow> path_buf" where
  "hunk_path (AddFile path _) = path"
| "hunk_path (DeleteFile path) = path"
| "hunk_path (UpdateFile _ (Some path) _) = path"
| "hunk_path (UpdateFile path None _) = path"

fun hunk_source_path :: "hunk \<Rightarrow> path_buf" where
  "hunk_source_path (UpdateFile path _ _) = path"
| "hunk_source_path h = hunk_path h"

text \<open>\<open>UpdateFileChunk::push_context_line\<close>.\<close>

definition push_context_line :: "rstr \<Rightarrow> update_file_chunk \<Rightarrow> update_file_chunk" where
  "push_context_line line c =
     c\<lparr>context_line_indices := context_line_indices c @ [(length (old_lines c), length (new_lines c))],
       old_lines := old_lines c @ [line],
       new_lines := new_lines c @ [line]\<rparr>"

definition push_new_line :: "rstr \<Rightarrow> update_file_chunk \<Rightarrow> update_file_chunk" where
  "push_new_line line c = c\<lparr>new_lines := new_lines c @ [line]\<rparr>"

definition push_old_line :: "rstr \<Rightarrow> update_file_chunk \<Rightarrow> update_file_chunk" where
  "push_old_line line c = c\<lparr>old_lines := old_lines c @ [line]\<rparr>"

section \<open>Well-formed chunks\<close>

text \<open>
  The context indices recorded while parsing are strictly increasing pairs of positions of
  equal lines: what the line-ending preserving updater slices by.
\<close>

fun context_indices_ok :: "nat \<Rightarrow> nat \<Rightarrow> rstr list \<Rightarrow> rstr list \<Rightarrow> (nat \<times> nat) list \<Rightarrow> bool" where
  "context_indices_ok i j old new [] = True"
| "context_indices_ok i j old new ((a, b) # r) =
     (i \<le> a \<and> j \<le> b \<and> a < length old \<and> b < length new \<and> old ! a = new ! b \<and>
      context_indices_ok (Suc a) (Suc b) old new r)"

definition chunk_wf :: "update_file_chunk \<Rightarrow> bool" where
  "chunk_wf c \<longleftrightarrow> context_indices_ok 0 0 (old_lines c) (new_lines c) (context_line_indices c)"

fun hunk_wf :: "hunk \<Rightarrow> bool" where
  "hunk_wf (UpdateFile _ _ chunks) = list_all chunk_wf chunks"
| "hunk_wf _ = True"

lemma chunk_wf_default [simp]: "chunk_wf default_chunk"
  by (simp add: chunk_wf_def default_chunk_def)

lemma context_indices_ok_mono:
  "context_indices_ok i j old new r \<Longrightarrow> context_indices_ok i j (old @ xs) (new @ ys) r"
proof (induction r arbitrary: i j)
  case (Cons p r)
  then show ?case by (cases p) (auto simp: nth_append)
qed simp

lemma context_indices_ok_snoc:
  "context_indices_ok i j old new r \<Longrightarrow> i \<le> length old \<Longrightarrow> j \<le> length new \<Longrightarrow>
   context_indices_ok i j (old @ [l]) (new @ [l]) (r @ [(length old, length new)])"
proof (induction r arbitrary: i j)
  case Nil
  then show ?case by simp
next
  case (Cons p r)
  then show ?case by (cases p) (auto simp: nth_append)
qed

lemma chunk_wf_push_context_line: "chunk_wf c \<Longrightarrow> chunk_wf (push_context_line l c)"
  by (simp add: chunk_wf_def push_context_line_def context_indices_ok_snoc)

lemma chunk_wf_push_new_line: "chunk_wf c \<Longrightarrow> chunk_wf (push_new_line l c)"
  using context_indices_ok_mono[of 0 0 "old_lines c" "new_lines c" _ "[]" "[l]"]
  by (simp add: chunk_wf_def push_new_line_def)

lemma chunk_wf_push_old_line: "chunk_wf c \<Longrightarrow> chunk_wf (push_old_line l c)"
  using context_indices_ok_mono[of 0 0 "old_lines c" "new_lines c" _ "[l]" "[]"]
  by (simp add: chunk_wf_def push_old_line_def)

section \<open>Update modes\<close>

datatype apply_patch_file_update_mode = NormalizeToLf | PreserveLineEndings

definition default_update_mode :: apply_patch_file_update_mode where
  "default_update_mode = NormalizeToLf"

lemmas [patch_eval] =
  marker_defs default_chunk_def push_context_line_def push_new_line_def push_old_line_def

end
