(* ===== verification/Streaming_Parser.thy ===== *)
theory Streaming_Parser
  imports Patch_Types
begin

text \<open>
  The incremental patch parser (\<open>codex-rs/apply-patch/src/streaming_parser.rs\<close>): its state,
  one definition per method, the invariant every reachable state satisfies, and the theorem
  that the way the text is cut into deltas does not matter.
\<close>

section \<open>State\<close>

datatype streaming_parser_mode =
    NotStarted
  | StartedPatch
  | InAddFile
  | InDeleteFile
  | InUpdateFile nat  \<comment> \<open>hunk line number\<close>
  | EndedPatch

record streaming_patch_parser =
  line_buffer :: rstr
  mode :: streaming_parser_mode
  hunks :: "hunk list"
  environment_id :: "rstr option"
  line_number :: nat

definition default_parser :: streaming_patch_parser where
  "default_parser =
     \<lparr>line_buffer = [], mode = NotStarted, hunks = [], environment_id = None, line_number = 0\<rparr>"

section \<open>Messages\<close>

definition unexpected_line_msg :: "rstr \<Rightarrow> rstr" where
  "unexpected_line_msg line =
     str ''Unexpected line found in update hunk: '' @ [SQ] @ line @
     str '''. Every line should start with ' ' (context line), '+' (added line), or '-' (removed line)''"

definition expected_context_msg :: "rstr \<Rightarrow> rstr" where
  "expected_context_msg line =
     str ''Expected update hunk to start with a @@ context marker, got: '' @ [SQ] @ line @ [SQ]"

definition invalid_header_msg :: "rstr \<Rightarrow> rstr" where
  "invalid_header_msg trimmed_line =
     [SQ] @ trimmed_line @
     str ''' is not a valid hunk header. Valid hunk headers: '*** Add File: {path}', '*** Delete File: {path}', '*** Update File: {path}'' @ [SQ]"

definition empty_hunk_msg :: "path_buf \<Rightarrow> rstr" where
  "empty_hunk_msg path = str ''Update file hunk for path '' @ [SQ] @ path @ str ''' is empty''"

definition no_lines_msg :: rstr where
  "no_lines_msg = str ''Update hunk does not contain any lines''"

definition first_line_msg :: rstr where
  "first_line_msg = str ''The first line of the patch must be '*** Begin Patch'' @ [SQ]"

definition last_line_msg :: rstr where
  "last_line_msg = str ''The last line of the patch must be '*** End Patch'' @ [SQ]"

section \<open>Operations\<close>

definition chunk_is_empty :: "update_file_chunk \<Rightarrow> bool" where
  "chunk_is_empty c \<longleftrightarrow> old_lines c = [] \<and> new_lines c = []"

definition last_chunk_is :: "(update_file_chunk \<Rightarrow> bool) \<Rightarrow> update_file_chunk list \<Rightarrow> bool" where
  "last_chunk_is p chunks = (case last_opt chunks of None \<Rightarrow> False | Some c \<Rightarrow> p c)"

definition ensure_update_hunk_is_not_empty ::
    "rstr \<Rightarrow> streaming_patch_parser \<Rightarrow> (unit, parse_error) result" where
  "ensure_update_hunk_is_not_empty line p =
     (case last_opt (hunks p) of
        Some (UpdateFile path _ chunks) \<Rightarrow>
          (case (chunks, mode p) of
             ([], InUpdateFile hunk_line_number) \<Rightarrow>
               Err (InvalidHunkError (empty_hunk_msg path) hunk_line_number)
           | _ \<Rightarrow>
               if last_chunk_is chunk_is_empty chunks
               then if line = END_PATCH_MARKER
                    then Err (InvalidHunkError no_lines_msg (line_number p))
                    else Err (InvalidHunkError (unexpected_line_msg line) (line_number p))
               else Ok ())
      | _ \<Rightarrow> Ok ())"

definition start_hunk :: "hunk \<Rightarrow> streaming_parser_mode \<Rightarrow> streaming_patch_parser \<Rightarrow> streaming_patch_parser" where
  "start_hunk h m p = p\<lparr>hunks := hunks p @ [h], mode := m\<rparr>"

text \<open>
  \<open>handle_hunk_headers_and_end_patch\<close>: \<open>Ok (Some p')\<close> is \<open>Ok(true)\<close> with the updated parser,
  \<open>Ok None\<close> is \<open>Ok(false)\<close>, which leaves the parser as it was.
\<close>

definition handle_hunk_headers_and_end_patch ::
    "rstr \<Rightarrow> streaming_patch_parser \<Rightarrow> (streaming_patch_parser option, parse_error) result" where
  "handle_hunk_headers_and_end_patch line p =
     (case (if mode p = StartedPatch then strip_prefix ENVIRONMENT_ID_MARKER line else None) of
        Some env \<Rightarrow>
          if environment_id p \<noteq> None
          then Err (InvalidPatchError (str ''apply_patch environment_id cannot be specified more than once''))
          else if trim env = []
          then Err (InvalidPatchError (str ''apply_patch environment_id cannot be empty''))
          else Ok (Some (p\<lparr>environment_id := Some (trim env)\<rparr>))
      | None \<Rightarrow>
          if line = END_PATCH_MARKER
          then try_bind (ensure_update_hunk_is_not_empty line p) (\<lambda>_. Ok (Some (p\<lparr>mode := EndedPatch\<rparr>)))
          else case strip_prefix ADD_FILE_MARKER line of
            Some path \<Rightarrow> try_bind (ensure_update_hunk_is_not_empty line p)
              (\<lambda>_. Ok (Some (start_hunk (AddFile path []) InAddFile p)))
          | None \<Rightarrow> (case strip_prefix DELETE_FILE_MARKER line of
              Some path \<Rightarrow> try_bind (ensure_update_hunk_is_not_empty line p)
                (\<lambda>_. Ok (Some (start_hunk (DeleteFile path) InDeleteFile p)))
            | None \<Rightarrow> (case strip_prefix UPDATE_FILE_MARKER line of
                Some path \<Rightarrow> try_bind (ensure_update_hunk_is_not_empty line p)
                  (\<lambda>_. Ok (Some (start_hunk (UpdateFile path None []) (InUpdateFile (line_number p)) p)))
              | None \<Rightarrow> Ok None)))"

text \<open>Replacing the last hunk, which the code reaches through \<open>hunks.last_mut()\<close>.\<close>

definition set_last_hunk :: "hunk \<Rightarrow> streaming_patch_parser \<Rightarrow> streaming_patch_parser" where
  "set_last_hunk h p = p\<lparr>hunks := update_last (\<lambda>_. h) (hunks p)\<rparr>"

definition with_last_chunk ::
    "(update_file_chunk \<Rightarrow> update_file_chunk) \<Rightarrow> update_file_chunk list \<Rightarrow> update_file_chunk list" where
  "with_last_chunk f chunks = update_last f (if chunks = [] then [default_chunk] else chunks)"

text \<open>
  The body of the \<open>UpdateFile\<close> arm once the header check has passed the line on:
  the last hunk is the update hunk \<open>UpdateFile path move_path chunks\<close>.
\<close>

definition is_context_marker :: "rstr \<Rightarrow> bool" where
  "is_context_marker l \<longleftrightarrow> l = EMPTY_CHANGE_CONTEXT_MARKER \<or> prefix CHANGE_CONTEXT_MARKER l"

definition update_hunk_line ::
    "nat \<Rightarrow> rstr \<Rightarrow> path_buf \<Rightarrow> path_buf option \<Rightarrow> update_file_chunk list \<Rightarrow> (hunk, parse_error) result" where
  "update_hunk_line n line path move_path chunks =
     (let update_line = trim_end line;
          set_chunks = (\<lambda>cs. Ok (UpdateFile path move_path cs))
      in
      if last_chunk_is is_end_of_file chunks \<and> update_line = [] then set_chunks chunks
      else if last_chunk_is is_end_of_file chunks \<and> \<not> is_context_marker update_line
      then Err (InvalidHunkError (expected_context_msg line) n)
      else if chunks = [] \<and> move_path = None \<and> prefix MOVE_TO_MARKER update_line
      then Ok (UpdateFile path (Some (drop (length MOVE_TO_MARKER) update_line)) chunks)
      else if is_context_marker update_line \<and> last_chunk_is chunk_is_empty chunks
      then Err (InvalidHunkError (unexpected_line_msg line) n)
      else if update_line = EMPTY_CHANGE_CONTEXT_MARKER then set_chunks (chunks @ [default_chunk])
      else case strip_prefix CHANGE_CONTEXT_MARKER update_line of
        Some ctx \<Rightarrow> set_chunks (chunks @ [default_chunk\<lparr>change_context := Some ctx\<rparr>])
      | None \<Rightarrow>
        if update_line = EOF_MARKER
        then if last_chunk_is chunk_is_empty chunks
             then Err (InvalidHunkError no_lines_msg n)
             else set_chunks (update_last (\<lambda>c. c\<lparr>is_end_of_file := True\<rparr>) chunks)
        else case line of
          [] \<Rightarrow> set_chunks (with_last_chunk (push_context_line []) chunks)
        | ch # rest \<Rightarrow>
            if ch = SPC then set_chunks (with_last_chunk (push_context_line rest) chunks)
            else if ch = 43 then set_chunks (with_last_chunk (push_new_line rest) chunks)
            else if ch = 45 then set_chunks (with_last_chunk (push_old_line rest) chunks)
            else if last_chunk_is (\<lambda>c. \<not> chunk_is_empty c) chunks
            then Err (InvalidHunkError (expected_context_msg line) n)
            else Err (InvalidHunkError (unexpected_line_msg line) n))"

definition process_update_line ::
    "nat \<Rightarrow> rstr \<Rightarrow> streaming_patch_parser \<Rightarrow> (streaming_patch_parser, parse_error) result" where
  "process_update_line hunk_line_number line p =
     try_bind (handle_hunk_headers_and_end_patch (trim_end line) p) (\<lambda>r. case r of
       Some p' \<Rightarrow> Ok p'
     | None \<Rightarrow> (case last_opt (hunks p) of
         Some (UpdateFile path move_path chunks) \<Rightarrow>
           try_bind (update_hunk_line (line_number p) line path move_path chunks)
             (\<lambda>h. Ok ((set_last_hunk h p)\<lparr>mode := InUpdateFile hunk_line_number\<rparr>))
       | _ \<Rightarrow> Err (InvalidHunkError (unexpected_line_msg line) (line_number p))))"

definition process_add_line ::
    "rstr \<Rightarrow> streaming_patch_parser \<Rightarrow> (streaming_patch_parser, parse_error) result" where
  "process_add_line line p =
     try_bind (handle_hunk_headers_and_end_patch (trim line) p) (\<lambda>r. case r of
       Some p' \<Rightarrow> Ok p'
     | None \<Rightarrow> (case (strip_prefix [43] line, last_opt (hunks p)) of
         (Some line_to_add, Some (AddFile path contents)) \<Rightarrow>
           Ok (set_last_hunk (AddFile path (contents @ line_to_add @ [LF])) p)
       | _ \<Rightarrow> Err (InvalidHunkError (invalid_header_msg (trim line)) (line_number p))))"

definition process_header_line ::
    "rstr \<Rightarrow> streaming_patch_parser \<Rightarrow> (streaming_patch_parser, parse_error) result" where
  "process_header_line line p =
     try_bind (handle_hunk_headers_and_end_patch (trim line) p) (\<lambda>r. case r of
       Some p' \<Rightarrow> Ok p'
     | None \<Rightarrow> Err (InvalidHunkError (invalid_header_msg (trim line)) (line_number p)))"

definition process_line ::
    "rstr \<Rightarrow> streaming_patch_parser \<Rightarrow> (streaming_patch_parser, parse_error) result" where
  "process_line line p =
     (case mode p of
        NotStarted \<Rightarrow>
          if trim line = BEGIN_PATCH_MARKER then Ok (p\<lparr>mode := StartedPatch\<rparr>)
          else Err (InvalidPatchError first_line_msg)
      | StartedPatch \<Rightarrow> process_header_line line p
      | InAddFile \<Rightarrow> process_add_line line p
      | InDeleteFile \<Rightarrow> process_header_line line p
      | InUpdateFile hunk_line_number \<Rightarrow> process_update_line hunk_line_number line p
      | EndedPatch \<Rightarrow>
          if trim line = [] then Ok p else Err (InvalidPatchError last_line_msg))"

text \<open>
  \<open>push_delta\<close> mutates the parser in place, so the model returns the parser also when a line
  is refused: the line has been taken from the buffer and counted, the rest of the delta is
  not read.
\<close>

definition take_line :: "streaming_patch_parser \<Rightarrow> streaming_patch_parser" where
  "take_line p = p\<lparr>line_buffer := [], line_number := Suc (line_number p)\<rparr>"

fun push_chars ::
    "rstr \<Rightarrow> streaming_patch_parser \<Rightarrow> streaming_patch_parser \<times> (unit, parse_error) result" where
  "push_chars [] p = (p, Ok ())"
| "push_chars (ch # delta) p =
     (if ch = LF
      then (case process_line (strip_cr (line_buffer p)) (take_line p) of
              Err e \<Rightarrow> (take_line p, Err e)
            | Ok p' \<Rightarrow> push_chars delta p')
      else push_chars delta (p\<lparr>line_buffer := line_buffer p @ [ch]\<rparr>))"

definition push_delta ::
    "rstr \<Rightarrow> streaming_patch_parser \<Rightarrow> streaming_patch_parser \<times> (hunk list, parse_error) result" where
  "push_delta delta p =
     (case push_chars delta p of
        (p', Err e) \<Rightarrow> (p', Err e)
      | (p', Ok _) \<Rightarrow> (p', Ok (hunks p')))"

definition finish_check :: "streaming_patch_parser \<Rightarrow> streaming_patch_parser \<times> (hunk list, parse_error) result" where
  "finish_check p =
     (p, if mode p \<noteq> EndedPatch then Err (InvalidPatchError last_line_msg) else Ok (hunks p))"

definition finish :: "streaming_patch_parser \<Rightarrow> streaming_patch_parser \<times> (hunk list, parse_error) result" where
  "finish p =
     (if line_buffer p = [] then finish_check p
      else let line = line_buffer p; q = take_line p in
        if trim line = END_PATCH_MARKER
        then (case ensure_update_hunk_is_not_empty (trim line) q of
                Err e \<Rightarrow> (q, Err e)
              | Ok _ \<Rightarrow> finish_check (q\<lparr>mode := EndedPatch\<rparr>))
        else (case process_line line q of
                Err e \<Rightarrow> (q, Err e)
              | Ok q' \<Rightarrow> finish_check q'))"

section \<open>Cutting the input into deltas\<close>

lemma push_chars_append:
  "push_chars (a @ b) p =
     (case push_chars a p of
        (p', Err e) \<Rightarrow> (p', Err e)
      | (p', Ok _) \<Rightarrow> push_chars b p')"
  by (induction a arbitrary: p) (auto split: sum.splits)

lemma push_chars_no_lf:
  "LF \<notin> set s \<Longrightarrow> push_chars s p = (p\<lparr>line_buffer := line_buffer p @ s\<rparr>, Ok ())"
  by (induction s arbitrary: p) auto

lemma take_line_buffer [simp]: "take_line (p\<lparr>line_buffer := b\<rparr>) = take_line p"
  by (simp add: take_line_def)

lemma push_chars_line:
  "LF \<notin> set s \<Longrightarrow>
   push_chars (s @ LF # rest) p =
     (case process_line (strip_cr (line_buffer p @ s)) (take_line p) of
        Err e \<Rightarrow> (take_line p, Err e)
      | Ok p' \<Rightarrow> push_chars rest p')"
  by (simp add: push_chars_append push_chars_no_lf split: sum.splits)

text \<open>A sequence of deltas, as the model streams the tool-call argument.\<close>

fun push_deltas ::
    "rstr list \<Rightarrow> streaming_patch_parser \<Rightarrow> streaming_patch_parser \<times> (hunk list, parse_error) result" where
  "push_deltas [] p = (p, Ok (hunks p))"
| "push_deltas (d # ds) p =
     (case push_delta d p of
        (p', Err e) \<Rightarrow> (p', Err e)
      | (p', Ok _) \<Rightarrow> push_deltas ds p')"

text \<open>
  C3. The streaming parser is insensitive to how the patch text is cut into deltas: feeding any
  sequence of deltas has exactly the effect of feeding their concatenation at once, with the
  same final parser, the same hunks and the same first error.
\<close>

theorem push_deltas_concat: "push_deltas ds p = push_delta (concat ds) p"
proof (induction ds arbitrary: p)
  case Nil
  then show ?case by (simp add: push_delta_def)
next
  case (Cons d ds)
  then show ?case
    by (auto simp: push_delta_def push_chars_append split: prod.splits sum.splits)
qed

section \<open>Invariant\<close>

text \<open>
  A hunk is complete when nothing is missing from it: an update hunk has at least one chunk
  and none of its chunks is empty. The hunk being parsed may still lack the lines of its
  last chunk, every earlier one is complete.
\<close>

definition chunk_complete :: "update_file_chunk \<Rightarrow> bool" where
  "chunk_complete c \<longleftrightarrow> chunk_wf c \<and> \<not> chunk_is_empty c"

fun hunk_complete :: "hunk \<Rightarrow> bool" where
  "hunk_complete (UpdateFile _ _ chunks) = (chunks \<noteq> [] \<and> list_all chunk_complete chunks)"
| "hunk_complete (AddFile _ contents) = (contents = [] \<or> last contents = LF)"
| "hunk_complete (DeleteFile _) = True"

fun hunk_open :: "hunk \<Rightarrow> bool" where
  "hunk_open (UpdateFile _ _ chunks) =
     (list_all chunk_complete (butlast chunks) \<and> list_all chunk_wf chunks)"
| "hunk_open h = hunk_complete h"

fun mode_matches :: "streaming_parser_mode \<Rightarrow> hunk list \<Rightarrow> bool" where
  "mode_matches NotStarted hs = (hs = [])"
| "mode_matches StartedPatch hs = (hs = [])"
| "mode_matches InAddFile hs = (\<exists>path contents. last_opt hs = Some (AddFile path contents))"
| "mode_matches InDeleteFile hs = (\<exists>path. last_opt hs = Some (DeleteFile path))"
| "mode_matches (InUpdateFile _) hs = (\<exists>path mv cs. last_opt hs = Some (UpdateFile path mv cs))"
| "mode_matches EndedPatch hs = True"

definition parser_inv :: "streaming_patch_parser \<Rightarrow> bool" where
  "parser_inv p \<longleftrightarrow>
     list_all hunk_complete (butlast (hunks p)) \<and>
     (case last_opt (hunks p) of None \<Rightarrow> True | Some h \<Rightarrow> hunk_open h) \<and>
     mode_matches (mode p) (hunks p) \<and>
     (mode p = EndedPatch \<longrightarrow> list_all hunk_complete (hunks p))"

lemma parser_inv_default: "parser_inv default_parser"
  by (simp add: parser_inv_def default_parser_def)

lemma parser_inv_take_line [simp]: "parser_inv (take_line p) = parser_inv p"
  by (simp add: parser_inv_def take_line_def)

lemma parser_inv_line_buffer [simp]: "parser_inv (p\<lparr>line_buffer := b\<rparr>) = parser_inv p"
  by (simp add: parser_inv_def)

lemma list_all_butlast_last:
  "xs \<noteq> [] \<Longrightarrow> list_all P xs \<longleftrightarrow> list_all P (butlast xs) \<and> P (last xs)"
  by (cases xs rule: rev_cases) auto

lemma hunk_complete_open: "hunk_complete h \<Longrightarrow> hunk_open h"
proof (cases h)
  case (UpdateFile path mv chunks)
  assume "hunk_complete h"
  with UpdateFile show ?thesis
    by (cases chunks rule: rev_cases) (auto simp: chunk_complete_def list_all_iff)
qed simp_all

text \<open>Before a header or the end marker is accepted the open hunk is complete.\<close>

lemma ensure_update_hunk_complete:
  assumes inv: "parser_inv p" and ok: "ensure_update_hunk_is_not_empty line p = Ok ()"
  shows "list_all hunk_complete (hunks p)"
proof (cases "hunks p" rule: rev_cases)
  case Nil
  then show ?thesis by simp
next
  case (snoc hs h)
  with inv have hs: "list_all hunk_complete hs" and h: "hunk_open h"
    by (simp_all add: parser_inv_def)
  have "hunk_complete h"
  proof (cases h)
    case (UpdateFile path mv chunks)
    with snoc inv ok have ne: "chunks \<noteq> []"
      by (cases "mode p")
        (auto simp: parser_inv_def ensure_update_hunk_is_not_empty_def last_chunk_is_def)
    with UpdateFile snoc ok have "\<not> chunk_is_empty (last chunks)"
      by (auto simp: ensure_update_hunk_is_not_empty_def last_chunk_is_def last_opt_def
          split: list.splits if_splits streaming_parser_mode.splits)
    with ne h UpdateFile show ?thesis
      by (cases chunks rule: rev_cases) (auto simp: chunk_complete_def)
  qed (use h in simp_all)
  with hs snoc show ?thesis by simp
qed

lemma parser_inv_start_hunk:
  assumes "list_all hunk_complete (hunks p)" "hunk_open h" "mode_matches m [h]" "m \<noteq> EndedPatch"
  shows "parser_inv (start_hunk h m p)"
  using assms by (cases m) (auto simp: parser_inv_def start_hunk_def)

lemma handle_headers_inv:
  assumes inv: "parser_inv p" and h: "handle_hunk_headers_and_end_patch line p = Ok (Some p')"
  shows "parser_inv p'"
proof -
  note ens = ensure_update_hunk_complete[OF inv]
  from h consider
      (env) env where "mode p = StartedPatch" "p' = p\<lparr>environment_id := env\<rparr>"
    | (endp) "ensure_update_hunk_is_not_empty line p = Ok ()" "p' = p\<lparr>mode := EndedPatch\<rparr>"
    | (start) h m where "ensure_update_hunk_is_not_empty line p = Ok ()"
        "p' = start_hunk h m p" "hunk_open h" "mode_matches m [h]" "m \<noteq> EndedPatch"
    unfolding handle_hunk_headers_and_end_patch_def
    by (auto simp: try_bind_Inr_iff split: option.splits if_splits)
  then show ?thesis
  proof cases
    case env
    with inv show ?thesis by (simp add: parser_inv_def)
  next
    case endp
    with ens have "list_all hunk_complete (hunks p)" by blast
    with endp show ?thesis
      by (cases "hunks p" rule: rev_cases) (auto simp: parser_inv_def hunk_complete_open)
  next
    case start
    with ens show ?thesis by (auto intro: parser_inv_start_hunk)
  qed
qed

lemma chunk_complete_push:
  "chunk_wf c \<Longrightarrow> chunk_complete (push_context_line l c)"
  "chunk_wf c \<Longrightarrow> chunk_complete (push_new_line l c)"
  "chunk_wf c \<Longrightarrow> chunk_complete (push_old_line l c)"
  by (simp_all add: chunk_complete_def chunk_wf_push_context_line chunk_wf_push_new_line
      chunk_wf_push_old_line)
    (simp_all add: chunk_is_empty_def push_context_line_def push_new_line_def push_old_line_def)

lemma hunk_open_with_last_chunk:
  assumes "hunk_open (UpdateFile path mv chunks)" and "\<And>c. chunk_wf c \<Longrightarrow> chunk_complete (f c)"
  shows "hunk_open (UpdateFile path mv (with_last_chunk f chunks))"
  using assms
  by (cases chunks rule: rev_cases) (auto simp: with_last_chunk_def chunk_complete_def)

lemma hunk_open_add_chunk:
  assumes "hunk_open (UpdateFile path mv chunks)" "\<not> last_chunk_is chunk_is_empty chunks" "chunk_wf c"
  shows "hunk_open (UpdateFile path mv (chunks @ [c]))"
  using assms
  by (cases chunks rule: rev_cases) (auto simp: last_chunk_is_def chunk_complete_def butlast_append)

lemma hunk_open_mark_eof:
  assumes "hunk_open (UpdateFile path mv chunks)"
  shows "hunk_open (UpdateFile path mv (update_last (\<lambda>c. c\<lparr>is_end_of_file := True\<rparr>) chunks))"
  using assms by (cases chunks rule: rev_cases) (auto simp: chunk_wf_def)

lemma chunk_wf_context [simp]: "chunk_wf (default_chunk\<lparr>change_context := ctx\<rparr>)"
  by (simp add: chunk_wf_def default_chunk_def)

lemma hunk_open_move: "hunk_open (UpdateFile path mv chunks) \<Longrightarrow> hunk_open (UpdateFile path mv' chunks)"
  by simp

lemma update_hunk_line_open:
  assumes op: "hunk_open (UpdateFile path mv chunks)"
    and ok: "update_hunk_line n line path mv chunks = Ok h"
  shows "\<exists>mv' cs. h = UpdateFile path mv' cs \<and> hunk_open h"
proof -
  from ok op show ?thesis
    unfolding update_hunk_line_def Let_def
    by (auto split: if_splits option.splits list.splits
        simp: strip_prefix_def is_context_marker_def hunk_open_move simp del: hunk_open.simps
        intro!: hunk_open_add_chunk hunk_open_mark_eof hunk_open_with_last_chunk chunk_complete_push)
qed

lemma parser_inv_set_last_hunk:
  assumes "parser_inv p" "hunks p \<noteq> []" "hunk_open h" "mode_matches m [h]" "m \<noteq> EndedPatch"
  shows "parser_inv ((set_last_hunk h p)\<lparr>mode := m\<rparr>)"
  using assms
  by (cases "hunks p" rule: rev_cases; cases m) (auto simp: parser_inv_def set_last_hunk_def)

text \<open>What an accepted line does in each mode: case rules for the proofs about runs.\<close>

lemma process_update_lineE:
  assumes "process_update_line n line p = Ok p'"
  obtains (header) "handle_hunk_headers_and_end_patch (trim_end line) p = Ok (Some p')"
    | (line) path mv cs h where "last_opt (hunks p) = Some (UpdateFile path mv cs)"
        "update_hunk_line (line_number p) line path mv cs = Ok h"
        "p' = (set_last_hunk h p)\<lparr>mode := InUpdateFile n\<rparr>"
  using assms
  by (auto simp: process_update_line_def try_bind_Inr_iff split: option.splits hunk.splits)

lemma process_add_lineE:
  assumes "process_add_line line p = Ok p'"
  obtains (header) "handle_hunk_headers_and_end_patch (trim line) p = Ok (Some p')"
    | (line) path c l where "last_opt (hunks p) = Some (AddFile path c)"
        "p' = set_last_hunk (AddFile path (c @ l @ [LF])) p"
  using assms
  by (auto simp: process_add_line_def try_bind_Inr_iff split: option.splits hunk.splits)

lemma process_header_lineE:
  assumes "process_header_line line p = Ok p'"
  obtains "handle_hunk_headers_and_end_patch (trim line) p = Ok (Some p')"
  using assms by (auto simp: process_header_line_def try_bind_Inr_iff split: option.splits)

lemma process_update_line_inv:
  assumes "parser_inv p" "process_update_line n line p = Ok p'"
  shows "parser_inv p'"
proof -
  from assms(2) show ?thesis
  proof (cases rule: process_update_lineE)
    case header
    with assms(1) show ?thesis by (rule handle_headers_inv)
  next
    case (line path mv cs h)
    with assms(1) have "hunk_open (UpdateFile path mv cs)" by (simp add: parser_inv_def)
    with line(2) obtain mv' cs' where h: "h = UpdateFile path mv' cs'" and op: "hunk_open h"
      using update_hunk_line_open by blast
    from line(1) have "hunks p \<noteq> []" by auto
    from assms(1) this op have "parser_inv ((set_last_hunk h p)\<lparr>mode := InUpdateFile n\<rparr>)"
      by (rule parser_inv_set_last_hunk) (simp_all add: h)
    with line(3) show ?thesis by simp
  qed
qed

lemma process_add_line_inv:
  assumes "parser_inv p" "mode p = InAddFile" "process_add_line line p = Ok p'"
  shows "parser_inv p'"
proof -
  from assms(3) show ?thesis
  proof (cases rule: process_add_lineE)
    case header
    with assms(1) show ?thesis by (rule handle_headers_inv)
  next
    case (line path c l)
    have "parser_inv ((set_last_hunk (AddFile path (c @ l @ [LF])) p)\<lparr>mode := InAddFile\<rparr>)"
      by (rule parser_inv_set_last_hunk[OF assms(1)]) (use line(1) in auto)
    with line(2) assms(2) show ?thesis by (simp add: set_last_hunk_def parser_inv_def)
  qed
qed

lemma process_header_line_inv:
  assumes "parser_inv p" "process_header_line line p = Ok p'"
  shows "parser_inv p'"
  using assms by (blast elim: process_header_lineE intro: handle_headers_inv)

lemma process_line_inv:
  assumes "parser_inv p" "process_line line p = Ok p'"
  shows "parser_inv p'"
proof (cases "mode p")
  case NotStarted
  with assms have "hunks p = []" "p' = p\<lparr>mode := StartedPatch\<rparr>"
    by (auto simp: process_line_def parser_inv_def split: if_splits)
  then show ?thesis by (simp add: parser_inv_def)
next
  case EndedPatch
  with assms show ?thesis by (auto simp: process_line_def split: if_splits)
qed (use assms in \<open>auto simp: process_line_def
       intro: process_header_line_inv process_add_line_inv process_update_line_inv\<close>)

lemma push_chars_inv: "parser_inv p \<Longrightarrow> parser_inv (fst (push_chars s p))"
  by (induction s arbitrary: p) (auto split: sum.splits dest: process_line_inv[rotated])

lemma push_delta_inv: "parser_inv p \<Longrightarrow> parser_inv (fst (push_delta s p))"
  using push_chars_inv[of p s] by (auto simp: push_delta_def split: prod.splits sum.splits)

lemma finish_check_complete:
  "parser_inv p \<Longrightarrow> finish_check p = (p', Ok hs) \<Longrightarrow> list_all hunk_complete hs"
  by (auto simp: finish_check_def parser_inv_def split: if_splits)

lemma finish_complete:
  assumes inv: "parser_inv p" and fin: "finish p = (p', Ok hs)"
  shows "list_all hunk_complete hs"
proof (cases "line_buffer p = []")
  case True
  with fin inv show ?thesis by (auto simp: finish_def dest: finish_check_complete)
next
  case False
  let ?q = "take_line p"
  have q: "parser_inv ?q" using inv by simp
  show ?thesis
  proof (cases "trim (line_buffer p) = END_PATCH_MARKER")
    case True
    with fin False have "ensure_update_hunk_is_not_empty (trim (line_buffer p)) ?q = Ok ()"
      and "hs = hunks ?q"
      by (auto simp: finish_def Let_def finish_check_def split: sum.splits)
    with ensure_update_hunk_complete[OF q] show ?thesis by blast
  next
    case notend: False
    with fin False obtain q' where "process_line (line_buffer p) ?q = Ok q'"
      and "finish_check q' = (p', Ok hs)"
      by (auto simp: finish_def Let_def split: sum.splits)
    with process_line_inv[OF q] show ?thesis by (blast intro: finish_check_complete)
  qed
qed

lemmas [patch_eval] =
  default_parser_def push_delta_def process_line_def process_update_line_def process_add_line_def
  process_header_line_def handle_hunk_headers_and_end_patch_def ensure_update_hunk_is_not_empty_def
  update_hunk_line_def take_line_def set_last_hunk_def start_hunk_def with_last_chunk_def
  is_context_marker_def last_chunk_is_def chunk_is_empty_def finish_def finish_check_def

end
