(* ===== verification/Patch_Parser.thy ===== *)
theory Patch_Parser
  imports Streaming_Parser
begin

text \<open>
  Parsing a whole patch (\<open>codex-rs/apply-patch/src/parser.rs\<close>): the boundary checks in strict
  and lenient mode and \<open>parse_patch\<close>, which runs the streaming parser over the text.
\<close>

section \<open>Model\<close>

datatype parse_mode = Strict | Lenient

record apply_patch_args =
  ap_patch :: rstr
  ap_hunks :: "hunk list"
  ap_workdir :: "rstr option"
  ap_environment_id :: "rstr option"

definition PARSE_IN_STRICT_MODE :: bool where
  "PARSE_IN_STRICT_MODE = False"

definition check_start_and_end_lines_strict ::
    "rstr option \<Rightarrow> rstr option \<Rightarrow> (unit, parse_error) result" where
  "check_start_and_end_lines_strict first_line last_line =
     (case (map_option trim first_line, map_option trim last_line) of
        (Some first, last') \<Rightarrow>
          if first = BEGIN_PATCH_MARKER \<and> last' = Some END_PATCH_MARKER then Ok ()
          else if first \<noteq> BEGIN_PATCH_MARKER then Err (InvalidPatchError first_line_msg)
          else Err (InvalidPatchError last_line_msg)
      | (None, _) \<Rightarrow> Err (InvalidPatchError last_line_msg))"

definition check_patch_boundaries_strict :: "rstr list \<Rightarrow> (rstr list, parse_error) result" where
  "check_patch_boundaries_strict ls =
     (let (first_line, last_line) =
        (case ls of [] \<Rightarrow> (None, None) | first # _ \<Rightarrow> (Some first, Some (last ls)))
      in try_bind (check_start_and_end_lines_strict first_line last_line) (\<lambda>_. Ok ls))"

definition heredoc_openers :: "rstr list" where
  "heredoc_openers =
     [str ''<<EOF'', str ''<<'EOF'' @ [SQ], str ''<<'' @ [34] @ str ''EOF'' @ [34]]"

definition check_patch_boundaries_lenient :: "rstr list \<Rightarrow> (rstr list, parse_error) result" where
  "check_patch_boundaries_lenient original_lines =
     (case check_patch_boundaries_strict original_lines of
        Ok ls \<Rightarrow> Ok ls
      | Err original_parse_error \<Rightarrow>
          if length original_lines \<ge> 2
          then if hd original_lines \<in> set heredoc_openers \<and>
                  suffix (str ''EOF'') (last original_lines) \<and> length original_lines \<ge> 4
               then check_patch_boundaries_strict (butlast (tl original_lines))
               else Err original_parse_error
          else Err original_parse_error)"

definition parse_patch_text :: "rstr \<Rightarrow> parse_mode \<Rightarrow> (apply_patch_args, parse_error) result" where
  "parse_patch_text patch m =
     (let ls = lines (trim patch) in
      try_bind (case m of Strict \<Rightarrow> check_patch_boundaries_strict ls
                | Lenient \<Rightarrow> check_patch_boundaries_lenient ls) (\<lambda>patch_lines.
      let patch' = join [LF] patch_lines;
          (p1, pushed) = push_delta patch' default_parser
      in try_bind pushed (\<lambda>_.
         let (p2, finished) = finish p1
         in try_bind finished (\<lambda>hs.
            Ok \<lparr>ap_patch = patch', ap_hunks = hs, ap_workdir = None,
                ap_environment_id = environment_id p2\<rparr>))))"

definition parse_patch :: "rstr \<Rightarrow> (apply_patch_args, parse_error) result" where
  "parse_patch patch = parse_patch_text patch (if PARSE_IN_STRICT_MODE then Strict else Lenient)"

lemmas [patch_eval] =
  parse_patch_def PARSE_IN_STRICT_MODE_def parse_patch_text_def check_patch_boundaries_lenient_def
  check_patch_boundaries_strict_def check_start_and_end_lines_strict_def heredoc_openers_def

section \<open>Accepted patches are complete\<close>

lemma parse_patch_text_complete:
  assumes "parse_patch_text patch m = Ok args"
  shows "list_all hunk_complete (ap_hunks args)"
proof -
  from assms obtain ls where
    fin: "snd (finish (fst (push_delta (join [LF] ls) default_parser))) = Ok (ap_hunks args)"
    by (auto simp: parse_patch_text_def Let_def case_prod_beta try_bind_Inr_iff)
  let ?p = "fst (push_delta (join [LF] ls) default_parser)"
  have "parser_inv ?p" by (rule push_delta_inv[OF parser_inv_default])
  moreover from fin have "finish ?p = (fst (finish ?p), Ok (ap_hunks args))"
    by (metis prod.collapse)
  ultimately show ?thesis by (rule finish_complete)
qed

text \<open>
  C2. Every patch that \<open>parse_patch\<close> accepts consists of complete hunks: an update hunk has at
  least one chunk, no chunk of it is without lines, and the recorded context indices are in
  range, strictly increasing and point at equal lines on both sides, so that the updater's
  slicing by them cannot go out of range.
\<close>

theorem parse_patch_hunks_complete:
  "parse_patch patch = Ok args \<Longrightarrow> list_all hunk_complete (ap_hunks args)"
  unfolding parse_patch_def by (rule parse_patch_text_complete)

theorem parse_patch_hunks_complete_witness:
  "list_all hunk_complete
     [AddFile (str ''f'') (str ''x'' @ [LF]), UpdateFile (str ''g'') None
       [\<lparr>change_context = None, old_lines = [str ''a'', str ''b''], new_lines = [str ''a'', str ''c''],
         context_line_indices = [(0, 0)], is_end_of_file = False\<rparr>]]"
proof -
  have "parse_patch (join [LF]
      [str ''*** Begin Patch'', str ''*** Add File: f'', str ''+x'', str ''*** Update File: g'',
       str ''@@'', str '' a'', str ''-b'', str ''+c'', str ''*** End Patch'']) =
    Ok \<lparr>ap_patch = join [LF]
      [str ''*** Begin Patch'', str ''*** Add File: f'', str ''+x'', str ''*** Update File: g'',
       str ''@@'', str '' a'', str ''-b'', str ''+c'', str ''*** End Patch''],
     ap_hunks = [AddFile (str ''f'') (str ''x'' @ [LF]), UpdateFile (str ''g'') None
       [\<lparr>change_context = None, old_lines = [str ''a'', str ''b''], new_lines = [str ''a'', str ''c''],
         context_line_indices = [(0, 0)], is_end_of_file = False\<rparr>]],
     ap_workdir = None, ap_environment_id = None\<rparr>"
    by (simp add: patch_eval str_eval vec_eval)
  from parse_patch_hunks_complete[OF this] show ?thesis by simp
qed

end
