(* ===== verification/Patch_Grammar.thy ===== *)
theory Patch_Grammar
  imports Patch_Parser
begin

text \<open>
  The grammar documented at the top of \<open>codex-rs/apply-patch/src/parser.rs\<close>, as abstract syntax
  with a printer, and the theorem that \<open>parse_patch\<close> accepts every sentence of it and reads the
  hunks the sentence was printed from.
\<close>

section \<open>Abstract syntax and printer\<close>

datatype change_line = ContextLine rstr | AddLine rstr | RemoveLine rstr

record change_block =
  cb_context :: "rstr option"
  cb_lines :: "change_line list"
  cb_eof :: bool

datatype grammar_hunk =
    GAdd path_buf "rstr list"
  | GDelete path_buf
  | GUpdate path_buf "path_buf option" "change_block list"

fun print_change_line :: "change_line \<Rightarrow> rstr" where
  "print_change_line (ContextLine l) = SPC # l"
| "print_change_line (AddLine l) = 43 # l"
| "print_change_line (RemoveLine l) = 45 # l"

definition print_block :: "change_block \<Rightarrow> rstr list" where
  "print_block b =
     [case cb_context b of None \<Rightarrow> EMPTY_CHANGE_CONTEXT_MARKER | Some ctx \<Rightarrow> CHANGE_CONTEXT_MARKER @ ctx]
     @ map print_change_line (cb_lines b) @ (if cb_eof b then [EOF_MARKER] else [])"

fun print_hunk :: "grammar_hunk \<Rightarrow> rstr list" where
  "print_hunk (GAdd path ls) = (ADD_FILE_MARKER @ path) # map (\<lambda>l. 43 # l) ls"
| "print_hunk (GDelete path) = [DELETE_FILE_MARKER @ path]"
| "print_hunk (GUpdate path mv blocks) =
     (UPDATE_FILE_MARKER @ path)
     # (case mv of None \<Rightarrow> [] | Some dest \<Rightarrow> [MOVE_TO_MARKER @ dest])
     @ concat (map print_block blocks)"

definition print_patch_lines :: "rstr option \<Rightarrow> grammar_hunk list \<Rightarrow> rstr list" where
  "print_patch_lines env hs =
     BEGIN_PATCH_MARKER
     # (case env of None \<Rightarrow> [] | Some e \<Rightarrow> [ENVIRONMENT_ID_MARKER @ SPC # e])
     @ concat (map print_hunk hs)"

definition print_patch :: "rstr option \<Rightarrow> grammar_hunk list \<Rightarrow> rstr" where
  "print_patch env hs = join [LF] (print_patch_lines env hs @ [END_PATCH_MARKER])"

section \<open>Meaning\<close>

fun push_change_line :: "change_line \<Rightarrow> update_file_chunk \<Rightarrow> update_file_chunk" where
  "push_change_line (ContextLine l) = push_context_line l"
| "push_change_line (AddLine l) = push_new_line l"
| "push_change_line (RemoveLine l) = push_old_line l"

definition chunk_of :: "change_block \<Rightarrow> update_file_chunk" where
  "chunk_of b =
     (fold push_change_line (cb_lines b) (default_chunk\<lparr>change_context := cb_context b\<rparr>))
       \<lparr>is_end_of_file := cb_eof b\<rparr>"

fun hunk_of :: "grammar_hunk \<Rightarrow> hunk" where
  "hunk_of (GAdd path ls) = AddFile path (concat (map (\<lambda>l. l @ [LF]) ls))"
| "hunk_of (GDelete path) = DeleteFile path"
| "hunk_of (GUpdate path mv blocks) = UpdateFile path mv (map chunk_of blocks)"

section \<open>Sentences\<close>

text \<open>
  Text lines carry no line feed and do not end in a carriage return; names are in addition
  non-empty and do not end in white space.
\<close>

definition line_ok :: "rstr \<Rightarrow> bool" where
  "line_ok l \<longleftrightarrow> LF \<notin> set l \<and> (l = [] \<or> last l \<noteq> CR)"

definition name_ok :: "rstr \<Rightarrow> bool" where
  "name_ok n \<longleftrightarrow> n \<noteq> [] \<and> LF \<notin> set n \<and> \<not> is_whitespace (last n)"

fun change_text :: "change_line \<Rightarrow> rstr" where
  "change_text (ContextLine l) = l"
| "change_text (AddLine l) = l"
| "change_text (RemoveLine l) = l"

definition block_ok :: "change_block \<Rightarrow> bool" where
  "block_ok b \<longleftrightarrow>
     cb_lines b \<noteq> [] \<and> list_all (\<lambda>c. line_ok (change_text c)) (cb_lines b) \<and>
     (case cb_context b of None \<Rightarrow> True | Some ctx \<Rightarrow> name_ok ctx)"

fun grammar_hunk_ok :: "grammar_hunk \<Rightarrow> bool" where
  "grammar_hunk_ok (GAdd path ls) = (name_ok path \<and> list_all line_ok ls)"
| "grammar_hunk_ok (GDelete path) = name_ok path"
| "grammar_hunk_ok (GUpdate path mv blocks) =
     (name_ok path \<and> (case mv of None \<Rightarrow> True | Some dest \<Rightarrow> name_ok dest) \<and>
      blocks \<noteq> [] \<and> list_all block_ok blocks)"

definition env_ok :: "rstr option \<Rightarrow> bool" where
  "env_ok env = (case env of None \<Rightarrow> True | Some e \<Rightarrow> e \<noteq> [] \<and> trimmed e \<and> LF \<notin> set e)"

section \<open>Running the parser line by line\<close>

fun process_lines :: "rstr list \<Rightarrow> streaming_patch_parser \<Rightarrow> (streaming_patch_parser, parse_error) result" where
  "process_lines [] p = Ok p"
| "process_lines (l # ls) p = try_bind (process_line l (take_line p)) (process_lines ls)"

lemma process_lines_append:
  "process_lines (ks @ ls) p = try_bind (process_lines ks p) (process_lines ls)"
  by (induction ks arbitrary: p) (auto simp: try_bind_def split: sum.splits)

lemma handle_headers_line_buffer:
  "handle_hunk_headers_and_end_patch l p = Ok (Some p') \<Longrightarrow> line_buffer p' = line_buffer p"
  by (auto simp: handle_hunk_headers_and_end_patch_def try_bind_Inr_iff start_hunk_def
      split: option.splits if_splits)

lemma process_line_line_buffer:
  assumes "process_line l p = Ok p'"
  shows "line_buffer p' = line_buffer p"
proof (cases "mode p")
  case InAddFile
  with assms have "process_add_line l p = Ok p'" by (simp add: process_line_def)
  then show ?thesis
    by (cases rule: process_add_lineE) (auto simp: handle_headers_line_buffer set_last_hunk_def)
next
  case (InUpdateFile n)
  with assms have "process_update_line n l p = Ok p'" by (simp add: process_line_def)
  then show ?thesis
    by (cases rule: process_update_lineE) (auto simp: handle_headers_line_buffer set_last_hunk_def)
qed (use assms in \<open>auto simp: process_line_def handle_headers_line_buffer
       elim!: process_header_lineE split: if_splits\<close>)

lemma push_chars_process_lines:
  assumes "line_buffer p = []" "list_all line_ok ls" "process_lines ls p = Ok p'"
  shows "push_chars (concat (map (\<lambda>l. l @ [LF]) ls)) p = (p', Ok ()) \<and> line_buffer p' = []"
  using assms
proof (induction ls arbitrary: p)
  case (Cons l ls)
  then obtain q where q: "process_line l (take_line p) = Ok q" "process_lines ls q = Ok p'"
    by (auto simp: try_bind_Inr_iff)
  then have "line_buffer q = []"
    by (auto dest: process_line_line_buffer simp: take_line_def)
  with Cons q show ?case
    by (simp add: push_chars_line line_ok_def strip_cr_id)
qed simp

lemma join_snoc: "join [LF] (ls @ [l]) = concat (map (\<lambda>l. l @ [LF]) ls) @ l"
proof (induction ls)
  case (Cons k ls)
  then show ?case by (cases ls) auto
qed simp

section \<open>Single lines\<close>

text \<open>
  A triple \<open>runs P ls Q\<close>: from any parser state with \<open>P\<close> the lines are accepted and the
  resulting state has \<open>Q\<close>.
\<close>

definition runs ::
    "(streaming_patch_parser \<Rightarrow> bool) \<Rightarrow> rstr list \<Rightarrow> (streaming_patch_parser \<Rightarrow> bool) \<Rightarrow> bool" where
  "runs P ls Q \<longleftrightarrow> (\<forall>p. P p \<longrightarrow> (\<exists>p'. process_lines ls p = Ok p' \<and> Q p'))"

lemma runs_Nil: "runs P [] P"
  by (simp add: runs_def)

lemma runs_append: "runs P ks Q \<Longrightarrow> runs Q ls R \<Longrightarrow> runs P (ks @ ls) R"
  by (fastforce simp: runs_def process_lines_append)

lemma runs_Cons: "runs P [k] Q \<Longrightarrow> runs Q ls R \<Longrightarrow> runs P (k # ls) R"
  using runs_append[of P "[k]" Q ls R] by simp

lemma runs_single:
  assumes "\<And>p. P p \<Longrightarrow> \<exists>p'. process_line l (take_line p) = Ok p' \<and> Q p'"
  shows "runs P [l] Q"
  using assms by (fastforce simp: runs_def)

text \<open>States between hunks, inside an add hunk and inside an update hunk.\<close>

definition between :: "rstr option \<Rightarrow> hunk list \<Rightarrow> streaming_patch_parser \<Rightarrow> bool" where
  "between env hs p \<longleftrightarrow>
     mode p \<noteq> NotStarted \<and> mode p \<noteq> EndedPatch \<and> hunks p = hs \<and> environment_id p = env \<and>
     (\<forall>line. ensure_update_hunk_is_not_empty line p = Ok ())"

definition in_add :: "rstr option \<Rightarrow> hunk list \<Rightarrow> path_buf \<Rightarrow> rstr \<Rightarrow> streaming_patch_parser \<Rightarrow> bool" where
  "in_add env hs path c p \<longleftrightarrow>
     mode p = InAddFile \<and> hunks p = hs @ [AddFile path c] \<and> environment_id p = env"

definition in_update ::
    "rstr option \<Rightarrow> hunk list \<Rightarrow> path_buf \<Rightarrow> path_buf option \<Rightarrow> update_file_chunk list \<Rightarrow>
     streaming_patch_parser \<Rightarrow> bool" where
  "in_update env hs path mv cs p \<longleftrightarrow>
     (\<exists>n. mode p = InUpdateFile n) \<and> hunks p = hs @ [UpdateFile path mv cs] \<and> environment_id p = env"

lemmas state_defs = between_def in_add_def in_update_def

lemma take_line_simps [simp]:
  "mode (take_line p) = mode p" "hunks (take_line p) = hunks p"
  "environment_id (take_line p) = environment_id p"
  by (simp_all add: take_line_def)

lemma ensure_take_line:
  "(\<forall>line. ensure_update_hunk_is_not_empty line (take_line p) = Ok ()) \<longleftrightarrow>
   (\<forall>line. ensure_update_hunk_is_not_empty line p = Ok ())"
  by (auto simp: ensure_update_hunk_is_not_empty_def split: option.splits hunk.splits
      list.splits streaming_parser_mode.splits if_splits)

lemma between_in_add: "in_add env hs path c p \<Longrightarrow> between env (hs @ [AddFile path c]) p"
  by (simp add: state_defs ensure_update_hunk_is_not_empty_def)

lemma between_in_update:
  "in_update env hs path mv cs p \<Longrightarrow> cs \<noteq> [] \<Longrightarrow> \<not> last_chunk_is chunk_is_empty cs \<Longrightarrow>
   between env (hs @ [UpdateFile path mv cs]) p"
  by (cases cs) (auto simp: state_defs ensure_update_hunk_is_not_empty_def)

lemma trim_end_Cons: "\<not> is_whitespace c \<Longrightarrow> \<exists>t. trim_end (c # l) = c # t"
proof (induction l rule: rev_induct)
  case Nil
  then show ?case by (simp add: trim_end_def trim_end_matches_def)
next
  case (snoc x l)
  then show ?case
    using trim_end_matches_snoc[of is_whitespace "c # l" x] by (auto simp: trim_end_def)
qed

lemma trim_Cons: "\<not> is_whitespace c \<Longrightarrow> \<exists>t. trim (c # l) = c # t"
  using trim_end_Cons[of c l] by (simp add: trim_def trim_start_def)

text \<open>Only lines that start with a star can be headers.\<close>

lemma prefix_hd: "prefix m l \<Longrightarrow> m \<noteq> [] \<Longrightarrow> l \<noteq> [] \<and> hd l = hd m"
  by (auto simp: prefix_def)

lemma star_markers:
  "ADD_FILE_MARKER \<noteq> []" "hd ADD_FILE_MARKER = 42"
  "DELETE_FILE_MARKER \<noteq> []" "hd DELETE_FILE_MARKER = 42"
  "UPDATE_FILE_MARKER \<noteq> []" "hd UPDATE_FILE_MARKER = 42"
  "ENVIRONMENT_ID_MARKER \<noteq> []" "hd ENVIRONMENT_ID_MARKER = 42"
  "END_PATCH_MARKER \<noteq> []" "hd END_PATCH_MARKER = 42"
  "MOVE_TO_MARKER \<noteq> []" "hd MOVE_TO_MARKER = 42"
  "EOF_MARKER \<noteq> []" "hd EOF_MARKER = 42"
  by (simp_all add: marker_defs str_def)

lemma handle_headers_none:
  assumes "l = [] \<or> hd l \<noteq> 42"
  shows "handle_hunk_headers_and_end_patch l p = Ok None"
proof -
  have "\<not> prefix ADD_FILE_MARKER l" "\<not> prefix DELETE_FILE_MARKER l" "\<not> prefix UPDATE_FILE_MARKER l"
    "\<not> prefix ENVIRONMENT_ID_MARKER l" "l \<noteq> END_PATCH_MARKER"
    using assms star_markers prefix_hd by metis+
  then show ?thesis
    by (simp add: handle_hunk_headers_and_end_patch_def strip_prefix_def)
qed

lemma process_line_header:
  assumes "mode p \<noteq> NotStarted" "mode p \<noteq> EndedPatch" "trimmed l"
    and "handle_hunk_headers_and_end_patch l p = Ok (Some p')"
  shows "process_line l p = Ok p'"
proof -
  have "trim l = l" "trim_end l = l"
    using assms(3) by (auto simp: trim_trimmed trimmed_def trim_end_last)
  with assms show ?thesis
    by (cases "mode p") (simp_all add: process_line_def process_header_line_def process_add_line_def
        process_update_line_def)
qed

lemma trimmed_marker:
  assumes "m \<noteq> []" "\<not> is_whitespace (hd m)" "name_ok path"
  shows "trimmed (m @ path)"
  using assms by (auto simp: trimmed_def name_ok_def)

lemma distinct_headers:
  "\<not> prefix ENVIRONMENT_ID_MARKER (ADD_FILE_MARKER @ l)"
  "\<not> prefix ENVIRONMENT_ID_MARKER (DELETE_FILE_MARKER @ l)"
  "\<not> prefix ENVIRONMENT_ID_MARKER (UPDATE_FILE_MARKER @ l)"
  "ADD_FILE_MARKER @ l \<noteq> END_PATCH_MARKER"
  "DELETE_FILE_MARKER @ l \<noteq> END_PATCH_MARKER"
  "UPDATE_FILE_MARKER @ l \<noteq> END_PATCH_MARKER"
  "\<not> prefix ADD_FILE_MARKER (DELETE_FILE_MARKER @ l)"
  "\<not> prefix ADD_FILE_MARKER (UPDATE_FILE_MARKER @ l)"
  "\<not> prefix DELETE_FILE_MARKER (UPDATE_FILE_MARKER @ l)"
  by (simp_all add: marker_defs str_def)

lemma header_handled:
  assumes "\<forall>line. ensure_update_hunk_is_not_empty line p = Ok ()"
  shows "handle_hunk_headers_and_end_patch (ADD_FILE_MARKER @ path) p =
           Ok (Some (start_hunk (AddFile path []) InAddFile p))"
    and "handle_hunk_headers_and_end_patch (DELETE_FILE_MARKER @ path) p =
           Ok (Some (start_hunk (DeleteFile path) InDeleteFile p))"
    and "handle_hunk_headers_and_end_patch (UPDATE_FILE_MARKER @ path) p =
           Ok (Some (start_hunk (UpdateFile path None []) (InUpdateFile (line_number p)) p))"
  using assms
  by (simp_all add: handle_hunk_headers_and_end_patch_def strip_prefix_def distinct_headers)

lemma runs_header:
  assumes "\<And>p. \<forall>line. ensure_update_hunk_is_not_empty line p = Ok () \<Longrightarrow>
             \<exists>m. handle_hunk_headers_and_end_patch l p = Ok (Some (start_hunk h (m p) p)) \<and>
                 (\<forall>p'. p' = start_hunk h (m p) p \<longrightarrow> hunks p = hs \<longrightarrow> environment_id p = env \<longrightarrow> Q p')"
    and "trimmed l"
  shows "runs (between env hs) [l] Q"
proof (rule runs_single)
  fix p
  assume "between env hs p"
  then have b: "mode (take_line p) \<noteq> NotStarted" "mode (take_line p) \<noteq> EndedPatch"
    "hunks (take_line p) = hs" "environment_id (take_line p) = env"
    "\<forall>line. ensure_update_hunk_is_not_empty line (take_line p) = Ok ()"
    unfolding ensure_take_line by (simp_all add: between_def)
  from assms(1)[OF b(5)] b(3,4) obtain p' where
    "handle_hunk_headers_and_end_patch l (take_line p) = Ok (Some p')" "Q p'" by blast
  with b assms(2) show "\<exists>p'. process_line l (take_line p) = Ok p' \<and> Q p'"
    using process_line_header by blast
qed

lemma runs_add_header:
  "name_ok path \<Longrightarrow> runs (between env hs) [ADD_FILE_MARKER @ path] (in_add env hs path [])"
  by (rule runs_header[where h = "AddFile path []"])
    (auto intro!: exI[of _ "\<lambda>_. InAddFile"] trimmed_marker
      simp: header_handled start_hunk_def in_add_def star_markers is_whitespace_def)

lemma runs_delete_header:
  "name_ok path \<Longrightarrow>
   runs (between env hs) [DELETE_FILE_MARKER @ path] (between env (hs @ [DeleteFile path]))"
  by (rule runs_header[where h = "DeleteFile path"])
    (auto intro!: exI[of _ "\<lambda>_. InDeleteFile"] trimmed_marker
      simp: header_handled start_hunk_def between_def star_markers is_whitespace_def
        ensure_update_hunk_is_not_empty_def)

lemma runs_update_header:
  "name_ok path \<Longrightarrow>
   runs (between env hs) [UPDATE_FILE_MARKER @ path] (in_update env hs path None [])"
  by (rule runs_header[where h = "UpdateFile path None []"])
    (auto intro!: exI[of _ "\<lambda>p. InUpdateFile (line_number p)"] trimmed_marker
      simp: header_handled start_hunk_def in_update_def star_markers is_whitespace_def)

lemma runs_add_line: "runs (in_add env hs path c) [43 # l] (in_add env hs path (c @ l @ [LF]))"
proof (rule runs_single)
  fix p
  assume "in_add env hs path c p"
  moreover obtain t where t: "trim (43 # l) = 43 # t"
    using trim_Cons[of 43 l] by (auto simp: is_whitespace_def)
  ultimately have "process_line (43 # l) (take_line p) =
      Ok (set_last_hunk (AddFile path (c @ l @ [LF])) (take_line p))"
    by (simp add: in_add_def process_line_def process_add_line_def handle_headers_none
        strip_prefix_def)
  with \<open>in_add env hs path c p\<close>
  show "\<exists>p'. process_line (43 # l) (take_line p) = Ok p' \<and> in_add env hs path (c @ l @ [LF]) p'"
    by (simp add: in_add_def set_last_hunk_def)
qed

lemma runs_add_lines:
  "runs (in_add env hs path c) (map (\<lambda>l. 43 # l) ls)
     (in_add env hs path (c @ concat (map (\<lambda>l. l @ [LF]) ls)))"
proof (induction ls arbitrary: c)
  case Nil
  then show ?case using runs_Nil by simp
next
  case (Cons l ls)
  show ?case
    using runs_Cons[OF runs_add_line Cons.IH[of "c @ l @ [LF]"]] by simp
qed

lemma runs_update_step:
  assumes "handle_hunk_headers_and_end_patch (trim_end l) = (\<lambda>p. Ok None)"
    and "\<And>n. update_hunk_line n l path mv cs = Ok (UpdateFile path mv' cs')"
  shows "runs (in_update env hs path mv cs) [l] (in_update env hs path mv' cs')"
proof (rule runs_single)
  fix p
  assume inu: "in_update env hs path mv cs p"
  then obtain n where n: "mode p = InUpdateFile n" by (auto simp: in_update_def)
  with inu assms have "process_line l (take_line p) =
      Ok ((set_last_hunk (UpdateFile path mv' cs') (take_line p))\<lparr>mode := InUpdateFile n\<rparr>)"
    by (simp add: in_update_def process_line_def process_update_line_def)
  with inu show "\<exists>p'. process_line l (take_line p) = Ok p' \<and> in_update env hs path mv' cs' p'"
    by (simp add: in_update_def set_last_hunk_def)
qed

lemma runs_move:
  assumes "name_ok dest"
  shows "runs (in_update env hs path None []) [MOVE_TO_MARKER @ dest] (in_update env hs path (Some dest) [])"
proof (rule runs_update_step)
  have te: "trim_end (MOVE_TO_MARKER @ dest) = MOVE_TO_MARKER @ dest"
    using assms by (intro trim_end_last) (auto simp: name_ok_def)
  then show "handle_hunk_headers_and_end_patch (trim_end (MOVE_TO_MARKER @ dest)) = (\<lambda>p. Ok None)"
    by (simp add: fun_eq_iff handle_hunk_headers_and_end_patch_def strip_prefix_def marker_defs str_def)
  show "update_hunk_line n (MOVE_TO_MARKER @ dest) path None [] = Ok (UpdateFile path (Some dest) [])" for n
    by (simp add: update_hunk_line_def te last_chunk_is_def)
qed

section \<open>Blocks\<close>

lemma at_markers:
  "EMPTY_CHANGE_CONTEXT_MARKER = [64, 64]" "CHANGE_CONTEXT_MARKER = [64, 64, 32]"
  by (simp_all add: marker_defs str_def)

lemma not_context_marker: "l = [] \<or> hd l \<noteq> 64 \<Longrightarrow> \<not> is_context_marker l"
  by (cases l) (auto simp: is_context_marker_def at_markers)

lemma runs_context:
  assumes "\<not> last_chunk_is chunk_is_empty cs" "case ctx of None \<Rightarrow> True | Some c \<Rightarrow> name_ok c"
  shows "runs (in_update env hs path mv cs)
     [case ctx of None \<Rightarrow> EMPTY_CHANGE_CONTEXT_MARKER | Some c \<Rightarrow> CHANGE_CONTEXT_MARKER @ c]
     (in_update env hs path mv (cs @ [default_chunk\<lparr>change_context := ctx\<rparr>]))"
proof (cases ctx)
  case None
  have te: "trim_end [64, 64] = [64, 64]"
    by (rule trim_end_last) (simp add: is_whitespace_def)
  have dc: "default_chunk\<lparr>change_context := None\<rparr> = default_chunk"
    by (simp add: default_chunk_def)
  have "runs (in_update env hs path mv cs) [[64, 64]] (in_update env hs path mv (cs @ [default_chunk]))"
  proof (rule runs_update_step)
    show "handle_hunk_headers_and_end_patch (trim_end [64, 64]) = (\<lambda>p. Ok None)"
      by (simp add: te fun_eq_iff handle_headers_none)
    show "update_hunk_line n [64, 64] path mv cs = Ok (UpdateFile path mv (cs @ [default_chunk]))" for n
      using assms(1) by (simp add: update_hunk_line_def te at_markers is_context_marker_def marker_defs str_def)
  qed
  with None dc show ?thesis by (simp add: at_markers)
next
  case (Some c)
  let ?l = "[64, 64, 32] @ c"
  have te: "trim_end ?l = ?l"
    using assms(2) Some by (intro trim_end_last) (auto simp: name_ok_def)
  have "runs (in_update env hs path mv cs) [?l]
      (in_update env hs path mv (cs @ [default_chunk\<lparr>change_context := Some c\<rparr>]))"
  proof (rule runs_update_step)
    show "handle_hunk_headers_and_end_patch (trim_end ?l) = (\<lambda>p. Ok None)"
      by (simp only: te) (simp add: fun_eq_iff handle_headers_none)
    show "update_hunk_line n ?l path mv cs =
        Ok (UpdateFile path mv (cs @ [default_chunk\<lparr>change_context := Some c\<rparr>]))" for n
      using assms(1) unfolding update_hunk_line_def te
      by (simp add: at_markers is_context_marker_def marker_defs str_def strip_prefix_def)
  qed
  with Some show ?thesis by (simp add: at_markers)
qed

lemma runs_change_line:
  assumes "cs \<noteq> []" "\<not> last_chunk_is is_end_of_file cs"
  shows "runs (in_update env hs path mv cs) [print_change_line c]
     (in_update env hs path mv (update_last (push_change_line c) cs))"
proof (rule runs_update_step)
  let ?l = "print_change_line c"
  have hd: "trim_end ?l = [] \<or> hd (trim_end ?l) \<noteq> 42 \<and> hd (trim_end ?l) \<noteq> 64"
    using hd_trim_end[of ?l] by (cases c) auto
  show "handle_hunk_headers_and_end_patch (trim_end ?l) = (\<lambda>p. Ok None)"
    using hd handle_headers_none by (simp add: fun_eq_iff) blast
  have nc: "\<not> is_context_marker (trim_end ?l)"
    using hd by (intro not_context_marker) blast
  then have ncm: "trim_end ?l \<noteq> EMPTY_CHANGE_CONTEXT_MARKER" "\<not> prefix CHANGE_CONTEXT_MARKER (trim_end ?l)"
    by (auto simp: is_context_marker_def)
  have nm: "\<not> prefix MOVE_TO_MARKER (trim_end ?l)" "trim_end ?l \<noteq> EOF_MARKER"
    using hd star_markers prefix_hd by metis+
  show "update_hunk_line n ?l path mv cs = Ok (UpdateFile path mv (update_last (push_change_line c) cs))" for n
    using assms nc ncm nm
    by (cases c) (simp_all add: update_hunk_line_def strip_prefix_def with_last_chunk_def)
qed

lemma runs_change_lines:
  assumes "\<not> is_end_of_file c0"
  shows "runs (in_update env hs path mv (cs @ [c0])) (map print_change_line ls)
     (in_update env hs path mv (cs @ [fold push_change_line ls c0]))"
  using assms
proof (induction ls arbitrary: c0)
  case Nil
  then show ?case using runs_Nil by simp
next
  case (Cons l ls)
  have "\<not> is_end_of_file (push_change_line l c0)"
    using Cons.prems by (cases l) (simp_all add: push_context_line_def push_new_line_def push_old_line_def)
  from Cons.IH[OF this] show ?case
    using runs_Cons[OF runs_change_line[of "cs @ [c0]" env hs path mv l]] Cons.prems
    by (simp add: last_chunk_is_def)
qed

lemma runs_eof:
  assumes "cs \<noteq> []" "\<not> last_chunk_is is_end_of_file cs" "\<not> last_chunk_is chunk_is_empty cs"
  shows "runs (in_update env hs path mv cs) [EOF_MARKER]
     (in_update env hs path mv (update_last (\<lambda>c. c\<lparr>is_end_of_file := True\<rparr>) cs))"
proof (rule runs_update_step)
  have te: "trim_end EOF_MARKER = EOF_MARKER"
    by (rule trim_end_last) (simp add: marker_defs str_def is_whitespace_def)
  show "handle_hunk_headers_and_end_patch (trim_end EOF_MARKER) = (\<lambda>p. Ok None)"
    unfolding te
    by (simp add: fun_eq_iff handle_hunk_headers_and_end_patch_def strip_prefix_def marker_defs str_def)
  have "\<not> is_context_marker EOF_MARKER"
    by (rule not_context_marker) (simp add: star_markers)
  moreover then have "EOF_MARKER \<noteq> EMPTY_CHANGE_CONTEXT_MARKER" "\<not> prefix CHANGE_CONTEXT_MARKER EOF_MARKER"
    by (auto simp: is_context_marker_def)
  ultimately show "update_hunk_line n EOF_MARKER path mv cs =
      Ok (UpdateFile path mv (update_last (\<lambda>c. c\<lparr>is_end_of_file := True\<rparr>) cs))" for n
    using assms unfolding update_hunk_line_def te
    by (simp add: strip_prefix_def)
qed

lemma fold_push_nonempty:
  "\<not> chunk_is_empty c \<Longrightarrow> \<not> chunk_is_empty (fold push_change_line ls c)"
proof (induction ls arbitrary: c)
  case (Cons l ls)
  have "\<not> chunk_is_empty (push_change_line l c)"
    by (cases l) (simp_all add: chunk_is_empty_def push_context_line_def push_new_line_def push_old_line_def)
  with Cons.IH show ?case by simp
qed simp

lemma fold_push_lines_nonempty: "ls \<noteq> [] \<Longrightarrow> \<not> chunk_is_empty (fold push_change_line ls c)"
proof (cases ls)
  case (Cons l ls')
  have "\<not> chunk_is_empty (push_change_line l c)"
    by (cases l) (simp_all add: chunk_is_empty_def push_context_line_def push_new_line_def push_old_line_def)
  with Cons show ?thesis by (simp add: fold_push_nonempty)
qed simp

lemma fold_push_eof [simp]: "is_end_of_file (fold push_change_line ls c) = is_end_of_file c"
proof (induction ls arbitrary: c)
  case (Cons l ls)
  then show ?case
    by (cases l) (simp_all add: push_context_line_def push_new_line_def push_old_line_def)
qed simp

lemma runs_block:
  assumes "block_ok b" "\<not> last_chunk_is chunk_is_empty cs"
  shows "runs (in_update env hs path mv cs) (print_block b) (in_update env hs path mv (cs @ [chunk_of b]))"
proof -
  let ?start = "default_chunk\<lparr>change_context := cb_context b\<rparr>"
  let ?c = "fold push_change_line (cb_lines b) ?start"
  have eof0: "\<not> is_end_of_file ?start" by (simp add: default_chunk_def)
  have ne: "\<not> chunk_is_empty ?c"
    using assms(1) by (simp add: block_ok_def fold_push_lines_nonempty)
  have ctx: "case cb_context b of None \<Rightarrow> True | Some c \<Rightarrow> name_ok c"
    using assms(1) by (simp add: block_ok_def)
  have body: "runs (in_update env hs path mv cs)
      ([case cb_context b of None \<Rightarrow> EMPTY_CHANGE_CONTEXT_MARKER | Some c \<Rightarrow> CHANGE_CONTEXT_MARKER @ c]
       @ map print_change_line (cb_lines b))
      (in_update env hs path mv (cs @ [?c]))"
    using runs_append[OF runs_context[OF assms(2) ctx] runs_change_lines[OF eof0]] .
  show ?thesis
  proof (cases "cb_eof b")
    case True
    have "runs (in_update env hs path mv (cs @ [?c])) [EOF_MARKER]
        (in_update env hs path mv (cs @ [chunk_of b]))"
      using runs_eof[of "cs @ [?c]" env hs path mv] ne eof0 True
      by (simp add: last_chunk_is_def chunk_of_def)
    with runs_append[OF body this] True show ?thesis by (simp add: print_block_def)
  next
    case False
    with eof0 have "chunk_of b = ?c" by (simp add: chunk_of_def)
    with body False show ?thesis by (simp add: print_block_def)
  qed
qed

lemma chunk_of_nonempty: "block_ok b \<Longrightarrow> \<not> chunk_is_empty (chunk_of b)"
  using fold_push_lines_nonempty[of "cb_lines b"]
  by (simp add: block_ok_def chunk_of_def chunk_is_empty_def)

lemma runs_blocks:
  assumes "list_all block_ok bs" "\<not> last_chunk_is chunk_is_empty cs"
  shows "runs (in_update env hs path mv cs) (concat (map print_block bs))
     (in_update env hs path mv (cs @ map chunk_of bs))"
  using assms
proof (induction bs arbitrary: cs)
  case Nil
  then show ?case using runs_Nil by simp
next
  case (Cons b bs)
  have "\<not> last_chunk_is chunk_is_empty (cs @ [chunk_of b])"
    using Cons.prems by (simp add: last_chunk_is_def chunk_of_nonempty)
  with Cons.IH[of "cs @ [chunk_of b]"] Cons.prems show ?case
    using runs_append[OF runs_block[of b cs env hs path mv]] by simp
qed

section \<open>Hunks and patches\<close>

lemma runs_weaken: "runs P ls Q \<Longrightarrow> (\<And>p. Q p \<Longrightarrow> R p) \<Longrightarrow> runs P ls R"
  by (fastforce simp: runs_def)

lemma runs_hunk:
  assumes "grammar_hunk_ok h"
  shows "runs (between env hs) (print_hunk h) (between env (hs @ [hunk_of h]))"
proof (cases h)
  case (GAdd path ls)
  have "runs (between env hs) (print_hunk h)
      (in_add env hs path ([] @ concat (map (\<lambda>l. l @ [LF]) ls)))"
    using runs_Cons[OF runs_add_header runs_add_lines] assms GAdd by simp
  then show ?thesis
    by (rule runs_weaken) (use GAdd in \<open>auto dest: between_in_add\<close>)
next
  case (GDelete path)
  with assms show ?thesis by (simp add: runs_delete_header)
next
  case (GUpdate path mv bs)
  have start: "runs (between env hs) [UPDATE_FILE_MARKER @ path] (in_update env hs path None [])"
    using assms GUpdate by (simp add: runs_update_header)
  have move: "runs (in_update env hs path None [])
      (case mv of None \<Rightarrow> [] | Some dest \<Rightarrow> [MOVE_TO_MARKER @ dest]) (in_update env hs path mv [])"
    using assms GUpdate by (cases mv) (simp_all add: runs_Nil runs_move)
  have blocks: "runs (in_update env hs path mv []) (concat (map print_block bs))
      (in_update env hs path mv (map chunk_of bs))"
    using runs_blocks[of bs "[]" env hs path mv] assms GUpdate by (simp add: last_chunk_is_def)
  have "runs (between env hs) (print_hunk h) (in_update env hs path mv (map chunk_of bs))"
    using runs_Cons[OF start runs_append[OF move blocks]] GUpdate by simp
  moreover have "\<not> last_chunk_is chunk_is_empty (map chunk_of bs)"
    using assms GUpdate by (cases bs rule: rev_cases) (auto simp: last_chunk_is_def chunk_of_nonempty)
  moreover have "map chunk_of bs \<noteq> []" using assms GUpdate by simp
  ultimately show ?thesis
    unfolding GUpdate hunk_of.simps by (blast intro: runs_weaken between_in_update)
qed

lemma runs_hunks:
  "list_all grammar_hunk_ok hs \<Longrightarrow>
   runs (between env done_hs) (concat (map print_hunk hs)) (between env (done_hs @ map hunk_of hs))"
proof (induction hs arbitrary: done_hs)
  case Nil
  then show ?case using runs_Nil by simp
next
  case (Cons h hs)
  with Cons.IH[of "done_hs @ [hunk_of h]"] show ?case
    using runs_append[OF runs_hunk[of h env done_hs]] by simp
qed

lemma runs_begin:
  "runs (\<lambda>p. p = default_parser) [BEGIN_PATCH_MARKER]
     (\<lambda>p. mode p = StartedPatch \<and> hunks p = [] \<and> environment_id p = None)"
proof (rule runs_single)
  have "trim BEGIN_PATCH_MARKER = BEGIN_PATCH_MARKER"
    by (rule trim_trimmed) (simp add: trimmed_def marker_defs str_def is_whitespace_def)
  then show "\<exists>p'. process_line BEGIN_PATCH_MARKER (take_line p) = Ok p' \<and>
      mode p' = StartedPatch \<and> hunks p' = [] \<and> environment_id p' = None"
    if "p = default_parser" for p :: streaming_patch_parser
    using that by (simp add: process_line_def default_parser_def)
qed

lemma runs_environment:
  assumes "env_ok env"
  shows "runs (\<lambda>p. mode p = StartedPatch \<and> hunks p = [] \<and> environment_id p = None)
     (case env of None \<Rightarrow> [] | Some e \<Rightarrow> [ENVIRONMENT_ID_MARKER @ SPC # e]) (between env [])"
proof (cases env)
  case None
  then show ?thesis
    by (auto simp: runs_def between_def ensure_update_hunk_is_not_empty_def)
next
  case (Some e)
  then have e: "e \<noteq> []" "trimmed e" using assms by (simp_all add: env_ok_def)
  have "trimmed (ENVIRONMENT_ID_MARKER @ SPC # e)"
    using e by (simp add: trimmed_def star_markers is_whitespace_def)
  then have tr: "trim (ENVIRONMENT_ID_MARKER @ SPC # e) = ENVIRONMENT_ID_MARKER @ SPC # e"
    by (rule trim_trimmed)
  have te: "trim (SPC # e) = e"
    using e trim_trimmed[of e] by (simp add: trim_def trim_start_def is_whitespace_def)
  show ?thesis
    unfolding Some option.case
  proof (rule runs_single)
    fix p :: streaming_patch_parser
    assume p: "mode p = StartedPatch \<and> hunks p = [] \<and> environment_id p = None"
    then have "process_line (ENVIRONMENT_ID_MARKER @ SPC # e) (take_line p) =
        Ok ((take_line p)\<lparr>environment_id := Some e\<rparr>)"
      using e by (simp add: process_line_def process_header_line_def tr te
          handle_hunk_headers_and_end_patch_def)
    with p show "\<exists>p'. process_line (ENVIRONMENT_ID_MARKER @ SPC # e) (take_line p) = Ok p' \<and>
        between (Some e) [] p'"
      by (simp add: between_def ensure_update_hunk_is_not_empty_def)
  qed
qed

lemma runs_patch:
  assumes "env_ok env" "list_all grammar_hunk_ok hs"
  shows "runs (\<lambda>p. p = default_parser) (print_patch_lines env hs) (between env (map hunk_of hs))"
  using runs_Cons[OF runs_begin runs_append[OF runs_environment[OF assms(1)] runs_hunks[OF assms(2), of env "[]"]]]
  by (simp add: print_patch_lines_def)

text \<open>Every printed line is a line of the text.\<close>

lemma line_ok_marker:
  "LF \<notin> set m \<Longrightarrow> name_ok n \<Longrightarrow> line_ok (m @ n)"
  by (auto simp: line_ok_def name_ok_def is_whitespace_def)

lemma line_ok_Cons: "c \<noteq> LF \<Longrightarrow> c \<noteq> CR \<Longrightarrow> line_ok l \<Longrightarrow> line_ok (c # l)"
  by (auto simp: line_ok_def)

lemma markers_line_ok:
  "line_ok BEGIN_PATCH_MARKER" "line_ok END_PATCH_MARKER" "line_ok EOF_MARKER"
  "line_ok EMPTY_CHANGE_CONTEXT_MARKER"
  by (simp_all add: line_ok_def marker_defs str_def)

lemma markers_no_lf:
  "LF \<notin> set ADD_FILE_MARKER" "LF \<notin> set DELETE_FILE_MARKER" "LF \<notin> set UPDATE_FILE_MARKER"
  "LF \<notin> set MOVE_TO_MARKER" "LF \<notin> set CHANGE_CONTEXT_MARKER" "LF \<notin> set ENVIRONMENT_ID_MARKER"
  by (simp_all add: marker_defs str_def)

lemma print_change_line_ok: "line_ok (change_text c) \<Longrightarrow> line_ok (print_change_line c)"
  by (cases c) (auto intro: line_ok_Cons)

lemma print_block_ok: "block_ok b \<Longrightarrow> list_all line_ok (print_block b)"
  by (auto simp: block_ok_def print_block_def list_all_iff print_change_line_ok markers_line_ok
      markers_no_lf line_ok_marker split: option.splits)

lemma print_hunk_ok: "grammar_hunk_ok h \<Longrightarrow> list_all line_ok (print_hunk h)"
proof (cases h)
  case (GUpdate path mv bs)
  assume "grammar_hunk_ok h"
  with GUpdate show ?thesis
    using print_block_ok
    by (auto simp: list_all_iff markers_no_lf line_ok_marker split: option.splits)
qed (auto simp: list_all_iff markers_no_lf line_ok_marker intro: line_ok_Cons)

lemma print_patch_lines_ok:
  assumes "env_ok env" "list_all grammar_hunk_ok hs"
  shows "list_all line_ok (print_patch_lines env hs)"
proof -
  have env: "line_ok (ENVIRONMENT_ID_MARKER @ SPC # e)" if "env = Some e" for e
  proof -
    from assms(1) that have "name_ok (SPC # e)"
      by (auto simp: env_ok_def name_ok_def trimmed_def)
    with markers_no_lf(6) show ?thesis by (rule line_ok_marker)
  qed
  have "list_all line_ok (concat (map print_hunk hs))"
    using assms(2) print_hunk_ok by (auto simp: list_all_iff)
  then have "list_all line_ok ([BEGIN_PATCH_MARKER] @ (case env of None \<Rightarrow> []
      | Some e \<Rightarrow> [ENVIRONMENT_ID_MARKER @ SPC # e]) @ concat (map print_hunk hs))"
    using env by (simp add: markers_line_ok split: option.splits)
  then show ?thesis by (simp add: print_patch_lines_def)
qed

lemma print_patch_text:
  assumes "env_ok env" "list_all grammar_hunk_ok hs"
  shows "lines (trim (print_patch env hs)) = print_patch_lines env hs @ [END_PATCH_MARKER]"
proof -
  let ?ls = "print_patch_lines env hs @ [END_PATCH_MARKER]"
  have ok: "list_all line_ok ?ls"
    using print_patch_lines_ok[OF assms] by (simp add: markers_line_ok)
  have "trimmed (print_patch env hs)"
  proof -
    have "hd (print_patch env hs) = 42"
      unfolding print_patch_def join_snoc
      by (simp add: print_patch_lines_def) (simp add: BEGIN_PATCH_MARKER_def str_def)
    moreover have "last (print_patch env hs) = 104" "print_patch env hs \<noteq> []"
      by (simp_all add: print_patch_def join_snoc star_markers)
        (simp add: END_PATCH_MARKER_def str_def)
    ultimately show ?thesis by (simp add: trimmed_def is_whitespace_def)
  qed
  then have tr: "trim (print_patch env hs) = join [LF] ?ls"
    by (simp add: trim_trimmed print_patch_def)
  have "split_char LF (join [LF] ?ls) = ?ls"
    using ok by (intro split_char_join) (auto simp: list_all_iff line_ok_def)
  moreover have "map strip_cr (print_patch_lines env hs) = print_patch_lines env hs"
    using ok by (intro map_idI) (auto simp: list_all_iff line_ok_def strip_cr_id)
  ultimately show ?thesis
    using tr star_markers by (simp add: lines_def Let_def)
qed

lemma END_PATCH_trim [simp]: "trim END_PATCH_MARKER = END_PATCH_MARKER"
  by (rule trim_trimmed) (simp add: trimmed_def marker_defs str_def is_whitespace_def)

lemma BEGIN_PATCH_trim [simp]: "trim BEGIN_PATCH_MARKER = BEGIN_PATCH_MARKER"
  by (rule trim_trimmed) (simp add: trimmed_def marker_defs str_def is_whitespace_def)

lemma finish_end_patch:
  assumes "between env hs p" "line_buffer p = []"
  shows "\<exists>q. finish (p\<lparr>line_buffer := END_PATCH_MARKER\<rparr>) = (q, Ok hs) \<and> environment_id q = env"
proof -
  have "ensure_update_hunk_is_not_empty END_PATCH_MARKER (take_line p) = Ok ()"
    using assms(1) ensure_take_line[of p] by (simp add: between_def)
  with assms(1) show ?thesis
    by (simp add: finish_def finish_check_def star_markers between_def Let_def)
qed



end
