(* ===== verification/Seek_Sequence.thy ===== *)
theory Seek_Sequence
  imports Patch_Types
begin

text \<open>
  Locating a block of lines (\<open>codex-rs/apply-patch/src/seek_sequence.rs\<close>): four passes of
  decreasing strictness over a range of start positions, and the exact description of what
  the search finds and when it fails.
\<close>

section \<open>Model\<close>

text \<open>\<open>normalise\<close>: typographic punctuation and spaces become their ASCII equivalents.\<close>

definition norm_char :: "rchar \<Rightarrow> rchar" where
  "norm_char c =
     (if c \<in> {0x2010, 0x2011, 0x2012, 0x2013, 0x2014, 0x2015, 0x2212} then 45
      else if c \<in> {0x2018, 0x2019, 0x201A, 0x201B} then 39
      else if c \<in> {0x201C, 0x201D, 0x201E, 0x201F} then 34
      else if c \<in> {0x00A0, 0x2002, 0x2003, 0x2004, 0x2005, 0x2006, 0x2007, 0x2008, 0x2009, 0x200A,
                    0x202F, 0x205F, 0x3000} then 32
      else c)"

definition normalise :: "rstr \<Rightarrow> rstr" where
  "normalise s = map norm_char (trim s)"

text \<open>
  One position of one pass: \<open>for (p_idx, pat) in pattern.iter().enumerate()\<close> compares
  \<open>view(lines[i + p_idx])\<close> with \<open>view(pat)\<close>. The exact pass compares slices, which is the view \<open>id\<close>.
\<close>

definition matches_at :: "(rstr \<Rightarrow> rstr) \<Rightarrow> rstr list \<Rightarrow> rstr list \<Rightarrow> nat \<Rightarrow> bool" where
  "matches_at view ls pattern i =
     list_all (\<lambda>(p_idx, pat). view (ls ! (i + p_idx)) = view pat) (List.enumerate 0 pattern)"

text \<open>One pass: \<open>for i in search_start..=lines.len().saturating_sub(pattern.len())\<close>.\<close>

definition seek_pass :: "(rstr \<Rightarrow> rstr) \<Rightarrow> rstr list \<Rightarrow> rstr list \<Rightarrow> nat \<Rightarrow> nat option" where
  "seek_pass view ls pattern search_start =
     find (matches_at view ls pattern) [search_start ..< Suc (length ls - length pattern)]"

definition seek_start ::
    "rstr list \<Rightarrow> rstr list \<Rightarrow> nat \<Rightarrow> bool \<Rightarrow> apply_patch_file_update_mode \<Rightarrow> nat" where
  "seek_start ls pattern start eof update_file_mode =
     (if eof \<and> length ls \<ge> length pattern
      then let eof_start = length ls - length pattern
           in case update_file_mode of NormalizeToLf \<Rightarrow> eof_start
              | PreserveLineEndings \<Rightarrow> max eof_start start
      else start)"

definition seek_sequence ::
    "rstr list \<Rightarrow> rstr list \<Rightarrow> nat \<Rightarrow> bool \<Rightarrow> apply_patch_file_update_mode \<Rightarrow> nat option" where
  "seek_sequence ls pattern start eof update_file_mode =
     (if pattern = [] then Some start
      else if length pattern > length ls then None
      else let search_start = seek_start ls pattern start eof update_file_mode in
        case seek_pass id ls pattern search_start of Some i \<Rightarrow> Some i | None \<Rightarrow>
        case seek_pass trim_end ls pattern search_start of Some i \<Rightarrow> Some i | None \<Rightarrow>
        case seek_pass trim ls pattern search_start of Some i \<Rightarrow> Some i | None \<Rightarrow>
        seek_pass normalise ls pattern search_start)"

lemmas [patch_eval] =
  norm_char_def normalise_def matches_at_def seek_pass_def seek_start_def seek_sequence_def

section \<open>The passes are ordered by strictness\<close>

lemma matches_at_iff:
  "matches_at view ls pattern i \<longleftrightarrow> (\<forall>k < length pattern. view (ls ! (i + k)) = view (pattern ! k))"
  by (auto simp: matches_at_def list_all_length nth_enumerate_eq)

lemma matches_at_slice:
  assumes "i + length pattern \<le> length ls"
  shows "matches_at view ls pattern i \<longleftrightarrow>
     map view (take (length pattern) (drop i ls)) = map view pattern"
proof -
  have "map view (take (length pattern) (drop i ls)) = map view pattern \<longleftrightarrow>
      (\<forall>k < length pattern. map view (take (length pattern) (drop i ls)) ! k = map view pattern ! k)"
    using assms by (subst list_eq_iff_nth_eq) auto
  also have "\<dots> \<longleftrightarrow> matches_at view ls pattern i"
    using assms by (auto simp: matches_at_iff)
  finally show ?thesis by simp
qed

lemma matches_at_coarser:
  assumes "\<And>s t. view s = view t \<Longrightarrow> view' s = view' t" "matches_at view ls pattern i"
  shows "matches_at view' ls pattern i"
  using assms unfolding matches_at_iff by blast

text \<open>Trimming both ends only depends on the end-trimmed string.\<close>

lemma trim_trim_end: "trim (trim_end s) = trim s"
proof -
  obtain w where w: "s = trim_end s @ w" "\<forall>c \<in> set w. is_whitespace c"
    using trim_end_eq_append[of s] by blast
  have "trim (trim_end s @ w) = trim (trim_end s)"
  proof (cases "\<forall>c \<in> set (trim_end s). is_whitespace c")
    case True
    with w(2) show ?thesis by (simp add: trim_def trim_start_append trim_start_all_ws)
  next
    case False
    with w(2) show ?thesis by (auto simp: trim_def trim_start_append trim_end_all_ws)
  qed
  with w(1) show ?thesis by simp
qed

lemma view_order:
  "trim_end s = trim_end t \<Longrightarrow> normalise s = normalise t"
  "trim s = trim t \<Longrightarrow> normalise s = normalise t"
  unfolding normalise_def by (metis trim_trim_end) simp

lemma matches_at_normalise:
  assumes "view = id \<or> view = trim_end \<or> view = trim \<or> view = normalise"
    and "matches_at view ls pattern i"
  shows "matches_at normalise ls pattern i"
proof -
  have "normalise s = normalise t" if "view s = view t" for s t
    using assms(1) that view_order[of s t] by (elim disjE) simp_all
  then show ?thesis using assms(2) by (rule matches_at_coarser)
qed

section \<open>What one pass finds\<close>

lemma seek_pass_Some_iff:
  "seek_pass view ls pattern s = Some i \<longleftrightarrow>
     s \<le> i \<and> i \<le> length ls - length pattern \<and> matches_at view ls pattern i \<and>
     (\<forall>j. s \<le> j \<and> j < i \<longrightarrow> \<not> matches_at view ls pattern j)"
  (is "_ \<longleftrightarrow> ?R")
proof
  assume "seek_pass view ls pattern s = Some i"
  then obtain k where k: "k < length [s ..< Suc (length ls - length pattern)]"
    "matches_at view ls pattern ([s ..< Suc (length ls - length pattern)] ! k)"
    "i = [s ..< Suc (length ls - length pattern)] ! k"
    "\<forall>j < k. \<not> matches_at view ls pattern ([s ..< Suc (length ls - length pattern)] ! j)"
    unfolding seek_pass_def find_Some_iff by blast
  then have i: "i = s + k" "s + k < Suc (length ls - length pattern)"
    by (auto simp del: upt_Suc)
  have "\<not> matches_at view ls pattern j" if "s \<le> j" "j < i" for j
    using k(4)[rule_format, of "j - s"] that i by (auto simp del: upt_Suc)
  with k(2,3) i show ?R by auto
next
  assume R: ?R
  then have "(i - s) < length [s ..< Suc (length ls - length pattern)] \<and>
      matches_at view ls pattern ([s ..< Suc (length ls - length pattern)] ! (i - s)) \<and>
      i = [s ..< Suc (length ls - length pattern)] ! (i - s) \<and>
      (\<forall>j < i - s. \<not> matches_at view ls pattern ([s ..< Suc (length ls - length pattern)] ! j))"
    by (auto simp del: upt_Suc)
  then show "seek_pass view ls pattern s = Some i"
    unfolding seek_pass_def find_Some_iff by blast
qed

lemma seek_pass_None_iff:
  "seek_pass view ls pattern s = None \<longleftrightarrow>
     (\<forall>i. s \<le> i \<and> i \<le> length ls - length pattern \<longrightarrow> \<not> matches_at view ls pattern i)"
  by (auto simp: seek_pass_def find_None_iff simp del: upt_Suc)

lemma seek_sequence_SomeE:
  assumes "seek_sequence ls pattern start eof m = Some i" "pattern \<noteq> []"
  obtains view where "view = id \<or> view = trim_end \<or> view = trim \<or> view = normalise"
    "seek_pass view ls pattern (seek_start ls pattern start eof m) = Some i"
    "length pattern \<le> length ls"
  using assms by (auto simp: seek_sequence_def Let_def split: if_splits option.splits)

lemma seek_sequence_bounds:
  assumes "seek_sequence ls pattern start eof m = Some i" "pattern \<noteq> []"
  shows "i + length pattern \<le> length ls" "seek_start ls pattern start eof m \<le> i"
  using assms by (auto elim!: seek_sequence_SomeE simp: seek_pass_Some_iff)

lemma seek_start_preserve: "start \<le> seek_start ls pattern start eof PreserveLineEndings"
  by (simp add: seek_start_def Let_def)

lemma seek_start_no_eof [simp]: "seek_start ls pattern start False m = start"
  by (simp add: seek_start_def)

section \<open>What the search finds\<close>

lemma seek_sequence_None:
  assumes "pattern \<noteq> []" "seek_sequence ls pattern start eof m = None"
    "seek_start ls pattern start eof m \<le> i" "i + length pattern \<le> length ls"
  shows "\<not> matches_at normalise ls pattern i"
proof -
  have "seek_pass normalise ls pattern (seek_start ls pattern start eof m) = None"
    using assms by (auto simp: seek_sequence_def Let_def split: if_splits option.splits)
  with assms(3,4) show ?thesis by (simp add: seek_pass_None_iff)
qed



lemma seek_exact:
  assumes "take (length pattern) (drop i ls) = pattern" "start \<le> i" "pattern \<noteq> []"
    and "\<And>j. start \<le> j \<Longrightarrow> j < i \<Longrightarrow> take (length pattern) (drop j ls) \<noteq> pattern"
  shows "seek_sequence ls pattern start False m = Some i"
proof -
  have len: "i + length pattern \<le> length ls"
  proof -
    have "length pattern = min (length pattern) (length ls - i)"
      using assms(1) by (metis length_drop length_take min.commute)
    with assms(3) show ?thesis by (cases "i \<le> length ls") auto
  qed
  have "seek_pass id ls pattern start = Some i"
    using assms len by (auto simp: seek_pass_Some_iff matches_at_slice)
  with len assms(3) show ?thesis by (auto simp: seek_sequence_def Let_def)
qed

text \<open>
  With the end-of-file flag a non-empty pattern is only ever matched against the last lines
  of the file: there is no second search from \<open>start\<close>, so a block that occurs elsewhere but not
  at the end is reported as missing.
\<close>

lemma seek_sequence_eof_only_at_end:
  "pattern \<noteq> [] \<Longrightarrow> seek_sequence ls pattern start True m = Some i \<Longrightarrow> i = length ls - length pattern"
  by (auto elim!: seek_sequence_SomeE simp: seek_pass_Some_iff seek_start_def Let_def
      split: apply_patch_file_update_mode.splits)

end
