(* ===== verification/Text_File.thy ===== *)
theory Text_File
  imports Patch_Types
begin

text \<open>
  Text files with their line endings (\<open>codex-rs/apply-patch/src/text_file.rs\<close>): parsing into
  lines that keep their terminator, rebuilding from replacements, and rendering.
\<close>

section \<open>Model\<close>

text \<open>\<open>(start index, old length, new lines)\<close>.\<close>

type_synonym replacement = "nat \<times> nat \<times> rstr list"

datatype line_ending = Lf | CrLf | Cr

fun ending_str :: "line_ending \<Rightarrow> rstr" where
  "ending_str Lf = [LF]"
| "ending_str CrLf = [CR, LF]"
| "ending_str Cr = [CR]"

record source_line =
  sl_text :: rstr
  sl_ending :: "line_ending option"

record source_file =
  sf_lines :: "source_line list"
  sf_preferred :: line_ending

text \<open>\<open>Option::get_or_insert\<close>.\<close>

definition or_insert :: "'a option \<Rightarrow> 'a \<Rightarrow> 'a option" where
  "or_insert x d = (case x of None \<Rightarrow> Some d | Some y \<Rightarrow> Some y)"

text \<open>
  The scanning loop of \<open>SourceFile::parse\<close>: \<open>acc\<close> is \<open>contents[line_start..cursor]\<close> and the last
  argument \<open>contents[cursor..]\<close>. Line terminators are ASCII, so stepping by characters visits the
  same terminators as stepping by bytes.
\<close>

fun scan_lines :: "line_ending option \<Rightarrow> rstr \<Rightarrow> rstr \<Rightarrow> source_line list \<times> line_ending option" where
  "scan_lines pref acc [] =
     (if acc = [] then [] else [\<lparr>sl_text = acc, sl_ending = None\<rparr>], pref)"
| "scan_lines pref acc (c # s) =
     (if c = CR \<and> s \<noteq> [] \<and> hd s = LF
      then let (ls, pref') = scan_lines (or_insert pref CrLf) [] (tl s)
           in (\<lparr>sl_text = acc, sl_ending = Some CrLf\<rparr> # ls, pref')
      else if c = CR
      then let (ls, pref') = scan_lines (or_insert pref Cr) [] s
           in (\<lparr>sl_text = acc, sl_ending = Some Cr\<rparr> # ls, pref')
      else if c = LF
      then let (ls, pref') = scan_lines (or_insert pref Lf) [] s
           in (\<lparr>sl_text = acc, sl_ending = Some Lf\<rparr> # ls, pref')
      else scan_lines pref (acc @ [c]) s)"

definition source_file_parse :: "rstr \<Rightarrow> source_file" where
  "source_file_parse contents =
     (let (ls, pref) = scan_lines None [] contents
      in \<lparr>sf_lines = ls, sf_preferred = (case pref of None \<Rightarrow> Lf | Some e \<Rightarrow> e)\<rparr>)"

definition line_texts :: "source_file \<Rightarrow> rstr list" where
  "line_texts f = map sl_text (sf_lines f)"

text \<open>
  The rebuilding loop of \<open>SourceFile::apply_replacements\<close>: \<open>source_index\<close> and the remaining source
  lines, \<open>None\<close> is the failed \<open>debug_assert!\<close> (equally the underflow of \<open>start_idx - source_index\<close>).
\<close>

fun rebuild :: "(rstr \<Rightarrow> 'l) \<Rightarrow> nat \<Rightarrow> 'l list \<Rightarrow> replacement list \<Rightarrow> 'l list option" where
  "rebuild mk source_index source [] = Some source"
| "rebuild mk source_index source ((start_idx, old_len, new_segment) # rs) =
     (if start_idx < source_index then None
      else map_option
        (\<lambda>rest. take (start_idx - source_index) source @ map mk new_segment @ rest)
        (rebuild mk (start_idx + old_len)
          (drop old_len (drop (start_idx - source_index) source)) rs))"

definition set_ending :: "line_ending \<Rightarrow> source_line \<Rightarrow> source_line" where
  "set_ending e l = l\<lparr>sl_ending := or_insert (sl_ending l) e\<rparr>"

definition source_file_apply_replacements :: "replacement list \<Rightarrow> source_file \<Rightarrow> source_file option" where
  "source_file_apply_replacements rs f =
     map_option
       (\<lambda>new_lines. f\<lparr>sf_lines := map (set_ending (sf_preferred f)) new_lines\<rparr>)
       (rebuild (\<lambda>text. \<lparr>sl_text = text, sl_ending = Some (sf_preferred f)\<rparr>) 0 (sf_lines f) rs)"

definition render_line :: "source_line \<Rightarrow> rstr" where
  "render_line l = sl_text l @ (case sl_ending l of None \<Rightarrow> [] | Some e \<Rightarrow> ending_str e)"

definition into_contents :: "source_file \<Rightarrow> rstr" where
  "into_contents f = concat (map render_line (sf_lines f))"

lemmas [patch_eval] =
  source_file_parse_def line_texts_def source_file_apply_replacements_def render_line_def
  into_contents_def set_ending_def or_insert_def

section \<open>Round trip\<close>

lemma scan_lines_render:
  "concat (map render_line (fst (scan_lines pref acc s))) = acc @ s"
proof (induction pref acc s rule: scan_lines.induct)
  case (2 pref acc c s)
  show ?case
  proof (cases "c = CR \<and> s \<noteq> [] \<and> hd s = LF")
    case True
    then obtain s' where "s = LF # s'" by (cases s) auto
    with True 2(1)[OF True] show ?thesis
      by (simp add: case_prod_beta render_line_def)
  next
    case False
    with 2 show ?thesis by (auto simp: case_prod_beta render_line_def)
  qed
qed (simp add: render_line_def)

text \<open>
  C5. Reading a file into lines with their terminators and rendering it again gives back the
  same text, for any mixture of LF, CRLF and CR and with or without a final terminator.
\<close>

theorem into_contents_parse: "into_contents (source_file_parse s) = s"
  using scan_lines_render[of None "[]" s]
  by (simp add: into_contents_def source_file_parse_def case_prod_beta)

lemma scan_lines_no_terminator:
  "l \<in> set (fst (scan_lines pref acc s)) \<Longrightarrow> CR \<notin> set acc \<Longrightarrow> LF \<notin> set acc \<Longrightarrow>
   CR \<notin> set (sl_text l) \<and> LF \<notin> set (sl_text l)"
proof (induction pref acc s rule: scan_lines.induct)
  case (2 pref acc c s)
  then show ?case by (auto simp: case_prod_beta Let_def split: if_splits)
qed (auto split: if_splits)

lemma line_texts_no_terminator:
  "t \<in> set (line_texts (source_file_parse s)) \<Longrightarrow> CR \<notin> set t \<and> LF \<notin> set t"
  using scan_lines_no_terminator[of _ None "[]" s]
  by (auto simp: line_texts_def source_file_parse_def case_prod_beta)

text \<open>Only the last line can be without a terminator.\<close>

lemma scan_lines_endings:
  "\<forall>l \<in> set (butlast (fst (scan_lines pref acc s))). sl_ending l \<noteq> None"
proof (induction pref acc s rule: scan_lines.induct)
  case (2 pref acc c s)
  then show ?case by (auto simp: case_prod_beta Let_def split: if_splits)
qed auto

section \<open>Replacements\<close>

text \<open>Source-ordered, non-overlapping and inside a file of \<open>n\<close> lines.\<close>

fun ordered_from :: "nat \<Rightarrow> nat \<Rightarrow> replacement list \<Rightarrow> bool" where
  "ordered_from n k [] = True"
| "ordered_from n k ((s, l, _) # rs) = (k \<le> s \<and> s + l \<le> n \<and> ordered_from n (s + l) rs)"

lemma rebuild_total: "ordered_from n k rs \<Longrightarrow> \<exists>ls. rebuild mk k src rs = Some ls"
proof (induction rs arbitrary: k src)
  case (Cons r rs)
  obtain s l new where r: "r = (s, l, new)" by (cases r)
  with Cons obtain rest where "rebuild mk (s + l) (drop l (drop (s - k) src)) rs = Some rest"
    by auto
  with r Cons.prems show ?case by auto
qed simp

lemma rebuild_map:
  "map_option (map g) (rebuild mk k src rs) = rebuild (g \<circ> mk) k (map g src) rs"
proof (induction rs arbitrary: k src)
  case (Cons r rs)
  obtain s l new where r: "r = (s, l, new)" by (cases r)
  show ?case
  proof (cases "rebuild mk (s + l) (drop l (drop (s - k) src)) rs")
    case None
    with Cons.IH[of "s + l" "drop l (drop (s - k) src)"] r show ?thesis
      by (simp add: drop_map del: drop_drop)
  next
    case (Some rest)
    with Cons.IH[of "s + l" "drop l (drop (s - k) src)", symmetric] r show ?thesis
      by (simp add: drop_map take_map del: drop_drop)
  qed
qed simp

end
