(* ===== verification/File_Update.thy ===== *)
theory File_Update
  imports Seek_Sequence Text_File
begin

text \<open>
  Applying the chunks of an update hunk to the text of a file
  (\<open>codex-rs/apply-patch/src/file_update.rs\<close>): computing the replacements, splicing them, and the
  two update modes. The file itself is read by the caller's file system, see \<open>Apply_Patch\<close>.
\<close>

section \<open>Model\<close>

datatype io_error_kind = NotFound | AlreadyExists | InvalidInput | OtherKind

record io_error =
  io_kind :: io_error_kind
  io_message :: rstr

text \<open>
  \<open>ApplyPatchError\<close>. \<open>Panicked\<close> is no value of the source: it marks the slice, subtraction and
  insertion panics of the code below and its debug assertion.
\<close>

datatype apply_patch_error =
    ParseError parse_error
  | IoError rstr io_error  \<comment> \<open>context, source\<close>
  | ComputeReplacements rstr
  | PathUriError rstr
  | ImplicitInvocation
  | Panicked

subsection \<open>Computing replacements\<close>

text \<open>
  The loop over \<open>context_line_indices\<close> in the line-ending preserving mode; \<open>old_start\<close> and
  \<open>new_start\<close> are its state, the empty list is also reached by its \<open>break\<close>.
\<close>

fun context_replacements ::
    "nat \<Rightarrow> rstr list \<Rightarrow> rstr list \<Rightarrow> nat \<Rightarrow> nat \<Rightarrow> (nat \<times> nat) list \<Rightarrow> replacement list option" where
  "context_replacements start_idx pattern new_slice old_start new_start [] =
     (if old_start \<noteq> length pattern \<or> new_start \<noteq> length new_slice
      then if length pattern < old_start \<or> length new_slice < new_start then None
           else Some [(start_idx + old_start, length pattern - old_start, drop new_start new_slice)]
      else Some [])"
| "context_replacements start_idx pattern new_slice old_start new_start ((old_context, new_context) # r) =
     (if old_context \<ge> length pattern \<or> new_context \<ge> length new_slice
      then context_replacements start_idx pattern new_slice old_start new_start []
      else if old_start \<noteq> old_context \<or> new_start \<noteq> new_context
      then if old_context < old_start \<or> new_context < new_start then None
           else map_option
             (\<lambda>rs. (start_idx + old_start, old_context - old_start,
                    drop new_start (take new_context new_slice)) # rs)
             (context_replacements start_idx pattern new_slice (Suc old_context) (Suc new_context) r)
      else context_replacements start_idx pattern new_slice (Suc old_context) (Suc new_context) r)"

definition ends_with_empty :: "rstr list \<Rightarrow> bool" where
  "ends_with_empty ls = (last_opt ls = Some [])"

text \<open>Searching for \<open>old_lines\<close>, with the retry without the trailing empty line.\<close>

definition locate_chunk ::
    "rstr list \<Rightarrow> update_file_chunk \<Rightarrow> nat \<Rightarrow> apply_patch_file_update_mode \<Rightarrow>
     (nat \<times> rstr list \<times> rstr list) option" where
  "locate_chunk original_lines chunk line_index update_file_mode =
     (let pattern = old_lines chunk; new_slice = new_lines chunk in
      case seek_sequence original_lines pattern line_index (is_end_of_file chunk) update_file_mode of
        Some start_idx \<Rightarrow> Some (start_idx, pattern, new_slice)
      | None \<Rightarrow>
          if ends_with_empty pattern
          then let pattern = butlast pattern;
                   new_slice = (if ends_with_empty new_slice then butlast new_slice else new_slice)
               in map_option (\<lambda>start_idx. (start_idx, pattern, new_slice))
                    (seek_sequence original_lines pattern line_index (is_end_of_file chunk)
                       update_file_mode)
          else None)"

definition insertion_idx :: "rstr list \<Rightarrow> apply_patch_file_update_mode \<Rightarrow> nat" where
  "insertion_idx original_lines update_file_mode =
     (case update_file_mode of
        NormalizeToLf \<Rightarrow>
          if ends_with_empty original_lines then length original_lines - 1 else length original_lines
      | PreserveLineEndings \<Rightarrow> length original_lines)"

definition missing_context_msg :: "rstr \<Rightarrow> rstr \<Rightarrow> rstr" where
  "missing_context_msg ctx_line path =
     str ''Failed to find context '' @ [SQ] @ ctx_line @ [SQ] @ str '' in '' @ path"

definition missing_lines_msg :: "rstr list \<Rightarrow> rstr \<Rightarrow> rstr" where
  "missing_lines_msg old path =
     str ''Failed to find expected lines in '' @ path @ str '':'' @ [LF] @ join [LF] old"

definition seek_context ::
    "rstr list \<Rightarrow> rstr \<Rightarrow> apply_patch_file_update_mode \<Rightarrow> rstr option \<Rightarrow> nat \<Rightarrow>
     (nat, apply_patch_error) result" where
  "seek_context original_lines path update_file_mode context line_index =
     (case context of
        None \<Rightarrow> Ok line_index
      | Some ctx_line \<Rightarrow>
          (case seek_sequence original_lines [ctx_line] line_index False update_file_mode of
             Some idx \<Rightarrow> Ok (Suc idx)
           | None \<Rightarrow> Err (ComputeReplacements (missing_context_msg ctx_line path))))"

text \<open>One iteration of \<open>for chunk in chunks\<close>: the new \<open>line_index\<close> and the pushed replacements.\<close>

definition chunk_step ::
    "rstr list \<Rightarrow> rstr \<Rightarrow> apply_patch_file_update_mode \<Rightarrow> update_file_chunk \<Rightarrow> nat \<Rightarrow>
     (nat \<times> replacement list, apply_patch_error) result" where
  "chunk_step original_lines path update_file_mode chunk line_index =
     try_bind (seek_context original_lines path update_file_mode (change_context chunk) line_index)
       (\<lambda>line_index.
         if old_lines chunk = []
         then Ok (line_index,
                  [(insertion_idx original_lines update_file_mode, 0, new_lines chunk)])
         else case locate_chunk original_lines chunk line_index update_file_mode of
           None \<Rightarrow> Err (ComputeReplacements (missing_lines_msg (old_lines chunk) path))
         | Some (start_idx, pattern, new_slice) \<Rightarrow>
             (case (case update_file_mode of
                      NormalizeToLf \<Rightarrow> Some [(start_idx, length pattern, new_slice)]
                    | PreserveLineEndings \<Rightarrow>
                        context_replacements start_idx pattern new_slice 0 0
                          (context_line_indices chunk)) of
                None \<Rightarrow> Err Panicked
              | Some rs \<Rightarrow> Ok (start_idx + length pattern, rs)))"

fun chunks_loop ::
    "rstr list \<Rightarrow> rstr \<Rightarrow> apply_patch_file_update_mode \<Rightarrow> nat \<Rightarrow> update_file_chunk list \<Rightarrow>
     (replacement list, apply_patch_error) result" where
  "chunks_loop original_lines path update_file_mode line_index [] = Ok []"
| "chunks_loop original_lines path update_file_mode line_index (chunk # chunks) =
     try_bind (chunk_step original_lines path update_file_mode chunk line_index)
       (\<lambda>(line_index, rs).
         try_bind (chunks_loop original_lines path update_file_mode line_index chunks)
           (\<lambda>rest. Ok (rs @ rest)))"

text \<open>\<open>sort_by_key\<close> is stable, as is \<^const>\<open>sort_key\<close>.\<close>

definition compute_replacements ::
    "rstr list \<Rightarrow> rstr \<Rightarrow> update_file_chunk list \<Rightarrow> apply_patch_file_update_mode \<Rightarrow>
     (replacement list, apply_patch_error) result" where
  "compute_replacements original_lines path chunks update_file_mode =
     try_bind (chunks_loop original_lines path update_file_mode 0 chunks)
       (\<lambda>replacements. Ok (sort_key fst replacements))"

subsection \<open>Splicing\<close>

text \<open>\<open>for _ in 0..old_len { if start_idx < lines.len() { lines.remove(start_idx); } }\<close>.\<close>

fun remove_n :: "nat \<Rightarrow> nat \<Rightarrow> 'a list \<Rightarrow> 'a list" where
  "remove_n 0 i ls = ls"
| "remove_n (Suc n) i ls =
     remove_n n i (if i < length ls then take i ls @ drop (Suc i) ls else ls)"

text \<open>\<open>lines.insert(start_idx + offset, ..)\<close> for each new line.\<close>

fun insert_all :: "nat \<Rightarrow> 'a list \<Rightarrow> 'a list \<Rightarrow> 'a list option" where
  "insert_all i [] ls = Some ls"
| "insert_all i (x # xs) ls =
     (case vec_insert i x ls of None \<Rightarrow> None | Some ls \<Rightarrow> insert_all (Suc i) xs ls)"

fun splice_loop :: "replacement list \<Rightarrow> rstr list \<Rightarrow> rstr list option" where
  "splice_loop [] ls = Some ls"
| "splice_loop ((start_idx, old_len, new_segment) # rs) ls =
     (case insert_all start_idx new_segment (remove_n old_len start_idx ls) of
        None \<Rightarrow> None
      | Some ls \<Rightarrow> splice_loop rs ls)"

definition apply_replacements :: "rstr list \<Rightarrow> replacement list \<Rightarrow> rstr list option" where
  "apply_replacements ls replacements = splice_loop (rev replacements) ls"

subsection \<open>New contents\<close>

definition or_panic :: "'a option \<Rightarrow> ('a, apply_patch_error) result" where
  "or_panic x = (case x of None \<Rightarrow> Err Panicked | Some y \<Rightarrow> Ok y)"

definition split_lines :: "rstr \<Rightarrow> rstr list" where
  "split_lines contents =
     (let original_lines = split_char LF contents
      in if ends_with_empty original_lines then butlast original_lines else original_lines)"

definition join_lines :: "rstr list \<Rightarrow> rstr" where
  "join_lines ls = join [LF] (if ends_with_empty ls then ls else ls @ [[]])"

text \<open>The pure part of \<open>derive_new_contents_from_chunks\<close>.\<close>

definition new_contents_from_chunks ::
    "rstr \<Rightarrow> update_file_chunk list \<Rightarrow> apply_patch_file_update_mode \<Rightarrow> rstr \<Rightarrow>
     (rstr, apply_patch_error) result" where
  "new_contents_from_chunks path_text chunks update_file_mode original_contents =
     (case update_file_mode of
        NormalizeToLf \<Rightarrow>
          (let original_lines = split_lines original_contents in
           try_bind (compute_replacements original_lines path_text chunks update_file_mode)
             (\<lambda>replacements.
               try_bind (or_panic (apply_replacements original_lines replacements))
                 (\<lambda>ls. Ok (join_lines ls))))
      | PreserveLineEndings \<Rightarrow>
          (let source_file = source_file_parse original_contents in
           try_bind
             (compute_replacements (line_texts source_file) path_text chunks update_file_mode)
             (\<lambda>replacements.
               try_bind (or_panic (source_file_apply_replacements replacements source_file))
                 (\<lambda>source_file. Ok (into_contents source_file)))))"

lemmas [patch_eval] =
  ends_with_empty_def locate_chunk_def insertion_idx_def missing_context_msg_def
  missing_lines_msg_def seek_context_def chunk_step_def compute_replacements_def
  apply_replacements_def or_panic_def split_lines_def join_lines_def new_contents_from_chunks_def

section \<open>Replacements stay in range\<close>

abbreviation rep_end :: "replacement \<Rightarrow> nat" where
  "rep_end r \<equiv> fst r + fst (snd r)"

lemma seek_sequence_in_range:
  assumes "seek_sequence ls pattern start eof m = Some i" "start \<le> length ls"
  shows "i + length pattern \<le> length ls"
  using assms seek_sequence_bounds(1)[OF assms(1)] by (cases "pattern = []") (auto simp: seek_sequence_def)

lemma seek_sequence_from_start:
  assumes "seek_sequence ls pattern start eof m = Some i" "eof \<longrightarrow> m = PreserveLineEndings"
  shows "start \<le> i"
proof (cases "pattern = []")
  case True
  with assms(1) show ?thesis by (simp add: seek_sequence_def)
next
  case False
  have "start \<le> seek_start ls pattern start eof m"
    using assms(2) seek_start_preserve by (cases eof) auto
  with seek_sequence_bounds(2)[OF assms(1) False] show ?thesis by simp
qed

lemma locate_chunk_SomeE:
  assumes "locate_chunk ls c li m = Some (i, pattern, new)"
  obtains "seek_sequence ls pattern li (is_end_of_file c) m = Some i"
    "pattern = old_lines c" "new = new_lines c"
  | "seek_sequence ls pattern li (is_end_of_file c) m = Some i"
    "pattern = butlast (old_lines c)" "new = new_lines c \<or> new = butlast (new_lines c)"
proof (cases "seek_sequence ls (old_lines c) li (is_end_of_file c) m")
  case (Some j)
  with assms have "j = i" "pattern = old_lines c" "new = new_lines c"
    by (simp_all add: locate_chunk_def)
  with Some that(1) show ?thesis by simp
next
  case None
  with assms have "pattern = butlast (old_lines c)"
    "new = (if ends_with_empty (new_lines c) then butlast (new_lines c) else new_lines c)"
    "seek_sequence ls (butlast (old_lines c)) li (is_end_of_file c) m = Some i"
    by (auto simp: locate_chunk_def Let_def split: if_split_asm)
  with that(2) show ?thesis by (simp split: if_split_asm)
qed

lemma locate_chunk_seek:
  "locate_chunk ls c li m = Some (i, pattern, new) \<Longrightarrow>
   seek_sequence ls pattern li (is_end_of_file c) m = Some i"
  by (erule locate_chunk_SomeE)

lemma seek_context_bounds:
  assumes "seek_context ls path m ctx li = Ok li'" "li \<le> length ls"
  shows "li \<le> li'" "li' \<le> length ls"
proof -
  have "li \<le> li' \<and> li' \<le> length ls"
  proof (cases ctx)
    case None
    with assms show ?thesis by (simp add: seek_context_def)
  next
    case (Some l)
    with assms(1) obtain i where i: "seek_sequence ls [l] li False m = Some i" "li' = Suc i"
      by (auto simp: seek_context_def split: option.splits)
    from seek_sequence_in_range[OF i(1) assms(2)] seek_sequence_from_start[OF i(1)] i(2)
    show ?thesis by simp
  qed
  then show "li \<le> li'" "li' \<le> length ls" by simp_all
qed

text \<open>
  The context loop emits consecutive pieces of the matched region, and never slices out of
  range when the context indices are those of a well-formed chunk.
\<close>

lemma context_replacements_ordered:
  assumes "context_replacements s pattern new os ns idx = Some rs"
    "os \<le> length pattern" "s + length pattern \<le> n"
  shows "ordered_from n (s + os) rs \<and> (\<forall>r \<in> set rs. s \<le> fst r \<and> rep_end r \<le> s + length pattern)"
  using assms
proof (induction s pattern new os ns idx arbitrary: rs rule: context_replacements.induct)
  case (1 s pattern new os ns)
  then show ?case by (auto split: if_splits)
next
  case (2 s pattern new os ns a b r)
  show ?case
  proof (cases "a \<ge> length pattern \<or> b \<ge> length new")
    case True
    with 2 show ?thesis by simp
  next
    case False
    show ?thesis
    proof (cases "os \<noteq> a \<or> ns \<noteq> b")
      case True
      with False 2(4) obtain rs' where rs': "\<not> (a < os \<or> b < ns)"
        "context_replacements s pattern new (Suc a) (Suc b) r = Some rs'"
        "rs = (s + os, a - os, drop ns (take b new)) # rs'"
        by (auto split: if_splits)
      from 2(2)[OF False True rs'(1,2)] False 2(6)
      have "ordered_from n (s + Suc a) rs'" "\<forall>r \<in> set rs'. s \<le> fst r \<and> rep_end r \<le> s + length pattern"
        by auto
      moreover have "ordered_from n (s + a) rs'" if "ordered_from n (s + Suc a) rs'"
        using that by (cases rs') auto
      ultimately show ?thesis using rs' False 2(6) by auto
    next
      case e: False
      with False 2(4) have "context_replacements s pattern new (Suc a) (Suc b) r = Some rs" by simp
      from 2(3)[OF False e this] False 2(6)
      have "ordered_from n (s + Suc a) rs" "\<forall>r \<in> set rs. s \<le> fst r \<and> rep_end r \<le> s + length pattern"
        by auto
      moreover have "ordered_from n (s + os) rs" if "ordered_from n (s + Suc a) rs"
        using that e by (cases rs) auto
      ultimately show ?thesis by simp
    qed
  qed
qed

lemma context_replacements_total:
  assumes "context_indices_ok os ns old new idx" "os \<le> length pattern" "ns \<le> length new'"
  shows "\<exists>rs. context_replacements s pattern new' os ns idx = Some rs"
  using assms
proof (induction idx arbitrary: os ns)
  case (Cons p r)
  obtain a b where p: "p = (a, b)" by (cases p)
  show ?case
  proof (cases "a \<ge> length pattern \<or> b \<ge> length new'")
    case True
    with p Cons.prems show ?thesis by simp
  next
    case False
    with p Cons.prems obtain rs where
      "context_replacements s pattern new' (Suc a) (Suc b) r = Some rs"
      using Cons.IH[of "Suc a" "Suc b"] by auto
    with p False Cons.prems show ?thesis by auto
  qed
qed simp

lemma ordered_from_iff:
  "ordered_from n k rs \<longleftrightarrow>
     sorted_wrt (\<lambda>a b. rep_end a \<le> fst b) rs \<and> (\<forall>r \<in> set rs. k \<le> fst r \<and> rep_end r \<le> n)"
  by (induction n k rs rule: ordered_from.induct) fastforce+

lemma chunk_step_OkE:
  assumes "chunk_step ls path m c li = Ok (li', rs)" "li \<le> length ls"
  obtains (insertion) "rs = [(insertion_idx ls m, 0, new_lines c)]" "li \<le> li'" "li' \<le> length ls"
  | (replace) l i pattern new where
      "li \<le> l" "l \<le> length ls" "locate_chunk ls c l m = Some (i, pattern, new)"
      "li' = i + length pattern" "i + length pattern \<le> length ls"
      "m = NormalizeToLf \<and> rs = [(i, length pattern, new)] \<or>
       m = PreserveLineEndings \<and>
         context_replacements i pattern new 0 0 (context_line_indices c) = Some rs"
proof -
  from assms(1) obtain l where l: "seek_context ls path m (change_context c) li = Ok l"
    by (auto simp: chunk_step_def try_bind_Inr_iff)
  note b = seek_context_bounds[OF l assms(2)]
  show thesis
  proof (cases "old_lines c = []")
    case True
    with assms(1) l b show thesis by (intro insertion) (simp_all add: chunk_step_def)
  next
    case False
    with assms(1) l obtain i pattern new where loc: "locate_chunk ls c l m = Some (i, pattern, new)"
      by (auto simp: chunk_step_def split: option.splits)
    from seek_sequence_in_range[OF locate_chunk_seek[OF loc] b(2)]
    show thesis
      using assms(1) l b loc False
      by (intro replace[of l i pattern new])
        (auto simp: chunk_step_def split: option.splits apply_patch_file_update_mode.splits)
  qed
qed

lemma chunk_step_bounds:
  assumes "chunk_step ls path m c li = Ok (li', rs)" "li \<le> length ls"
  shows "li' \<le> length ls \<and> (\<forall>r \<in> set rs. fst r \<le> length ls)"
  using assms
proof (cases rule: chunk_step_OkE)
  case insertion
  then show ?thesis by (auto simp: insertion_idx_def split: apply_patch_file_update_mode.splits)
next
  case (replace l i pattern new)
  then show ?thesis
    using context_replacements_ordered[of i pattern new 0 0 "context_line_indices c" rs "length ls"]
    by fastforce
qed

lemma chunk_step_preserve:
  assumes "chunk_step ls path PreserveLineEndings c li = Ok (li', rs)" "li \<le> length ls"
  shows "li \<le> li'" and
    "(\<exists>new. rs = [(length ls, 0, new)]) \<or> ordered_from (length ls) li rs \<and> (\<forall>r \<in> set rs. rep_end r \<le> li')"
proof -
  have "li \<le> li' \<and> ((\<exists>new. rs = [(length ls, 0, new)]) \<or>
      ordered_from (length ls) li rs \<and> (\<forall>r \<in> set rs. rep_end r \<le> li'))"
    using assms
  proof (cases rule: chunk_step_OkE)
    case insertion
    then show ?thesis by (simp add: insertion_idx_def)
  next
    case (replace l i pattern new)
    from replace(1) seek_sequence_from_start[OF locate_chunk_seek[OF replace(3)]]
    have "li \<le> i" by simp
    with replace show ?thesis
      using context_replacements_ordered[of i pattern new 0 0 "context_line_indices c" rs "length ls"]
      by (fastforce simp: ordered_from_iff)
  qed
  then show "li \<le> li'"
    "(\<exists>new. rs = [(length ls, 0, new)]) \<or> ordered_from (length ls) li rs \<and> (\<forall>r \<in> set rs. rep_end r \<le> li')"
    by simp_all
qed

definition reported :: "('a, apply_patch_error) result \<Rightarrow> bool" where
  "reported r \<longleftrightarrow> (\<forall>e. r = Err e \<longrightarrow> (\<exists>msg. e = ComputeReplacements msg))"

lemma reported_simps [simp]:
  "reported (Ok x)"
  "reported (Err e) \<longleftrightarrow> (\<exists>msg. e = ComputeReplacements msg)"
  by (auto simp: reported_def)

lemma reported_try_bind:
  "reported r \<Longrightarrow> (\<And>x. r = Ok x \<Longrightarrow> reported (f x)) \<Longrightarrow> reported (try_bind r f)"
  by (cases r) auto

lemma chunk_step_reported:
  assumes "chunk_wf c"
  shows "reported (chunk_step ls path m c li)"
proof -
  have total: "\<exists>rs. context_replacements s pattern new 0 0 (context_line_indices c) = Some rs"
    for s pattern new
    using assms
      context_replacements_total[of 0 0 "old_lines c" "new_lines c" "context_line_indices c" pattern new s]
    by (simp add: chunk_wf_def)
  have located: "reported (case locate_chunk ls c l m of
           None \<Rightarrow> Err (ComputeReplacements (missing_lines_msg (old_lines c) path))
         | Some (i, pattern, new) \<Rightarrow>
             (case (case m of NormalizeToLf \<Rightarrow> Some [(i, length pattern, new)]
                    | PreserveLineEndings \<Rightarrow>
                        context_replacements i pattern new 0 0 (context_line_indices c)) of
                None \<Rightarrow> Err Panicked | Some rs \<Rightarrow> Ok (i + length pattern, rs)))" for l
  proof (cases "locate_chunk ls c l m")
    case (Some r)
    obtain i pattern new where "r = (i, pattern, new)" by (cases r)
    with Some total[of i pattern new] show ?thesis by (cases m) auto
  qed simp
  have "reported (seek_context ls path m (change_context c) li)"
    by (simp add: seek_context_def split: option.split)
  then show ?thesis unfolding chunk_step_def
    by (rule reported_try_bind) (simp add: located)
qed

lemma chunks_loop_reported:
  "list_all chunk_wf chunks \<Longrightarrow> reported (chunks_loop ls path m li chunks)"
proof (induction chunks arbitrary: li)
  case (Cons c chunks)
  then show ?case
    by (auto intro!: reported_try_bind chunk_step_reported split: prod.split)
qed simp

lemma chunks_loop_bounds:
  "chunks_loop ls path m li chunks = Ok rs \<Longrightarrow> li \<le> length ls \<Longrightarrow> r \<in> set rs \<Longrightarrow> fst r \<le> length ls"
proof (induction chunks arbitrary: li rs)
  case (Cons c chunks)
  from Cons.prems(1) obtain li' rs1 rs2 where c: "chunk_step ls path m c li = Ok (li', rs1)"
    "chunks_loop ls path m li' chunks = Ok rs2" "rs = rs1 @ rs2"
    by (auto simp: try_bind_Inr_iff)
  with chunk_step_bounds[OF c(1) Cons.prems(2)] Cons.IH[OF c(2)] Cons.prems(3) show ?case by auto
qed simp

text \<open>
  In the preserving mode, of two replacements pushed one after the other either the first ends
  before the second, or the first is an insertion at the end of the file.
\<close>

definition pushed_before :: "replacement \<Rightarrow> replacement \<Rightarrow> bool" where
  "pushed_before a b \<longleftrightarrow> rep_end a \<le> fst b \<or> fst b < fst a \<and> rep_end b \<le> fst a"

lemma chunks_loop_preserve:
  "chunks_loop ls path PreserveLineEndings li chunks = Ok rs \<Longrightarrow> li \<le> length ls \<Longrightarrow>
   sorted_wrt pushed_before rs \<and> (\<forall>r \<in> set rs. li \<le> fst r \<and> rep_end r \<le> length ls)"
proof (induction chunks arbitrary: li rs)
  case (Cons c chunks)
  from Cons.prems(1) obtain li' rs1 rs2 where
    c: "chunk_step ls path PreserveLineEndings c li = Ok (li', rs1)"
    "chunks_loop ls path PreserveLineEndings li' chunks = Ok rs2" "rs = rs1 @ rs2"
    by (auto simp: try_bind_Inr_iff)
  note b = chunk_step_bounds[OF c(1) Cons.prems(2)]
  note p = chunk_step_preserve[OF c(1) Cons.prems(2)]
  from b Cons.IH[OF c(2)]
  have r2: "sorted_wrt pushed_before rs2" "\<forall>r \<in> set rs2. li' \<le> fst r \<and> rep_end r \<le> length ls"
    by auto
  from p(2) show ?case
  proof
    assume "\<exists>new. rs1 = [(length ls, 0, new)]"
    then obtain new where new: "rs1 = [(length ls, 0, new)]" by blast
    have "pushed_before (length ls, 0, new) q" if "q \<in> set rs2" for q
    proof (cases "fst q = length ls")
      case False
      with r2(2) that have "rep_end q \<le> length ls" "fst q < length ls" by fastforce+
      then show ?thesis by (simp add: pushed_before_def)
    qed (simp add: pushed_before_def)
    with new c(3) r2 p(1) Cons.prems(2) show ?thesis by fastforce
  next
    assume o: "ordered_from (length ls) li rs1 \<and> (\<forall>r \<in> set rs1. rep_end r \<le> li')"
    then have "sorted_wrt pushed_before rs1"
      by (auto simp: ordered_from_iff pushed_before_def intro: sorted_wrt_mono_rel[rotated])
    moreover have "pushed_before a b" if "a \<in> set rs1" "b \<in> set rs2" for a b
      using o r2(2) that unfolding pushed_before_def by (meson order_trans)
    moreover have "\<forall>r \<in> set rs2. li \<le> fst r"
      using r2(2) p(1) by (meson order_trans)
    ultimately show ?thesis
      using o c(3) r2 by (auto simp: sorted_wrt_append ordered_from_iff)
  qed
qed simp

lemma sorted_wrt_insort_key:
  assumes "sorted (map f ys)" "sorted_wrt P ys"
    "\<And>y. y \<in> set ys \<Longrightarrow> f x \<le> f y \<Longrightarrow> P x y" "\<And>y. y \<in> set ys \<Longrightarrow> f y < f x \<Longrightarrow> P y x"
  shows "sorted_wrt P (insort_key f x ys)"
  using assms
proof (induction ys)
  case (Cons y ys)
  then show ?case by (auto simp: set_insort_key not_le)
qed simp

text \<open>Sorting by start position makes them source-ordered and disjoint.\<close>

lemma sort_pushed_before:
  "sorted_wrt pushed_before rs \<Longrightarrow> sorted_wrt (\<lambda>a b. rep_end a \<le> fst b) (sort_key fst rs)"
proof (induction rs)
  case (Cons r rs)
  have r: "pushed_before r q" if "q \<in> set rs" for q
    using Cons.prems that by simp
  have "sorted_wrt (\<lambda>a b. rep_end a \<le> fst b) (insort_key fst r (sort_key fst rs))"
  proof (rule sorted_wrt_insort_key)
    show "rep_end r \<le> fst q" if "q \<in> set (sort_key fst rs)" "fst r \<le> fst q" for q
      using r[of q] that unfolding pushed_before_def set_sort by linarith
    show "rep_end q \<le> fst r" if "q \<in> set (sort_key fst rs)" "fst q < fst r" for q
      using r[of q] that unfolding pushed_before_def set_sort by linarith
  qed (use Cons in simp_all)
  then show ?case by simp
qed simp

lemma compute_replacements_preserve:
  assumes "compute_replacements ls path chunks PreserveLineEndings = Ok rs"
  shows "ordered_from (length ls) 0 rs"
proof -
  from assms obtain rs' where rs': "chunks_loop ls path PreserveLineEndings 0 chunks = Ok rs'"
    "rs = sort_key fst rs'"
    by (auto simp: compute_replacements_def try_bind_Inr_iff)
  from chunks_loop_preserve[OF rs'(1)] rs'(2) show ?thesis
    by (simp add: ordered_from_iff sort_pushed_before)
qed

section \<open>Splicing\<close>

lemma remove_n_eq: "remove_n n i ls = take i ls @ drop (i + n) ls"
proof (induction n arbitrary: ls)
  case (Suc n)
  show ?case
  proof (cases "i < length ls")
    case True
    with Suc[of "take i ls @ drop (Suc i) ls"] show ?thesis by (simp add: min_def add.commute)
  qed (use Suc in simp)
qed simp

lemma insert_all_eq: "i \<le> length ls \<Longrightarrow> insert_all i xs ls = Some (take i ls @ xs @ drop i ls)"
proof (induction xs arbitrary: i ls)
  case (Cons x xs)
  with Cons.IH[of "Suc i" "take i ls @ x # drop i ls"] show ?case
    by (simp add: vec_insert_def min_def)
qed simp

lemma splice_step:
  "s \<le> length ls \<Longrightarrow>
   splice_loop ((s, l, new) # rs) ls = splice_loop rs (take s ls @ new @ drop (s + l) ls)"
  by (simp add: remove_n_eq insert_all_eq min_def)

lemma splice_loop_append:
  "splice_loop (rs @ rs') ls = (case splice_loop rs ls of None \<Rightarrow> None | Some ls \<Rightarrow> splice_loop rs' ls)"
  by (induction rs ls rule: splice_loop.induct) (auto split: option.splits)

lemma splice_loop_total:
  "sorted_wrt (\<lambda>a b. fst b \<le> fst a) rs \<Longrightarrow> \<forall>r \<in> set rs. fst r \<le> length ls \<Longrightarrow>
   \<exists>ls'. splice_loop rs ls = Some ls'"
proof (induction rs arbitrary: ls)
  case (Cons r rs)
  obtain s l new where r: "r = (s, l, new)" by (cases r)
  with Cons.prems have "\<forall>q \<in> set rs. fst q \<le> length (take s ls @ new @ drop (s + l) ls)"
    by (auto simp: min_def)
  with Cons r show ?case by (auto simp: splice_step simp del: splice_loop.simps)
qed simp

lemma apply_replacements_total:
  assumes "sorted (map fst rs)" "\<forall>r \<in> set rs. fst r \<le> length ls"
  shows "\<exists>ls'. apply_replacements ls rs = Some ls'"
proof -
  have "sorted_wrt (\<lambda>a b. fst b \<le> fst a) (rev rs)"
    using assms(1) by (simp add: sorted_wrt_rev sorted_wrt_map)
  with assms(2) show ?thesis by (simp add: apply_replacements_def splice_loop_total)
qed

lemma splice_loop_rebuild:
  "ordered_from (length ls) k rs \<Longrightarrow> k \<le> length ls \<Longrightarrow>
   \<exists>rest. rebuild id k (drop k ls) rs = Some rest \<and> splice_loop (rev rs) ls = Some (take k ls @ rest)"
proof (induction rs arbitrary: k)
  case (Cons r rs)
  obtain s l new where r: "r = (s, l, new)" by (cases r)
  with Cons.prems have b: "k \<le> s" "s + l \<le> length ls" "ordered_from (length ls) (s + l) rs" by auto
  from Cons.IH[OF b(3) b(2)] obtain rest where
    rest: "rebuild id (s + l) (drop (s + l) ls) rs = Some rest"
      "splice_loop (rev rs) ls = Some (take (s + l) ls @ rest)" by blast
  have "splice_loop (rev (r # rs)) ls = Some (take s ls @ new @ rest)"
    using rest(2) r b by (simp add: splice_loop_append splice_step min_def del: splice_loop.simps(2))
  moreover have "rebuild id k (drop k ls) (r # rs) = Some (take (s - k) (drop k ls) @ new @ rest)"
    using rest(1) r b by (simp add: add.commute)
  moreover have "take s ls = take k ls @ take (s - k) (drop k ls)"
    using b(1) take_add[of k "s - k" ls] by simp
  ultimately show ?case by (simp add: id_def)
qed simp

text \<open>
  C6. Splicing from the last replacement to the first, in place, gives the same lines as
  rebuilding the file front to back, for source-ordered, non-overlapping replacements: the two
  update modes agree on the text they produce.
\<close>

theorem apply_replacements_rebuild:
  "ordered_from (length ls) 0 rs \<Longrightarrow> apply_replacements ls rs = rebuild id 0 ls rs"
  using splice_loop_rebuild[of ls 0 rs] by (auto simp: apply_replacements_def)

theorem apply_replacements_rebuild_witness:
  "apply_replacements [str ''a'', str ''b'', str ''c''] [(0, 1, [str ''x'', str ''y'']), (2, 1, [])]
     = Some [str ''x'', str ''y'', str ''b'']"
  using apply_replacements_rebuild[of "[str ''a'', str ''b'', str ''c'']"
      "[(0, 1, [str ''x'', str ''y'']), (2, 1, [])]"]
  by simp

section \<open>No panics\<close>

lemma or_panic_simps [simp]:
  "or_panic (Some x) = Ok x"
  "or_panic None = Err Panicked"
  by (simp_all add: or_panic_def)

lemma compute_replacements_reported:
  "list_all chunk_wf chunks \<Longrightarrow> reported (compute_replacements ls path chunks m)"
  unfolding compute_replacements_def by (rule reported_try_bind) (simp_all add: chunks_loop_reported)

lemma apply_computed_total:
  assumes "compute_replacements ls path chunks m = Ok rs"
  shows "\<exists>ls'. apply_replacements ls rs = Some ls'"
proof -
  from assms obtain rs' where rs': "chunks_loop ls path m 0 chunks = Ok rs'" "rs = sort_key fst rs'"
    by (auto simp: compute_replacements_def try_bind_Inr_iff)
  with chunks_loop_bounds[OF rs'(1)] show ?thesis by (intro apply_replacements_total) auto
qed

lemma source_apply_total:
  assumes "compute_replacements (line_texts f) path chunks PreserveLineEndings = Ok rs"
  shows "\<exists>f'. source_file_apply_replacements rs f = Some f'"
  using rebuild_total[OF compute_replacements_preserve[OF assms]]
  by (fastforce simp: source_file_apply_replacements_def)

text \<open>
  With the context indices the parser records, no slice, subtraction or insertion is out of range
  and the ordering assertion of the preserving mode holds.
\<close>

lemma new_contents_reported:
  assumes "list_all chunk_wf chunks"
  shows "reported (new_contents_from_chunks path chunks m s)"
proof (cases m)
  case NormalizeToLf
  with assms apply_computed_total[of "split_lines s" path chunks m] show ?thesis
    by (auto simp: new_contents_from_chunks_def Let_def
        intro!: reported_try_bind compute_replacements_reported)
next
  case PreserveLineEndings
  with assms source_apply_total[of "source_file_parse s" path chunks] show ?thesis
    by (auto simp: new_contents_from_chunks_def Let_def
        intro!: reported_try_bind compute_replacements_reported)
qed

section \<open>Chunks that occur verbatim\<close>

text \<open>
  A file laid out as a sequence of gaps and chunks, followed by a tail: the text before and after
  the patch.
\<close>

definition layout_old :: "(rstr list \<times> update_file_chunk) list \<Rightarrow> rstr list \<Rightarrow> rstr list" where
  "layout_old segs tail = concat (map (\<lambda>(gap, c). gap @ old_lines c) segs) @ tail"

definition layout_new :: "(rstr list \<times> update_file_chunk) list \<Rightarrow> rstr list \<Rightarrow> rstr list" where
  "layout_new segs tail = concat (map (\<lambda>(gap, c). gap @ new_lines c) segs) @ tail"

text \<open>Where the search for a chunk starts inside its gap: after its context line, if it has one.\<close>

definition gap_skip :: "rstr option \<Rightarrow> rstr list \<Rightarrow> nat option" where
  "gap_skip context gap =
     (case context of None \<Rightarrow> Some 0 | Some l \<Rightarrow> map_option Suc (position (\<lambda>x. x = l) gap))"

text \<open>Each chunk's old lines occur first where the layout has them.\<close>

fun unambiguous :: "(rstr list \<times> update_file_chunk) list \<Rightarrow> rstr list \<Rightarrow> bool" where
  "unambiguous [] tail = True"
| "unambiguous ((gap, c) # segs) tail =
     (\<not> is_end_of_file c \<and> old_lines c \<noteq> [] \<and>
      (case gap_skip (change_context c) gap of
         None \<Rightarrow> False
       | Some k \<Rightarrow> list_all
           (\<lambda>j. take (length (old_lines c)) (drop j (gap @ old_lines c @ layout_old segs tail)) \<noteq> old_lines c)
           [k ..< length gap]) \<and>
      unambiguous segs tail)"

lemma layout_simps [simp]:
  "layout_old [] tail = tail"
  "layout_old ((gap, c) # segs) tail = gap @ old_lines c @ layout_old segs tail"
  "layout_new [] tail = tail"
  "layout_new ((gap, c) # segs) tail = gap @ new_lines c @ layout_new segs tail"
  by (simp_all add: layout_old_def layout_new_def)

lemma rebuild_skip:
  "rebuild mk (k + length gap) src rs = Some out \<Longrightarrow> rebuild mk k (gap @ src) rs = Some (gap @ out)"
  by (cases rs) (auto split: if_splits)

lemma context_replacements_rebuild:
  assumes "context_indices_ok os ns old new idx"
    "context_replacements s old new os ns idx = Some rs"
    "os \<le> length old" "ns \<le> length new"
    "rebuild id (s + length old) post rs' = Some rest"
  shows "rebuild id (s + os) (drop os old @ post) (rs @ rs') = Some (drop ns new @ rest)"
  using assms
proof (induction idx arbitrary: os ns rs)
  case Nil
  then show ?case by (auto split: if_splits)
next
  case (Cons p idx)
  obtain a b where p: "p = (a, b)" by (cases p)
  with Cons.prems(1) have ok: "os \<le> a" "ns \<le> b" "a < length old" "b < length new" "old ! a = new ! b"
    "context_indices_ok (Suc a) (Suc b) old new idx" by auto
  have split_old: "drop os old = take (a - os) (drop os old) @ old ! a # drop (Suc a) old"
    using ok by (metis Cons_nth_drop_Suc append_take_drop_id drop_drop le_add_diff_inverse2)
  have split_new: "drop ns new = drop ns (take b new) @ new ! b # drop (Suc b) new"
    using ok by (metis Cons_nth_drop_Suc append_take_drop_id drop_append drop_take
        diff_is_0_eq drop0 length_take min.absorb4)
  show ?case
  proof (cases "os \<noteq> a \<or> ns \<noteq> b")
    case True
    with p ok Cons.prems(2) obtain rs1 where
      rs1: "context_replacements s old new (Suc a) (Suc b) idx = Some rs1"
        "rs = (s + os, a - os, drop ns (take b new)) # rs1"
      by (auto split: if_splits)
    have "rebuild id (s + Suc a) (drop (Suc a) old @ post) (rs1 @ rs') = Some (drop (Suc b) new @ rest)"
      using Cons.IH[OF ok(6) rs1(1)] ok Cons.prems by (simp add: id_def)
    then have "rebuild id (s + a) (old ! a # drop (Suc a) old @ post) (rs1 @ rs') =
        Some (old ! a # drop (Suc b) new @ rest)"
      using rebuild_skip[of id "s + a" "[old ! a]"] by simp
    moreover have "drop (a - os) (drop os old @ post) = old ! a # drop (Suc a) old @ post"
      using ok by (subst split_old) simp
    ultimately show ?thesis
      using rs1(2) ok split_new by (simp add: id_def)
  next
    case False
    with p ok Cons.prems(2) have
      rs1: "context_replacements s old new (Suc a) (Suc b) idx = Some rs" by simp
    have "rebuild id (s + Suc a) (drop (Suc a) old @ post) (rs @ rs') = Some (drop (Suc b) new @ rest)"
      using Cons.IH[OF ok(6) rs1] ok Cons.prems by (simp add: id_def)
    then have "rebuild id (s + a) (old ! a # drop (Suc a) old @ post) (rs @ rs') =
        Some (old ! a # drop (Suc b) new @ rest)"
      using rebuild_skip[of id "s + a" "[old ! a]"] by simp
    with False ok split_old split_new show ?thesis by (simp add: id_def)
  qed
qed

lemma seek_context_exact:
  assumes "gap_skip ctx gap = Some k"
  shows "seek_context (pre @ gap @ post) path m ctx (length pre) = Ok (length pre + k)"
proof (cases ctx)
  case None
  with assms show ?thesis by (simp add: seek_context_def gap_skip_def)
next
  case (Some l)
  with assms obtain i where i: "position (\<lambda>x. x = l) gap = Some i" "k = Suc i"
    by (auto simp: gap_skip_def)
  note p = position_SomeD[OF i(1)]
  have nth: "take (length [l]) (drop (length pre + j) (pre @ gap @ post)) = [gap ! j]"
    if "j < length gap" for j
    using that by (simp add: take_Suc_conv_app_nth[of 0] hd_drop_conv_nth nth_append take_Suc)
  have "seek_sequence (pre @ gap @ post) [l] (length pre) False m = Some (length pre + i)"
  proof (rule seek_exact)
    show "take (length [l]) (drop (length pre + i) (pre @ gap @ post)) = [l]"
      using nth p by simp
    show "take (length [l]) (drop j (pre @ gap @ post)) \<noteq> [l]"
      if "length pre \<le> j" "j < length pre + i" for j
    proof -
      from that obtain j' where "j = length pre + j'" by (auto simp: le_iff_add)
      with nth[of j'] p that show ?thesis by auto
    qed
  qed simp_all
  with Some i show ?thesis by (simp add: seek_context_def)
qed

lemma locate_chunk_exact:
  assumes "\<not> is_end_of_file c" "old_lines c \<noteq> []" "k \<le> length gap"
    "list_all (\<lambda>j. take (length (old_lines c)) (drop j (gap @ old_lines c @ post)) \<noteq> old_lines c)
       [k ..< length gap]"
  shows "locate_chunk (pre @ gap @ old_lines c @ post) c (length pre + k) m =
    Some (length pre + length gap, old_lines c, new_lines c)"
proof -
  have "seek_sequence (pre @ gap @ old_lines c @ post) (old_lines c) (length pre + k) False m =
      Some (length pre + length gap)"
  proof (rule seek_exact)
    show "take (length (old_lines c)) (drop j (pre @ gap @ old_lines c @ post)) \<noteq> old_lines c"
      if "length pre + k \<le> j" "j < length pre + length gap" for j
    proof -
      from that obtain j' where j': "j = length pre + j'" by (metis add_leD1 le_iff_add)
      with that have "j' \<in> set [k ..< length gap]" by simp
      with assms(4) have
        "take (length (old_lines c)) (drop j' (gap @ old_lines c @ post)) \<noteq> old_lines c"
        unfolding list_all_iff by blast
      with j' show ?thesis by simp
    qed
  qed (use assms in simp_all)
  with assms(1) show ?thesis by (simp add: locate_chunk_def)
qed

lemma gap_skip_le: "gap_skip ctx gap = Some k \<Longrightarrow> k \<le> length gap"
  by (auto simp: gap_skip_def Suc_le_eq dest: position_SomeD split: option.splits)

lemma chunks_loop_exact:
  assumes "unambiguous segs tail" "list_all (chunk_wf \<circ> snd) segs"
  shows "\<exists>rs. chunks_loop (pre @ layout_old segs tail) path m (length pre) (map snd segs) = Ok rs \<and>
    rebuild id (length pre) (layout_old segs tail) rs = Some (layout_new segs tail) \<and>
    ordered_from (length pre + length (layout_old segs tail)) (length pre) rs"
  using assms
proof (induction segs arbitrary: pre)
  case (Cons seg segs)
  obtain gap c where seg: "seg = (gap, c)" by (cases seg)
  let ?post = "layout_old segs tail" and ?i = "length pre + length gap"
  let ?ls = "pre @ gap @ old_lines c @ ?post"
  from Cons.prems seg obtain k where k: "gap_skip (change_context c) gap = Some k"
    "list_all (\<lambda>j. take (length (old_lines c)) (drop j (gap @ old_lines c @ ?post)) \<noteq> old_lines c)
       [k ..< length gap]"
    "\<not> is_end_of_file c" "old_lines c \<noteq> []" "unambiguous segs tail" "chunk_wf c"
    "list_all (chunk_wf \<circ> snd) segs"
    by (cases "gap_skip (change_context c) gap") (simp_all add: comp_def)
  from Cons.IH[OF k(5,7), of "pre @ gap @ old_lines c"] obtain rs2 where
    rs2: "chunks_loop ?ls path m (?i + length (old_lines c)) (map snd segs) = Ok rs2"
      "rebuild id (?i + length (old_lines c)) ?post rs2 = Some (layout_new segs tail)"
      "ordered_from (length ?ls) (?i + length (old_lines c)) rs2"
    by (auto simp: add.assoc id_def)
  define rs1 where "rs1 = (case m of NormalizeToLf \<Rightarrow> Some [(?i, length (old_lines c), new_lines c)]
    | PreserveLineEndings \<Rightarrow>
        context_replacements ?i (old_lines c) (new_lines c) 0 0 (context_line_indices c))"
  from k(6) obtain r1 where r1: "rs1 = Some r1"
    using context_replacements_total[of 0 0 "old_lines c" "new_lines c" "context_line_indices c"
        "old_lines c" "new_lines c" ?i]
    by (cases m) (auto simp: rs1_def chunk_wf_def)
  have "chunk_step ?ls path m c (length pre) = Ok (?i + length (old_lines c), r1)"
    using seek_context_exact[OF k(1), of pre "old_lines c @ ?post" path m]
      locate_chunk_exact[OF k(3,4) gap_skip_le[OF k(1)] k(2), of pre m] k(4) r1[unfolded rs1_def]
    by (simp add: chunk_step_def)
  then have loop: "chunks_loop ?ls path m (length pre) (map snd (seg # segs)) = Ok (r1 @ rs2)"
    using rs2(1) seg by simp
  have "rebuild id ?i (old_lines c @ ?post) (r1 @ rs2) = Some (new_lines c @ layout_new segs tail)"
  proof (cases m)
    case NormalizeToLf
    with r1 rs2(2) show ?thesis by (auto simp: rs1_def id_def)
  next
    case PreserveLineEndings
    with r1 rs2(2) k(6) show ?thesis
      using context_replacements_rebuild[of 0 0 "old_lines c" "new_lines c" "context_line_indices c" ?i r1]
      by (simp add: rs1_def chunk_wf_def)
  qed
  then have build: "rebuild id (length pre) (layout_old (seg # segs) tail) (r1 @ rs2) =
      Some (layout_new (seg # segs) tail)"
    using rebuild_skip[of id "length pre" gap] seg by simp
  have "ordered_from (length ?ls) ?i r1 \<and> (\<forall>r \<in> set r1. rep_end r \<le> ?i + length (old_lines c))"
  proof (cases m)
    case PreserveLineEndings
    with r1 show ?thesis
      using context_replacements_ordered[of ?i "old_lines c" "new_lines c" 0 0 "context_line_indices c" r1 "length ?ls"]
      by (simp add: rs1_def)
  qed (use r1 in \<open>auto simp: rs1_def\<close>)
  then have "ordered_from (length ?ls) (length pre) (r1 @ rs2)"
    using rs2(3) unfolding ordered_from_iff sorted_wrt_append by fastforce
  with loop build seg show ?case by (auto simp: add.assoc id_def)
qed simp

lemma compute_replacements_exact:
  assumes "unambiguous segs tail" "list_all (chunk_wf \<circ> snd) segs"
  shows "\<exists>rs. compute_replacements (layout_old segs tail) path (map snd segs) m = Ok rs \<and>
    rebuild id 0 (layout_old segs tail) rs = Some (layout_new segs tail) \<and>
    ordered_from (length (layout_old segs tail)) 0 rs"
proof -
  from chunks_loop_exact[OF assms, of "[]" path m] obtain rs where
    rs: "chunks_loop (layout_old segs tail) path m 0 (map snd segs) = Ok rs"
      "rebuild id 0 (layout_old segs tail) rs = Some (layout_new segs tail)"
      "ordered_from (length (layout_old segs tail)) 0 rs"
    by (auto simp: id_def)
  from rs(3) have "sorted (map fst rs)"
    by (auto simp: ordered_from_iff sorted_wrt_map elim!: sorted_wrt_mono_rel[rotated])
  then have "sort_key fst rs = rs" by (simp add: sort_key_id_if_sorted)
  with rs show ?thesis by (simp add: compute_replacements_def)
qed

lemma normalize_exact:
  assumes "unambiguous segs tail" "list_all (chunk_wf \<circ> snd) segs" "split_lines s = layout_old segs tail"
  shows "new_contents_from_chunks path (map snd segs) NormalizeToLf s = Ok (join_lines (layout_new segs tail))"
proof -
  from compute_replacements_exact[OF assms(1,2)] obtain rs where
    "compute_replacements (layout_old segs tail) path (map snd segs) NormalizeToLf = Ok rs"
    "apply_replacements (layout_old segs tail) rs = Some (layout_new segs tail)"
    using splice_loop_rebuild[of "layout_old segs tail" 0] by (fastforce simp: apply_replacements_def)
  with assms(3) show ?thesis by (simp add: new_contents_from_chunks_def)
qed



section \<open>Context lines are left alone\<close>

definition context_only :: "update_file_chunk \<Rightarrow> bool" where
  "context_only c \<longleftrightarrow> old_lines c \<noteq> [] \<and> new_lines c = old_lines c \<and>
     context_line_indices c = map (\<lambda>i. (i, i)) [0 ..< length (old_lines c)]"

lemma context_replacements_diagonal:
  "os \<le> length pattern \<Longrightarrow> length pattern \<le> n \<Longrightarrow>
   context_replacements s pattern pattern os os (map (\<lambda>i. (i, i)) [os ..< n]) = Some []"
proof (induction "n - os" arbitrary: os)
  case (Suc d)
  then have "[os ..< n] = os # [Suc os ..< n]" by (simp add: upt_conv_Cons)
  with Suc show ?case by (cases "os = length pattern") auto
qed auto

lemma chunk_step_context_only:
  assumes "context_only c" "chunk_step ls path PreserveLineEndings c li = Ok (li', rs)"
  shows "rs = []"
proof -
  from assms(2) obtain l where l: "seek_context ls path PreserveLineEndings (change_context c) li = Ok l"
    by (auto simp: chunk_step_def try_bind_Inr_iff)
  with assms obtain r where r: "locate_chunk ls c l PreserveLineEndings = Some r"
    by (auto simp: chunk_step_def context_only_def split: option.splits)
  obtain i pattern new where "r = (i, pattern, new)" by (cases r)
  with assms l r have loc: "locate_chunk ls c l PreserveLineEndings = Some (i, pattern, new)"
    "context_replacements i pattern new 0 0 (context_line_indices c) = Some rs"
    by (auto simp: chunk_step_def context_only_def split: option.splits)
  from loc(1) assms(1) have "new = pattern" "length pattern \<le> length (old_lines c)"
    by (auto simp: locate_chunk_def context_only_def Let_def split: option.split_asm if_split_asm)
  with loc(2) assms(1) show ?thesis
    using context_replacements_diagonal[of 0 pattern "length (old_lines c)" i]
    by (simp add: context_only_def)
qed

lemma chunks_loop_context_only:
  "list_all context_only chunks \<Longrightarrow> chunks_loop ls path PreserveLineEndings li chunks = Ok rs \<Longrightarrow> rs = []"
proof (induction chunks arbitrary: li rs)
  case (Cons c chunks)
  then show ?case
    by (fastforce simp: try_bind_Inr_iff dest: chunk_step_context_only)
qed simp

lemma scan_lines_terminated:
  "s \<noteq> [] \<Longrightarrow> last s = CR \<or> last s = LF \<Longrightarrow> l \<in> set (fst (scan_lines pref acc s)) \<Longrightarrow> sl_ending l \<noteq> None"
proof (induction pref acc s rule: scan_lines.induct)
  case (2 pref acc c s)
  show ?case
  proof (cases "c = CR \<and> s \<noteq> [] \<and> hd s = LF")
    case True
    then obtain s' where "s = LF # s'" by (cases s) auto
    with True 2(1)[OF True] "2.prems" show ?thesis
      by (cases "s' = []") (auto simp: case_prod_beta)
  next
    case False
    with 2 show ?thesis
      by (cases "s = []") (auto simp: case_prod_beta split: if_splits)
  qed
qed simp

text \<open>
  C8. In the preserving mode, chunks of context lines only change nothing: whatever the line
  terminators of the file and however approximately the context matches, a file that ends with a
  line terminator is reproduced exactly (the default mode would rewrite matched lines).
\<close>

theorem context_only_preserves:
  assumes "list_all context_only chunks" "s = [] \<or> last s = CR \<or> last s = LF"
    "new_contents_from_chunks path chunks PreserveLineEndings s = Ok s'"
  shows "s' = s"
proof -
  let ?f = "source_file_parse s"
  from assms(3) obtain rs f where rs: "compute_replacements (line_texts ?f) path chunks PreserveLineEndings = Ok rs"
    "source_file_apply_replacements rs ?f = Some f" "s' = into_contents f"
    by (auto simp: new_contents_from_chunks_def try_bind_Inr_iff or_panic_def Let_def split: option.splits)
  from rs(1) assms(1) have "rs = []"
    by (auto simp: compute_replacements_def try_bind_Inr_iff dest: chunks_loop_context_only)
  moreover have "map (set_ending e) (sf_lines ?f) = sf_lines ?f" for e
  proof (cases "s = []")
    case False
    with scan_lines_terminated[OF False] assms(2) show ?thesis
      by (auto intro!: map_idI simp: source_file_parse_def case_prod_beta set_ending_def or_insert_def
          split: option.split)
  qed (simp add: source_file_parse_def)
  ultimately have "f = ?f" using rs(2) by (simp add: source_file_apply_replacements_def)
  with rs(3) show ?thesis
    using scan_lines_render[of None "[]" s]
    by (simp add: into_contents_def source_file_parse_def case_prod_beta)
qed

theorem context_only_preserves_witness:
  "new_contents_from_chunks (str ''p'') [push_context_line (str ''a'') default_chunk]
     PreserveLineEndings (str ''a '' @ [CR, LF] @ str ''b'' @ [LF]) =
   Ok (str ''a '' @ [CR, LF] @ str ''b'' @ [LF])"
proof -
  let ?s = "str ''a '' @ [CR, LF] @ str ''b'' @ [LF]"
  let ?c = "push_context_line (str ''a'') default_chunk"
  obtain s' where "new_contents_from_chunks (str ''p'') [?c] PreserveLineEndings ?s = Ok s'"
    by (simp add: patch_eval str_eval vec_eval)
  moreover have "context_only ?c"
    by (simp add: context_only_def patch_eval)
  ultimately show ?thesis using context_only_preserves[of "[?c]" ?s "str ''p''" s'] by simp
qed

lemma split_lines_terminated:
  assumes "ls \<noteq> []" "list_all (\<lambda>l. LF \<notin> set l) ls"
  shows "split_lines (join [LF] ls @ [LF]) = ls"
proof -
  have "join [LF] (ls @ [[]]) = join [LF] ls @ [LF]"
    using assms(1) by (induction "[LF]" ls rule: join.induct) auto
  then have "split_char LF (join [LF] ls @ [LF]) = ls @ [[]]"
    using split_char_join[of "ls @ [[]]" LF] assms(2) by (fastforce simp: list_all_iff)
  then show ?thesis by (simp add: split_lines_def ends_with_empty_def)
qed

text \<open>
  The default mode drops a blank last line: when the file ends with two line feeds and the
  patch does not touch its last (blank) line, the result ends with one line feed only.
\<close>

lemma normalize_drops_blank_last_line:
  assumes "unambiguous segs (t @ [[]])" "list_all (chunk_wf \<circ> snd) segs"
    "s = join [LF] (layout_old segs (t @ [[]])) @ [LF]"
    "list_all (\<lambda>l. LF \<notin> set l) (layout_old segs (t @ [[]]))"
  shows "new_contents_from_chunks path (map snd segs) NormalizeToLf s =
    Ok (join [LF] (layout_new segs (t @ [[]])))"
proof -
  have "layout_old segs (t @ [[]]) \<noteq> []" by (simp add: layout_old_def)
  with assms(3,4) have "split_lines s = layout_old segs (t @ [[]])"
    by (simp add: split_lines_terminated)
  moreover have "ends_with_empty (layout_new segs (t @ [[]]))"
    by (simp add: layout_new_def ends_with_empty_def last_opt_def)
  ultimately show ?thesis
    using normalize_exact[OF assms(1,2)] by (simp add: join_lines_def)
qed

lemma normalize_drops_blank_last_line_example:
  "new_contents_from_chunks (str ''p'')
     [default_chunk\<lparr>old_lines := [str ''a''], new_lines := [str ''b'']\<rparr>] NormalizeToLf
     (str ''a'' @ [LF, LF]) = Ok (str ''b'' @ [LF])"
proof -
  let ?c = "default_chunk\<lparr>old_lines := [str ''a''], new_lines := [str ''b'']\<rparr>"
  show ?thesis
    using normalize_drops_blank_last_line[of "[([], ?c)]" "[]" "str ''a'' @ [LF, LF]" "str ''p''"]
    by (simp add: gap_skip_def chunk_wf_def patch_eval str_eval)
qed

end
