(* ===== verification/Apply_Patch.thy ===== *)
theory Apply_Patch
  imports Patch_Parser File_Update
begin

text \<open>
  Applying a patch to a file system (\<open>codex-rs/apply-patch/src/lib.rs\<close>): the hunk loop with its
  delta of committed changes and the \<open>exact\<close> flag, the file-system helpers, the summary and the
  error reporting. The file system (trait \<open>ExecutorFileSystem\<close>), the path type (\<open>PathUri\<close>) and the
  output writers are parameters: a record of operations over a world \<open>'w\<close> and paths \<open>'p\<close>.
\<close>

section \<open>Parameters and data\<close>

record file_metadata =
  is_directory :: bool
  is_file :: bool
  is_symlink :: bool

text \<open>
  The boolean is \<open>follow_symlinks\<close>. File contents are text: \<open>read_file_text\<close> decodes what
  \<open>write_file\<close> got as the UTF-8 bytes of a string.
\<close>

record ('p, 'w) patch_env =
  join_path :: "'p \<Rightarrow> rstr \<Rightarrow> ('p, rstr) result"
  parent_path :: "'p \<Rightarrow> 'p option"
  native_path :: "'p \<Rightarrow> rstr"
  read_file_text :: "bool \<Rightarrow> 'p \<Rightarrow> 'w \<Rightarrow> (rstr, io_error) result"
  write_file :: "bool \<Rightarrow> 'p \<Rightarrow> rstr \<Rightarrow> 'w \<Rightarrow> 'w \<times> (unit, io_error) result"
  get_metadata :: "bool \<Rightarrow> 'p \<Rightarrow> 'w \<Rightarrow> (file_metadata, io_error) result"
  create_directory :: "bool \<Rightarrow> 'p \<Rightarrow> 'w \<Rightarrow> 'w \<times> (unit, io_error) result"
  remove_file :: "bool \<Rightarrow> 'p \<Rightarrow> 'w \<Rightarrow> 'w \<times> (unit, io_error) result"

record apply_patch_options =
  update_file_mode :: apply_patch_file_update_mode
  follow_symlinks :: bool

definition default_options :: apply_patch_options where
  "default_options = \<lparr>update_file_mode = default_update_mode, follow_symlinks = True\<rparr>"

text \<open>\<open>apply_patch_file_update_mode_from_env\<close>; the argument is the variable's value, if readable.\<close>

definition apply_patch_file_update_mode_from_env :: "rstr option \<Rightarrow> apply_patch_file_update_mode" where
  "apply_patch_file_update_mode_from_env var =
     (if var = Some (str ''1'') then PreserveLineEndings else NormalizeToLf)"

datatype 'p applied_patch_file_change =
    AppliedAdd rstr "rstr option"  \<comment> \<open>content, overwritten content\<close>
  | AppliedDelete rstr
  | AppliedUpdate "'p option" rstr "rstr option" rstr
      \<comment> \<open>move path, old content, overwritten move content, new content\<close>

type_synonym 'p applied_patch_change = "'p \<times> 'p applied_patch_file_change"

record 'p applied_patch_delta =
  changes :: "'p applied_patch_change list"
  exact :: bool

definition empty_delta :: "'p applied_patch_delta" where
  "empty_delta = \<lparr>changes = [], exact = True\<rparr>"

definition delta_append :: "'p applied_patch_delta \<Rightarrow> 'p applied_patch_delta \<Rightarrow> 'p applied_patch_delta" where
  "delta_append d other =
     d\<lparr>changes := changes d @ changes other, exact := exact d \<and> exact other\<rparr>"

text \<open>
  \<open>anyhow::Error\<close> as the code builds it: an I/O error, one with a context message, a plain
  message (\<open>bail!\<close>), a converted \<open>ApplyPatchError\<close> or \<open>PathUriParseError\<close>.
\<close>

datatype anyhow_error =
    AnyhowIo io_error
  | AnyhowContext rstr io_error
  | AnyhowMsg rstr
  | AnyhowApply apply_patch_error
  | AnyhowPath rstr

fun parse_error_display :: "parse_error \<Rightarrow> rstr" where
  "parse_error_display (InvalidPatchError m) = str ''invalid patch: '' @ m"
| "parse_error_display (InvalidHunkError m n) =
     str ''invalid hunk at line '' @ show_nat n @ str '', '' @ m"

fun apply_patch_error_display :: "apply_patch_error \<Rightarrow> rstr" where
  "apply_patch_error_display (ParseError e) = parse_error_display e"
| "apply_patch_error_display (IoError context e) = context @ str '': '' @ io_message e"
| "apply_patch_error_display (ComputeReplacements m) = m"
| "apply_patch_error_display (PathUriError m) = m"
| "apply_patch_error_display ImplicitInvocation =
     str ''patch detected without explicit call to apply_patch. Rerun as [\"apply_patch\", \"<patch>\"]''"
| "apply_patch_error_display Panicked = []"

fun anyhow_display :: "anyhow_error \<Rightarrow> rstr" where
  "anyhow_display (AnyhowIo e) = io_message e"
| "anyhow_display (AnyhowContext context e) = context"
| "anyhow_display (AnyhowMsg m) = m"
| "anyhow_display (AnyhowApply e) = apply_patch_error_display e"
| "anyhow_display (AnyhowPath m) = m"

text \<open>\<open>downcast_ref::<std::io::Error>()\<close>, which also sees through a context.\<close>

fun downcast_io :: "anyhow_error \<Rightarrow> io_error option" where
  "downcast_io (AnyhowIo e) = Some e"
| "downcast_io (AnyhowContext _ e) = Some e"
| "downcast_io _ = None"

section \<open>File-system helpers\<close>

definition ensure_not_directory ::
    "('p, 'w) patch_env \<Rightarrow> bool \<Rightarrow> 'p \<Rightarrow> 'w \<Rightarrow> (unit, io_error) result" where
  "ensure_not_directory env follow path w =
     try_bind (get_metadata env follow path w)
       (\<lambda>metadata. if is_directory metadata
          then Err \<lparr>io_kind = InvalidInput, io_message = str ''path is a directory''\<rparr> else Ok ())"

definition remove_failure_was_side_effect_free ::
    "('p, 'w) patch_env \<Rightarrow> bool \<Rightarrow> 'p \<Rightarrow> rstr option \<Rightarrow> 'w \<Rightarrow> bool" where
  "remove_failure_was_side_effect_free env follow path expected w =
     (case expected of
        Some expected_content \<Rightarrow> read_file_text env follow path w = Ok expected_content
      | None \<Rightarrow> False)"

text \<open>The new value of \<open>*exact\<close>.\<close>

definition note_existing_path_delta_support ::
    "('p, 'w) patch_env \<Rightarrow> bool \<Rightarrow> 'p \<Rightarrow> 'w \<Rightarrow> bool \<Rightarrow> bool" where
  "note_existing_path_delta_support env follow path w ex =
     (case get_metadata env follow path w of
        Inr metadata \<Rightarrow> if is_file metadata \<and> \<not> is_symlink metadata then ex else False
      | Inl source \<Rightarrow> if io_kind source = NotFound then ex else False)"

definition read_optional_file_text_for_delta ::
    "('p, 'w) patch_env \<Rightarrow> bool \<Rightarrow> 'p \<Rightarrow> 'w \<Rightarrow> bool \<Rightarrow> bool \<times> rstr option" where
  "read_optional_file_text_for_delta env follow path w ex =
     (let ex = note_existing_path_delta_support env follow path w ex in
      case read_file_text env follow path w of
        Inr content \<Rightarrow> (ex, Some content)
      | Inl source \<Rightarrow> if io_kind source = NotFound then (ex, None) else (False, None))"

definition write_failed_msg :: "rstr \<Rightarrow> rstr" where
  "write_failed_msg path = str ''Failed to write file '' @ path"

definition with_context :: "rstr \<Rightarrow> (unit, io_error) result \<Rightarrow> (unit, anyhow_error) result" where
  "with_context context r = (case r of Inl e \<Rightarrow> Err (AnyhowContext context e) | Inr u \<Rightarrow> Ok u)"

definition write_file_with_missing_parent_retry ::
    "('p, 'w) patch_env \<Rightarrow> bool \<Rightarrow> 'p \<Rightarrow> rstr \<Rightarrow> 'w \<Rightarrow> 'w \<times> (unit, anyhow_error) result" where
  "write_file_with_missing_parent_retry env follow path contents w =
     (case write_file env follow path contents w of
        (w, Inr u) \<Rightarrow> (w, Ok u)
      | (w, Inl err) \<Rightarrow>
          if io_kind err = NotFound
          then
            (case (case parent_path env path of
                     None \<Rightarrow> (w, Ok ())
                   | Some parent \<Rightarrow> create_directory env follow parent w) of
               (w, Inl e) \<Rightarrow>
                 (w, Err (AnyhowContext
                    (str ''Failed to create parent directories for '' @ native_path env path) e))
             | (w, Inr _) \<Rightarrow>
                 (case write_file env follow path contents w of
                    (w, r) \<Rightarrow> (w, with_context (write_failed_msg (native_path env path)) r)))
          else (w, Err (AnyhowContext (write_failed_msg (native_path env path)) err)))"

definition derive_new_contents_from_chunks ::
    "('p, 'w) patch_env \<Rightarrow> 'p \<Rightarrow> update_file_chunk list \<Rightarrow> apply_patch_file_update_mode \<Rightarrow> bool \<Rightarrow> 'w \<Rightarrow>
     (rstr \<times> rstr, apply_patch_error) result" where
  "derive_new_contents_from_chunks env path chunks update_mode follow w =
     (case read_file_text env follow path w of
        Inl err \<Rightarrow> Err (IoError (str ''Failed to read file to update '' @ native_path env path) err)
      | Inr original_contents \<Rightarrow>
          try_bind (new_contents_from_chunks (native_path env path) chunks update_mode original_contents)
            (\<lambda>new_contents. Ok (original_contents, new_contents)))"

section \<open>Applying hunks\<close>

text \<open>State of the loop: the world and the delta.\<close>

type_synonym ('p, 'w) patch_state = "'w \<times> 'p applied_patch_delta"

datatype affected_path = Added path_buf | Modified path_buf | Deleted path_buf

definition push_change ::
    "'p \<Rightarrow> 'p applied_patch_file_change \<Rightarrow> 'p applied_patch_delta \<Rightarrow> 'p applied_patch_delta" where
  "push_change path change d = d\<lparr>changes := changes d @ [(path, change)]\<rparr>"

text \<open>\<open>hunk.resolve_path(cwd)\<close>.\<close>

definition resolve_path :: "('p, 'w) patch_env \<Rightarrow> 'p \<Rightarrow> hunk \<Rightarrow> ('p, rstr) result" where
  "resolve_path env cwd h = join_path env cwd (hunk_source_path h)"

definition apply_add ::
    "('p, 'w) patch_env \<Rightarrow> bool \<Rightarrow> 'p \<Rightarrow> rstr \<Rightarrow> ('p, 'w) patch_state \<Rightarrow>
     ('p, 'w) patch_state \<times> (unit, anyhow_error) result" where
  "apply_add env follow path_uri contents st =
     (let (w, d) = st;
          (ex, overwritten_content) = read_optional_file_text_for_delta env follow path_uri w (exact d);
          d = d\<lparr>exact := ex\<rparr>
      in case write_file_with_missing_parent_retry env follow path_uri contents w of
           (w, Inl e) \<Rightarrow> ((w, d\<lparr>exact := False\<rparr>), Err e)
         | (w, Inr _) \<Rightarrow>
             ((w, push_change path_uri (AppliedAdd contents overwritten_content) d), Ok ()))"

definition apply_delete ::
    "('p, 'w) patch_env \<Rightarrow> bool \<Rightarrow> 'p \<Rightarrow> ('p, 'w) patch_state \<Rightarrow>
     ('p, 'w) patch_state \<times> (unit, anyhow_error) result" where
  "apply_delete env follow path_uri st =
     (let (w, d) = st;
          context = str ''Failed to delete file '' @ native_path env path_uri;
          d = d\<lparr>exact := note_existing_path_delta_support env follow path_uri w (exact d)\<rparr>;
          deleted_content =
            (case read_file_text env follow path_uri w of Inr c \<Rightarrow> Some c | Inl _ \<Rightarrow> None);
          d = (if deleted_content = None then d\<lparr>exact := False\<rparr> else d)
      in case ensure_not_directory env follow path_uri w of
           Inl e \<Rightarrow> ((w, d), Err (AnyhowContext context e))
         | Inr _ \<Rightarrow>
             (case remove_file env follow path_uri w of
                (w, Inl e) \<Rightarrow>
                  ((w, d\<lparr>exact := exact d \<and>
                        remove_failure_was_side_effect_free env follow path_uri deleted_content w\<rparr>),
                   Err (AnyhowContext context e))
              | (w, Inr _) \<Rightarrow>
                  ((w, case deleted_content of
                         Some content \<Rightarrow> push_change path_uri (AppliedDelete content) d
                       | None \<Rightarrow> d),
                   Ok ())))"

definition apply_move ::
    "('p, 'w) patch_env \<Rightarrow> bool \<Rightarrow> 'p \<Rightarrow> 'p \<Rightarrow> rstr \<Rightarrow> rstr \<Rightarrow> ('p, 'w) patch_state \<Rightarrow>
     ('p, 'w) patch_state \<times> (unit, anyhow_error) result" where
  "apply_move env follow path_uri dest_uri original_contents new_contents st =
     (let (w, d) = st;
          context = str ''Failed to remove original '' @ native_path env path_uri;
          (ex, overwritten_move_content) =
            read_optional_file_text_for_delta env follow dest_uri w (exact d);
          d = d\<lparr>exact := ex\<rparr>
      in case write_file_with_missing_parent_retry env follow dest_uri new_contents w of
           (w, Inl e) \<Rightarrow> ((w, d\<lparr>exact := False\<rparr>), Err e)
         | (w, Inr _) \<Rightarrow>
             (let dest_write_change_index = length (changes d);
                  d = push_change dest_uri (AppliedAdd new_contents overwritten_move_content) d
              in case ensure_not_directory env follow path_uri w of
                   Inl e \<Rightarrow> ((w, d), Err (AnyhowContext context e))
                 | Inr _ \<Rightarrow>
                     (case remove_file env follow path_uri w of
                        (w, Inl e) \<Rightarrow>
                          ((w, d\<lparr>exact := exact d \<and>
                                remove_failure_was_side_effect_free env follow path_uri
                                  (Some original_contents) w\<rparr>),
                           Err (AnyhowContext context e))
                      | (w, Inr _) \<Rightarrow>
                          ((w, d\<lparr>changes := (changes d)[dest_write_change_index :=
                                (path_uri, AppliedUpdate (Some dest_uri) original_contents
                                   overwritten_move_content new_contents)]\<rparr>),
                           Ok ()))))"

definition apply_in_place ::
    "('p, 'w) patch_env \<Rightarrow> bool \<Rightarrow> 'p \<Rightarrow> rstr \<Rightarrow> rstr \<Rightarrow> ('p, 'w) patch_state \<Rightarrow>
     ('p, 'w) patch_state \<times> (unit, anyhow_error) result" where
  "apply_in_place env follow path_uri original_contents new_contents st =
     (let (w, d) = st in
      case write_file env follow path_uri new_contents w of
        (w, Inl e) \<Rightarrow>
          ((w, d\<lparr>exact := False\<rparr>), Err (AnyhowContext (write_failed_msg (native_path env path_uri)) e))
      | (w, Inr _) \<Rightarrow>
          ((w, push_change path_uri (AppliedUpdate None original_contents None new_contents) d), Ok ()))"

definition apply_update ::
    "('p, 'w) patch_env \<Rightarrow> apply_patch_options \<Rightarrow> 'p \<Rightarrow> 'p \<Rightarrow> path_buf option \<Rightarrow>
     update_file_chunk list \<Rightarrow> ('p, 'w) patch_state \<Rightarrow>
     ('p, 'w) patch_state \<times> (unit, anyhow_error) result" where
  "apply_update env options cwd path_uri move_path chunks st =
     (let (w, d) = st;
          follow = follow_symlinks options;
          d = d\<lparr>exact := note_existing_path_delta_support env follow path_uri w (exact d)\<rparr>
      in case derive_new_contents_from_chunks env path_uri chunks (update_file_mode options) follow w of
           Inl e \<Rightarrow> ((w, d), Err (AnyhowApply e))
         | Inr (original_contents, new_contents) \<Rightarrow>
             (case move_path of
                Some dest \<Rightarrow>
                  (case join_path env cwd dest of
                     Inl e \<Rightarrow> ((w, d), Err (AnyhowPath e))
                   | Inr dest_uri \<Rightarrow>
                       apply_move env follow path_uri dest_uri original_contents new_contents (w, d))
              | None \<Rightarrow> apply_in_place env follow path_uri original_contents new_contents (w, d)))"

text \<open>One iteration of the loop over the hunks.\<close>

definition apply_hunk ::
    "('p, 'w) patch_env \<Rightarrow> apply_patch_options \<Rightarrow> 'p \<Rightarrow> hunk \<Rightarrow> ('p, 'w) patch_state \<Rightarrow>
     ('p, 'w) patch_state \<times> (affected_path, anyhow_error) result" where
  "apply_hunk env options cwd h st =
     (case resolve_path env cwd h of
        Inl e \<Rightarrow> (st, Err (AnyhowPath e))
      | Inr path_uri \<Rightarrow>
          (case h of
             AddFile _ contents \<Rightarrow>
               (case apply_add env (follow_symlinks options) path_uri contents st of
                  (st, r) \<Rightarrow> (st, try_bind r (\<lambda>_. Ok (Added (hunk_path h)))))
           | DeleteFile _ \<Rightarrow>
               (case apply_delete env (follow_symlinks options) path_uri st of
                  (st, r) \<Rightarrow> (st, try_bind r (\<lambda>_. Ok (Deleted (hunk_path h)))))
           | UpdateFile _ move_path chunks \<Rightarrow>
               (case apply_update env options cwd path_uri move_path chunks st of
                  (st, r) \<Rightarrow> (st, try_bind r (\<lambda>_. Ok (Modified (hunk_path h)))))))"

record affected_paths =
  added :: "path_buf list"
  modified :: "path_buf list"
  deleted :: "path_buf list"

definition collect_affected :: "affected_path list \<Rightarrow> affected_paths" where
  "collect_affected as =
     \<lparr>added = List.map_filter (\<lambda>a. case a of Added p \<Rightarrow> Some p | _ \<Rightarrow> None) as,
      modified = List.map_filter (\<lambda>a. case a of Modified p \<Rightarrow> Some p | _ \<Rightarrow> None) as,
      deleted = List.map_filter (\<lambda>a. case a of Deleted p \<Rightarrow> Some p | _ \<Rightarrow> None) as\<rparr>"

definition apply_hunks_to_files ::
    "('p, 'w) patch_env \<Rightarrow> apply_patch_options \<Rightarrow> 'p \<Rightarrow> hunk list \<Rightarrow> ('p, 'w) patch_state \<Rightarrow>
     ('p, 'w) patch_state \<times> (affected_paths, anyhow_error) result" where
  "apply_hunks_to_files env options cwd hs st =
     (if hs = [] then (st, Err (AnyhowMsg (str ''No files were modified.'')))
      else case run_steps (apply_hunk env options cwd) hs st of
        (st, r) \<Rightarrow> (st, try_bind r (\<lambda>as. Ok (collect_affected as))))"

section \<open>Output and top level\<close>

text \<open>A writer is a state \<open>'o\<close> with a fallible \<open>emit\<close>.\<close>

type_synonym 'o writer = "rstr \<Rightarrow> 'o \<Rightarrow> 'o \<times> (unit, io_error) result"

definition summary_lines :: "affected_paths \<Rightarrow> rstr list" where
  "summary_lines affected =
     [str ''Success. Updated the following files:''] @
     map (\<lambda>p. str ''A '' @ p) (added affected) @
     map (\<lambda>p. str ''M '' @ p) (modified affected) @
     map (\<lambda>p. str ''D '' @ p) (deleted affected)"

definition print_summary :: "'o writer \<Rightarrow> affected_paths \<Rightarrow> 'o \<Rightarrow> 'o \<times> (unit, io_error) result" where
  "print_summary emit affected out =
     (case run_steps (\<lambda>line. emit (line @ [LF])) (summary_lines affected) out of
        (out, r) \<Rightarrow> (out, try_bind r (\<lambda>_. Ok ())))"

definition from_io :: "io_error \<Rightarrow> apply_patch_error" where
  "from_io e = IoError (str ''I/O error'') e"

record ('w, 'o) patch_run =
  run_world :: 'w
  run_stdout :: 'o
  run_stderr :: 'o

type_synonym 'p apply_patch_failure = "apply_patch_error \<times> 'p applied_patch_delta"

definition apply_hunks_with_options ::
    "('p, 'w) patch_env \<Rightarrow> 'o writer \<Rightarrow> apply_patch_options \<Rightarrow> 'p \<Rightarrow> hunk list \<Rightarrow> ('w, 'o) patch_run \<Rightarrow>
     ('w, 'o) patch_run \<times> ('p applied_patch_delta, 'p apply_patch_failure) result" where
  "apply_hunks_with_options env emit options cwd hs run =
     (case apply_hunks_to_files env options cwd hs (run_world run, empty_delta) of
        ((w, delta), Inr affected) \<Rightarrow>
          (case print_summary emit affected (run_stdout run) of
             (out, r) \<Rightarrow>
               (run\<lparr>run_world := w, run_stdout := out\<rparr>,
                case r of Inr _ \<Rightarrow> Ok delta | Inl e \<Rightarrow> Err (from_io e, delta)))
      | ((w, delta), Inl error) \<Rightarrow>
          (let msg = anyhow_display error in
           case emit (msg @ [LF]) (run_stderr run) of
             (err, Inl e) \<Rightarrow> (run\<lparr>run_world := w, run_stderr := err\<rparr>, Err (from_io e, delta))
           | (err, Inr _) \<Rightarrow>
               (run\<lparr>run_world := w, run_stderr := err\<rparr>,
                Err (case downcast_io error of
                       Some io \<Rightarrow> from_io io
                     | None \<Rightarrow> IoError msg \<lparr>io_kind = OtherKind, io_message = msg\<rparr>,
                     delta))))"

definition apply_patch_with_options ::
    "('p, 'w) patch_env \<Rightarrow> 'o writer \<Rightarrow> rstr \<Rightarrow> apply_patch_options \<Rightarrow> 'p \<Rightarrow> ('w, 'o) patch_run \<Rightarrow>
     ('w, 'o) patch_run \<times> ('p applied_patch_delta, 'p apply_patch_failure) result" where
  "apply_patch_with_options env emit patch_text options cwd run =
     (case parse_patch patch_text of
        Inr source \<Rightarrow> apply_hunks_with_options env emit options cwd (ap_hunks source) run
      | Inl e \<Rightarrow>
          (let line = (case e of
                 InvalidPatchError message \<Rightarrow> str ''Invalid patch: '' @ message
               | InvalidHunkError message n \<Rightarrow>
                   str ''Invalid patch hunk on line '' @ show_nat n @ str '': '' @ message)
           in case emit (line @ [LF]) (run_stderr run) of
                (err, Inl io) \<Rightarrow> (run\<lparr>run_stderr := err\<rparr>, Err (from_io io, empty_delta))
              | (err, Inr _) \<Rightarrow> (run\<lparr>run_stderr := err\<rparr>, Err (ParseError e, empty_delta))))"

definition apply_patch ::
    "('p, 'w) patch_env \<Rightarrow> 'o writer \<Rightarrow> rstr \<Rightarrow> 'p \<Rightarrow> ('w, 'o) patch_run \<Rightarrow>
     ('w, 'o) patch_run \<times> ('p applied_patch_delta, 'p apply_patch_failure) result" where
  "apply_patch env emit patch_text cwd run =
     apply_patch_with_options env emit patch_text default_options cwd run"

definition apply_hunks ::
    "('p, 'w) patch_env \<Rightarrow> 'o writer \<Rightarrow> hunk list \<Rightarrow> 'p \<Rightarrow> ('w, 'o) patch_run \<Rightarrow>
     ('w, 'o) patch_run \<times> ('p applied_patch_delta, 'p apply_patch_failure) result" where
  "apply_hunks env emit hs cwd run = apply_hunks_with_options env emit default_options cwd hs run"

section \<open>The standalone executable\<close>

text \<open>
  \<open>run_main\<close> of \<open>standalone_executable.rs\<close>: its arguments after \<open>argv[0]\<close> (\<open>None\<close> for one that is not
  UTF-8), what reading standard input gives, the current directory, whether the async runtime starts
  and the mode variable are parameters; the result is the exit code.
\<close>

definition eprintln :: "'o writer \<Rightarrow> rstr \<Rightarrow> ('w, 'o) patch_run \<Rightarrow> ('w, 'o) patch_run" where
  "eprintln emit line run = run\<lparr>run_stderr := fst (emit (line @ [LF]) (run_stderr run))\<rparr>"

definition patch_arg ::
    "'o writer \<Rightarrow> rstr option list \<Rightarrow> (rstr, io_error) result \<Rightarrow> ('w, 'o) patch_run \<Rightarrow>
     (rstr, ('w, 'o) patch_run \<times> nat) result" where
  "patch_arg emit args stdin run =
     (case args of
        Some s # _ \<Rightarrow> Ok s
      | None # _ \<Rightarrow>
          Err (eprintln emit (str ''Error: apply_patch requires a UTF-8 PATCH argument.'') run, 1)
      | [] \<Rightarrow>
          (case stdin of
             Inr buf \<Rightarrow>
               if buf = []
               then Err (eprintln emit (str ''Usage: apply_patch 'PATCH''@ [SQ, LF] @
                      str ''       echo 'PATCH' | apply_patch'') run, 2)
               else Ok buf
           | Inl err \<Rightarrow>
               Err (eprintln emit (str ''Error: Failed to read PATCH from stdin.'' @ [LF] @ io_message err) run, 1)))"

definition run_main ::
    "('p, 'w) patch_env \<Rightarrow> 'o writer \<Rightarrow> rstr option list \<Rightarrow> (rstr, io_error) result \<Rightarrow>
     ('p, io_error) result \<Rightarrow> (unit, io_error) result \<Rightarrow> rstr option \<Rightarrow> ('w, 'o) patch_run \<Rightarrow>
     ('w, 'o) patch_run \<times> nat" where
  "run_main env emit args stdin current_dir runtime mode_var run =
     (case patch_arg emit args stdin run of
        Inl exit \<Rightarrow> exit
      | Inr patch \<Rightarrow>
          if length args > 1
          then (eprintln emit (str ''Error: apply_patch accepts exactly one argument.'') run, 2)
          else case current_dir of
            Inl err \<Rightarrow>
              (eprintln emit (str ''Error: Failed to determine current directory.'' @ [LF] @ io_message err) run, 1)
          | Inr cwd \<Rightarrow>
              (case runtime of
                 Inl err \<Rightarrow>
                   (eprintln emit (str ''Error: Failed to initialize runtime.'' @ [LF] @ io_message err) run, 1)
               | Inr _ \<Rightarrow>
                   (case apply_patch_with_options env emit patch
                       (default_options\<lparr>update_file_mode := apply_patch_file_update_mode_from_env mode_var\<rparr>)
                       cwd run of
                      (run, Inr _) \<Rightarrow> (run, 0)
                    | (run, Inl _) \<Rightarrow> (run, 1))))"

lemmas [patch_eval] =
  default_options_def default_update_mode_def empty_delta_def ensure_not_directory_def
  remove_failure_was_side_effect_free_def note_existing_path_delta_support_def
  read_optional_file_text_for_delta_def write_failed_msg_def with_context_def
  write_file_with_missing_parent_retry_def derive_new_contents_from_chunks_def push_change_def
  resolve_path_def apply_add_def apply_delete_def apply_move_def apply_in_place_def apply_update_def
  apply_hunk_def collect_affected_def apply_hunks_to_files_def summary_lines_def print_summary_def
  from_io_def apply_hunks_with_options_def apply_patch_with_options_def apply_patch_def

section \<open>What the code relies on\<close>

text \<open>The text a path has, as \<open>read_file_text\<close> reports it.\<close>

definition file_text :: "('p, 'w) patch_env \<Rightarrow> bool \<Rightarrow> 'w \<Rightarrow> 'p \<Rightarrow> rstr option" where
  "file_text env follow w p = (case read_file_text env follow p w of Inr t \<Rightarrow> Some t | Inl _ \<Rightarrow> None)"

text \<open>
  The laws of the file system: a successful write sets exactly the text of its path; a write that
  reports a missing parent and the creation of directories leave all texts alone; a successful
  removal removes exactly its path; a failed one at most its path.
\<close>

definition fs_laws :: "('p, 'w) patch_env \<Rightarrow> bool \<Rightarrow> bool" where
  "fs_laws env follow \<longleftrightarrow>
     (\<forall>p t w w'. write_file env follow p t w = (w', Ok ()) \<longrightarrow>
        file_text env follow w' = (file_text env follow w)(p := Some t)) \<and>
     (\<forall>p t w w' e. write_file env follow p t w = (w', Err e) \<and> io_kind e = NotFound \<longrightarrow>
        file_text env follow w' = file_text env follow w) \<and>
     (\<forall>p w. file_text env follow (fst (create_directory env follow p w)) = file_text env follow w) \<and>
     (\<forall>p w w'. remove_file env follow p w = (w', Ok ()) \<longrightarrow>
        file_text env follow w' = (file_text env follow w)(p := None)) \<and>
     (\<forall>p w w' e. remove_file env follow p w = (w', Err e) \<longrightarrow>
        file_text env follow w' = file_text env follow w \<or>
        file_text env follow w' = (file_text env follow w)(p := None))"

lemma fs_lawsD:
  assumes "fs_laws env follow"
  shows "write_file env follow p t w = (w', Ok ()) \<Longrightarrow>
      file_text env follow w' = (file_text env follow w)(p := Some t)"
    and "write_file env follow p t w = (w', Err e) \<Longrightarrow> io_kind e = NotFound \<Longrightarrow>
      file_text env follow w' = file_text env follow w"
    and "create_directory env follow p w = (w', r) \<Longrightarrow> file_text env follow w' = file_text env follow w"
    and "remove_file env follow p w = (w', Ok ()) \<Longrightarrow>
      file_text env follow w' = (file_text env follow w)(p := None)"
    and "remove_file env follow p w = (w', Err e) \<Longrightarrow>
      file_text env follow w' = file_text env follow w \<or>
      file_text env follow w' = (file_text env follow w)(p := None)"
  using assms unfolding fs_laws_def by (blast | metis fst_conv)+

lemma file_text_Ok: "read_file_text env follow p w = Ok t \<Longrightarrow> file_text env follow w p = Some t"
  by (simp add: file_text_def)

lemma retry_write_Ok:
  assumes "fs_laws env follow"
    "write_file_with_missing_parent_retry env follow p t w = (w', Ok u)"
  shows "file_text env follow w' = (file_text env follow w)(p := Some t)"
proof -
  note laws = fs_lawsD[OF assms(1)]
  obtain w1 r1 where w1: "write_file env follow p t w = (w1, r1)" by (cases "write_file env follow p t w")
  show ?thesis
  proof (cases r1)
    case (Inr v)
    with w1 assms(2) laws(1) show ?thesis by (auto simp: write_file_with_missing_parent_retry_def)
  next
    case (Inl e)
    with w1 assms(2) have nf: "io_kind e = NotFound"
      by (auto simp: write_file_with_missing_parent_retry_def split: if_splits)
    note t1 = laws(2)[OF w1[unfolded Inl] nf]
    define c where "c = (case parent_path env p of None \<Rightarrow> (w1, Ok ())
      | Some parent \<Rightarrow> create_directory env follow parent w1)"
    obtain w2 r2 where w2: "c = (w2, r2)" by (cases c)
    then have t2: "file_text env follow w2 = file_text env follow w1"
      using laws(3) by (auto simp: c_def split: option.splits)
    obtain w3 r3 where w3: "write_file env follow p t w2 = (w3, r3)" by (cases "write_file env follow p t w2")
    have eq: "write_file_with_missing_parent_retry env follow p t w =
        (case c of (w, Inl e) \<Rightarrow>
             (w, Err (AnyhowContext
                (str ''Failed to create parent directories for '' @ native_path env p) e))
         | (w, Inr _) \<Rightarrow> (case write_file env follow p t w of
              (w, r) \<Rightarrow> (w, with_context (write_failed_msg (native_path env p)) r)))"
      by (simp add: write_file_with_missing_parent_retry_def w1 Inl nf c_def)
    from assms(2) w2 w3 have "w3 = w'" "r3 = Ok ()"
      unfolding eq by (auto simp: with_context_def split: sum.splits)
    with laws(1)[of p t w2 w'] w3 t1 t2 show ?thesis by simp
  qed
qed

text \<open>A file system in memory, an association list, that satisfies the laws.\<close>

definition memory_env :: "(rstr, (rstr \<times> rstr) list) patch_env" where
  "memory_env =
     \<lparr>join_path = (\<lambda>cwd p. Ok (cwd @ str ''/'' @ p)),
      parent_path = (\<lambda>p. None),
      native_path = (\<lambda>p. p),
      read_file_text = (\<lambda>follow p w. case map_of w p of
         None \<Rightarrow> Err \<lparr>io_kind = NotFound, io_message = str ''not found''\<rparr> | Some t \<Rightarrow> Ok t),
      write_file = (\<lambda>follow p t w. ((p, t) # w, Ok ())),
      get_metadata = (\<lambda>follow p w. case map_of w p of
         None \<Rightarrow> Err \<lparr>io_kind = NotFound, io_message = str ''not found''\<rparr>
       | Some _ \<Rightarrow> Ok \<lparr>is_directory = False, is_file = True, is_symlink = False\<rparr>),
      create_directory = (\<lambda>follow p w. (w, Ok ())),
      remove_file = (\<lambda>follow p w. case map_of w p of
         None \<Rightarrow> (w, Err \<lparr>io_kind = NotFound, io_message = str ''not found''\<rparr>)
       | Some _ \<Rightarrow> (filter (\<lambda>e. fst e \<noteq> p) w, Ok ()))\<rparr>"

lemma memory_env_text: "file_text memory_env follow w = map_of w"
  by (rule ext) (simp add: file_text_def memory_env_def split: option.split)

lemma map_of_filter_neq: "map_of (filter (\<lambda>e. fst e \<noteq> p) w) = (map_of w)(p := None)"
  by (induction w) auto

lemma memory_env_laws: "fs_laws memory_env follow"
  unfolding fs_laws_def memory_env_text
  by (auto simp: memory_env_def map_of_filter_neq split: option.splits)

section \<open>The delta records exactly what was committed\<close>

fun replay_change :: "'p applied_patch_change \<Rightarrow> ('p \<Rightarrow> rstr option) \<Rightarrow> ('p \<Rightarrow> rstr option)" where
  "replay_change (p, AppliedAdd content _) v = v(p := Some content)"
| "replay_change (p, AppliedDelete _) v = v(p := None)"
| "replay_change (p, AppliedUpdate None _ _ new_content) v = v(p := Some new_content)"
| "replay_change (p, AppliedUpdate (Some dest) _ _ new_content) v = v(dest := Some new_content, p := None)"

fun undo_change :: "'p applied_patch_change \<Rightarrow> ('p \<Rightarrow> rstr option) \<Rightarrow> ('p \<Rightarrow> rstr option)" where
  "undo_change (p, AppliedAdd _ overwritten) v = v(p := overwritten)"
| "undo_change (p, AppliedDelete content) v = v(p := Some content)"
| "undo_change (p, AppliedUpdate None old_content _ _) v = v(p := Some old_content)"
| "undo_change (p, AppliedUpdate (Some dest) old_content overwritten _) v =
     v(p := Some old_content, dest := overwritten)"

text \<open>A list of changes that records, change by change, the texts it found.\<close>

fun truthful :: "('p \<Rightarrow> rstr option) \<Rightarrow> 'p applied_patch_change list \<Rightarrow> bool" where
  "truthful v [] \<longleftrightarrow> True"
| "truthful v (c # cs) \<longleftrightarrow> undo_change c (replay_change c v) = v \<and> truthful (replay_change c v) cs"

lemma truthful_append [simp]:
  "truthful v (cs @ ds) \<longleftrightarrow> truthful v cs \<and> truthful (fold replay_change cs v) ds"
  by (induction cs arbitrary: v) auto

lemma truthful_undo: "truthful v cs \<Longrightarrow> foldr undo_change cs (fold replay_change cs v) = v"
  by (induction cs arbitrary: v) auto

text \<open>
  Relative to the texts \<open>v\<^sub>0\<close> before the patch: while the delta is exact, it records every text it
  found, and replaying it on \<open>v\<^sub>0\<close> gives the texts of the world.
\<close>

definition tracks ::
    "('p, 'w) patch_env \<Rightarrow> bool \<Rightarrow> ('p \<Rightarrow> rstr option) \<Rightarrow> ('p, 'w) patch_state \<Rightarrow> bool" where
  "tracks env follow v0 st \<longleftrightarrow>
     (exact (snd st) \<longrightarrow>
        truthful v0 (changes (snd st)) \<and>
        fold replay_change (changes (snd st)) v0 = file_text env follow (fst st))"

lemma tracks_inexact [simp]: "\<not> exact d \<Longrightarrow> tracks env follow v0 (w, d)"
  by (simp add: tracks_def)

lemma tracks_same:
  "tracks env follow v0 (w, d) \<Longrightarrow> file_text env follow w' = file_text env follow w \<Longrightarrow>
   changes d' = changes d \<Longrightarrow> (exact d' \<Longrightarrow> exact d) \<Longrightarrow> tracks env follow v0 (w', d')"
  by (simp add: tracks_def)

lemma tracks_push:
  assumes "tracks env follow v0 (w, d)" "changes d' = changes d @ [c]" "exact d' \<Longrightarrow> exact d"
    "exact d' \<Longrightarrow> file_text env follow w' = replay_change c (file_text env follow w)"
    "exact d' \<Longrightarrow> undo_change c (file_text env follow w') = file_text env follow w"
  shows "tracks env follow v0 (w', d')"
  using assms by (auto simp: tracks_def)

lemma note_existing_exact:
  "note_existing_path_delta_support env follow p w ex \<Longrightarrow> ex"
  by (auto simp: note_existing_path_delta_support_def split: sum.splits if_splits)

lemma read_optional_exact:
  assumes "read_optional_file_text_for_delta env follow p w ex = (ex', ov)" "ex'"
  shows "ex \<and> ov = file_text env follow w p"
  using assms note_existing_exact[of env follow p w ex]
  by (auto simp: read_optional_file_text_for_delta_def file_text_def Let_def split: sum.splits if_splits)

lemma apply_add_tracks:
  assumes "fs_laws env follow" "tracks env follow v0 st"
  shows "tracks env follow v0 (fst (apply_add env follow p t st))"
proof -
  obtain w d where st: "st = (w, d)" by (cases st)
  obtain ex ov where ro: "read_optional_file_text_for_delta env follow p w (exact d) = (ex, ov)"
    by (cases "read_optional_file_text_for_delta env follow p w (exact d)")
  obtain w' r where wr: "write_file_with_missing_parent_retry env follow p t w = (w', r)"
    by (cases "write_file_with_missing_parent_retry env follow p t w")
  show ?thesis
  proof (cases r)
    case (Inl e)
    with st ro wr show ?thesis by (simp add: apply_add_def)
  next
    case (Inr u)
    have "tracks env follow v0 (w', push_change p (AppliedAdd t ov) (d\<lparr>exact := ex\<rparr>))"
    proof (rule tracks_push[where c = "(p, AppliedAdd t ov)"])
      show "tracks env follow v0 (w, d)" using assms(2) st by simp
    qed (use read_optional_exact[OF ro] retry_write_Ok[OF assms(1) wr[unfolded Inr]]
        in \<open>simp_all add: push_change_def\<close>)
    with st ro wr Inr show ?thesis by (simp add: apply_add_def)
  qed
qed

lemma remove_Err_tracks:
  assumes "fs_laws env follow" "tracks env follow v0 (w, d)" "remove_file env follow p w = (w', Err e)"
    "exact d \<Longrightarrow> c \<noteq> None \<Longrightarrow> file_text env follow w p \<noteq> None"
  shows "tracks env follow v0
    (w', d\<lparr>exact := exact d \<and> remove_failure_was_side_effect_free env follow p c w'\<rparr>)"
proof (cases "exact d \<and> remove_failure_was_side_effect_free env follow p c w'")
  case True
  then obtain t where "file_text env follow w' p = Some t" "c \<noteq> None"
    by (auto simp: remove_failure_was_side_effect_free_def file_text_def split: option.splits)
  with fs_lawsD(5)[OF assms(1,3)] True have "file_text env follow w' = file_text env follow w" by auto
  with assms(2) show ?thesis by (rule tracks_same) simp_all
next
  case False
  then show ?thesis by (intro tracks_inexact) simp
qed

lemma apply_delete_tracks:
  assumes "fs_laws env follow" "tracks env follow v0 st"
  shows "tracks env follow v0 (fst (apply_delete env follow p st))"
proof -
  obtain w d where st: "st = (w, d)" by (cases st)
  define c where "c = (case read_file_text env follow p w of Inr c \<Rightarrow> Some c | Inl _ \<Rightarrow> None)"
  have c: "c = file_text env follow w p" by (simp add: c_def file_text_def)
  define d1 where "d1 = d\<lparr>exact := note_existing_path_delta_support env follow p w (exact d)\<rparr>"
  define d2 where "d2 = (if c = None then d1\<lparr>exact := False\<rparr> else d1)"
  have d2: "changes d2 = changes d" "exact d2 \<Longrightarrow> exact d" "exact d2 \<Longrightarrow> c \<noteq> None"
    using note_existing_exact[of env follow p w "exact d"] by (auto simp: d2_def d1_def split: if_splits)
  have "tracks env follow v0 (w, d)" using assms(2) st by simp
  then have t: "tracks env follow v0 (w, d2)" using d2 by (auto intro: tracks_same)
  note eq = apply_delete_def[of env follow p st, unfolded st Let_def case_prod_conv,
      folded c_def d1_def, folded d2_def]
  show ?thesis
  proof (cases "ensure_not_directory env follow p w")
    case (Inl e)
    with t show ?thesis by (simp add: eq st)
  next
    case (Inr u)
    obtain w' r where rm: "remove_file env follow p w = (w', r)" by (cases "remove_file env follow p w")
    show ?thesis
    proof (cases r)
      case ok: (Inr v)
      with rm have v: "file_text env follow w' = (file_text env follow w)(p := None)"
        using fs_lawsD(4)[OF assms(1)] by simp
      show ?thesis
      proof (cases c)
        case None
        with d2 have "\<not> exact d2" by auto
        with Inr rm ok None show ?thesis by (simp add: eq st)
      next
        case (Some t)
        have "tracks env follow v0 (w', push_change p (AppliedDelete t) d2)"
          by (rule tracks_push[OF \<open>tracks env follow v0 (w, d2)\<close>, where c = "(p, AppliedDelete t)"])
            (use v c Some in \<open>simp_all add: push_change_def fun_upd_idem\<close>)
        with Inr rm ok Some show ?thesis by (simp add: eq st)
      qed
    next
      case (Inl e)
      with remove_Err_tracks[OF assms(1) t rm[unfolded Inl], of c] c Inr rm show ?thesis
        by (simp add: eq st)
    qed
  qed
qed

lemma apply_move_tracks:
  assumes "fs_laws env follow" "tracks env follow v0 st" "file_text env follow (fst st) p = Some orig"
  shows "tracks env follow v0 (fst (apply_move env follow p dest orig new st))"
proof -
  obtain w d where st: "st = (w, d)" by (cases st)
  have t: "tracks env follow v0 (w, d)" and orig: "file_text env follow w p = Some orig"
    using assms(2,3) st by simp_all
  obtain ex ov where ro: "read_optional_file_text_for_delta env follow dest w (exact d) = (ex, ov)"
    by (cases "read_optional_file_text_for_delta env follow dest w (exact d)")
  note ro' = read_optional_exact[OF ro]
  obtain w1 r1 where wr: "write_file_with_missing_parent_retry env follow dest new w = (w1, r1)"
    by (cases "write_file_with_missing_parent_retry env follow dest new w")
  define d1 where "d1 = push_change dest (AppliedAdd new ov) (d\<lparr>exact := ex\<rparr>)"
  show ?thesis
  proof (cases r1)
    case (Inl e)
    with st ro wr show ?thesis by (simp add: apply_move_def)
  next
    case w1: (Inr u)
    note v1 = retry_write_Ok[OF assms(1) wr[unfolded w1]]
    have t1: "tracks env follow v0 (w1, d1)"
      by (rule tracks_push[OF t, where c = "(dest, AppliedAdd new ov)"])
        (use v1 ro' in \<open>simp_all add: d1_def push_change_def\<close>)
    note eq = apply_move_def[of env follow p dest orig new st, unfolded st Let_def case_prod_conv ro wr w1,
        simplified, folded d1_def]
    show ?thesis
    proof (cases "ensure_not_directory env follow p w1")
      case (Inl e)
      with t1 show ?thesis by (simp add: eq st)
    next
      case nd: (Inr x)
      obtain w2 r2 where rm: "remove_file env follow p w1 = (w2, r2)" by (cases "remove_file env follow p w1")
      show ?thesis
      proof (cases r2)
        case (Inl e)
        with remove_Err_tracks[OF assms(1) t1 rm[unfolded Inl], of "Some orig"] v1 orig nd rm
        show ?thesis by (simp add: eq st)
      next
        case (Inr y)
        with rm have v2: "file_text env follow w2 = (file_text env follow w1)(p := None)"
          using fs_lawsD(4)[OF assms(1)] by simp
        have "tracks env follow v0 (w2, d1\<lparr>changes := (changes d1)[length (changes d) :=
            (p, AppliedUpdate (Some dest) orig ov new)]\<rparr>)"
          by (rule tracks_push[OF t, where c = "(p, AppliedUpdate (Some dest) orig ov new)"])
            (use v1 v2 ro' orig in \<open>auto simp: d1_def push_change_def fun_eq_iff\<close>)
        with nd rm Inr show ?thesis by (simp add: eq st)
      qed
    qed
  qed
qed

lemma apply_in_place_tracks:
  assumes "fs_laws env follow" "tracks env follow v0 st" "file_text env follow (fst st) p = Some orig"
  shows "tracks env follow v0 (fst (apply_in_place env follow p orig new st))"
proof -
  obtain w d where st: "st = (w, d)" by (cases st)
  have t: "tracks env follow v0 (w, d)" and orig: "file_text env follow w p = Some orig"
    using assms(2,3) st by simp_all
  obtain w' r where wr: "write_file env follow p new w = (w', r)" by (cases "write_file env follow p new w")
  show ?thesis
  proof (cases r)
    case (Inl e)
    with st wr show ?thesis by (simp add: apply_in_place_def)
  next
    case (Inr u)
    have "tracks env follow v0 (w', push_change p (AppliedUpdate None orig None new) d)"
      by (rule tracks_push[OF t, where c = "(p, AppliedUpdate None orig None new)"])
        (use fs_lawsD(1)[OF assms(1)] wr Inr orig in \<open>auto simp: push_change_def fun_eq_iff\<close>)
    with st wr Inr show ?thesis by (simp add: apply_in_place_def)
  qed
qed

lemma derive_OkD:
  "derive_new_contents_from_chunks env p chunks m follow w = Ok (orig, new) \<Longrightarrow>
   file_text env follow w p = Some orig \<and> new_contents_from_chunks (native_path env p) chunks m orig = Ok new"
  by (auto simp: derive_new_contents_from_chunks_def file_text_def try_bind_Inr_iff split: sum.splits)

lemma apply_update_tracks:
  assumes "fs_laws env (follow_symlinks options)" "tracks env (follow_symlinks options) v0 st"
  shows "tracks env (follow_symlinks options) v0 (fst (apply_update env options cwd p mv chunks st))"
proof -
  let ?f = "follow_symlinks options"
  obtain w d where st: "st = (w, d)" by (cases st)
  define d1 where "d1 = d\<lparr>exact := note_existing_path_delta_support env ?f p w (exact d)\<rparr>"
  have t: "tracks env ?f v0 (w, d1)"
    using assms(2) note_existing_exact[of env ?f p w "exact d"] by (auto simp: st d1_def intro: tracks_same)
  note eq = apply_update_def[of env options cwd p mv chunks st, unfolded st Let_def case_prod_conv,
      folded d1_def]
  show ?thesis
  proof (cases "derive_new_contents_from_chunks env p chunks (update_file_mode options) ?f w")
    case (Inl e)
    with t show ?thesis by (simp add: eq st)
  next
    case (Inr x)
    obtain orig new where x: "x = (orig, new)" by (cases x)
    with Inr have orig: "file_text env ?f (fst (w, d1)) p = Some orig" by (auto dest: derive_OkD)
    show ?thesis
    proof (cases mv)
      case None
      with Inr x apply_in_place_tracks[OF assms(1) t orig] show ?thesis unfolding st eq by simp
    next
      case (Some dest)
      with Inr x t apply_move_tracks[OF assms(1) t orig] show ?thesis
        unfolding st eq by (cases "join_path env cwd dest") simp_all
    qed
  qed
qed

lemma apply_hunk_fst:
  "fst (apply_hunk env options cwd h st) =
     (case resolve_path env cwd h of
        Inl _ \<Rightarrow> st
      | Inr p \<Rightarrow>
          (case h of
             AddFile _ contents \<Rightarrow> fst (apply_add env (follow_symlinks options) p contents st)
           | DeleteFile _ \<Rightarrow> fst (apply_delete env (follow_symlinks options) p st)
           | UpdateFile _ mv chunks \<Rightarrow> fst (apply_update env options cwd p mv chunks st)))"
  by (simp add: apply_hunk_def case_prod_beta split: sum.split hunk.split)

lemma apply_hunk_tracks:
  assumes "fs_laws env (follow_symlinks options)" "tracks env (follow_symlinks options) v0 st"
  shows "tracks env (follow_symlinks options) v0 (fst (apply_hunk env options cwd h st))"
  using assms
  by (auto simp: apply_hunk_fst apply_add_tracks apply_delete_tracks apply_update_tracks
      split: sum.split hunk.split)

interpretation tracking: fallible_machine "apply_hunk env options cwd"
    "\<lambda>st. fs_laws env (follow_symlinks options) \<longrightarrow> tracks env (follow_symlinks options) v0 st"
    "\<lambda>_. True" "\<lambda>_. True"
  for env :: "('p, 'w) patch_env" and options cwd v0
  by unfold_locales (simp_all add: apply_hunk_tracks)

lemma apply_hunks_to_files_fst:
  "fst (apply_hunks_to_files env options cwd hs st) = fst (run_steps (apply_hunk env options cwd) hs st)"
  by (simp add: apply_hunks_to_files_def case_prod_beta)

lemma apply_hunks_tracks:
  assumes "fs_laws env (follow_symlinks options)"
    "apply_hunks_to_files env options cwd hs (w, empty_delta) = ((w', d), r)"
  shows "tracks env (follow_symlinks options) (file_text env (follow_symlinks options) w) (w', d)"
proof -
  let ?f = "follow_symlinks options"
  have "tracks env ?f (file_text env ?f w) (w, empty_delta)"
    by (simp add: tracks_def empty_delta_def)
  then show ?thesis
    using tracking.run_inv[of env options "file_text env ?f w" "(w, empty_delta)" hs cwd] assms
      apply_hunks_to_files_fst[of env options cwd hs "(w, empty_delta)"]
    by (simp add: list_all_iff)
qed

definition reported_delta :: "('p applied_patch_delta, 'p apply_patch_failure) result \<Rightarrow> 'p applied_patch_delta" where
  "reported_delta r = (case r of Inr d \<Rightarrow> d | Inl (_, d) \<Rightarrow> d)"

lemma apply_patch_tracks:
  assumes "fs_laws env (follow_symlinks options)"
    "apply_patch_with_options env emit patch_text options cwd run = (run', r)"
  shows "tracks env (follow_symlinks options) (file_text env (follow_symlinks options) (run_world run))
    (run_world run', reported_delta r)"
proof (cases "parse_patch patch_text")
  case (Inl e)
  with assms(2) have "run_world run' = run_world run" "reported_delta r = empty_delta"
    by (auto simp: apply_patch_with_options_def reported_delta_def Let_def split: prod.splits sum.splits)
  then show ?thesis by (simp add: tracks_def empty_delta_def)
next
  case (Inr args)
  obtain w' d res where h: "apply_hunks_to_files env options cwd (ap_hunks args)
      (run_world run, empty_delta) = ((w', d), res)"
    by (metis surj_pair)
  with Inr assms(2) have "run_world run' = w'" "reported_delta r = d"
    by (auto simp: apply_patch_with_options_def apply_hunks_with_options_def reported_delta_def Let_def
        split: prod.splits sum.splits)
  with apply_hunks_tracks[OF assms(1) h] show ?thesis by simp
qed


section \<open>Refinement of an abstract patch\<close>

text \<open>What a hunk means on texts alone.\<close>

definition resolved :: "('p, rstr) result \<Rightarrow> 'p option" where
  "resolved r = (case r of Inr p \<Rightarrow> Some p | Inl _ \<Rightarrow> None)"

fun spec_hunk ::
    "('p, 'w) patch_env \<Rightarrow> apply_patch_file_update_mode \<Rightarrow> 'p \<Rightarrow> hunk \<Rightarrow> ('p \<Rightarrow> rstr option) \<Rightarrow>
     ('p \<Rightarrow> rstr option) option" where
  "spec_hunk env m cwd (AddFile path contents) v =
     map_option (\<lambda>p. v(p := Some contents)) (resolved (join_path env cwd path))"
| "spec_hunk env m cwd (DeleteFile path) v =
     map_option (\<lambda>p. v(p := None)) (resolved (join_path env cwd path))"
| "spec_hunk env m cwd (UpdateFile path move_path chunks) v =
     Option.bind (resolved (join_path env cwd path)) (\<lambda>p.
     Option.bind (v p) (\<lambda>old.
       case new_contents_from_chunks (native_path env p) chunks m old of
         Inl _ \<Rightarrow> None
       | Inr new \<Rightarrow>
           (case move_path of
              None \<Rightarrow> Some (v(p := Some new))
            | Some dest \<Rightarrow>
                map_option (\<lambda>q. v(q := Some new, p := None)) (resolved (join_path env cwd dest)))))"

fun spec_hunks ::
    "('p, 'w) patch_env \<Rightarrow> apply_patch_file_update_mode \<Rightarrow> 'p \<Rightarrow> hunk list \<Rightarrow> ('p \<Rightarrow> rstr option) \<Rightarrow>
     ('p \<Rightarrow> rstr option) option" where
  "spec_hunks env m cwd [] v = Some v"
| "spec_hunks env m cwd (h # hs) v = Option.bind (spec_hunk env m cwd h v) (spec_hunks env m cwd hs)"

fun affected_by :: "hunk \<Rightarrow> affected_path" where
  "affected_by (AddFile path contents) = Added path"
| "affected_by (DeleteFile path) = Deleted path"
| "affected_by (UpdateFile path mv chunks) = Modified (hunk_path (UpdateFile path mv chunks))"

lemma apply_add_Ok:
  assumes "fs_laws env follow" "apply_add env follow p t st = (st', Ok u)"
  shows "file_text env follow (fst st') = (file_text env follow (fst st))(p := Some t)"
  using assms by (auto simp: apply_add_def Let_def split: prod.splits sum.splits dest: retry_write_Ok)

lemma apply_delete_Ok:
  assumes "fs_laws env follow" "apply_delete env follow p st = (st', Ok u)"
  shows "file_text env follow (fst st') = (file_text env follow (fst st))(p := None)"
  using assms fs_lawsD(4)[OF assms(1)]
  by (auto simp: apply_delete_def Let_def split: prod.splits sum.splits)

lemma apply_move_Ok:
  assumes "fs_laws env follow" "apply_move env follow p dest orig new st = (st', Ok u)"
  shows "file_text env follow (fst st') = (file_text env follow (fst st))(dest := Some new, p := None)"
  using assms fs_lawsD(4)[OF assms(1)]
  by (auto simp: apply_move_def Let_def split: prod.splits sum.splits dest: retry_write_Ok)

lemma apply_in_place_Ok:
  assumes "fs_laws env follow" "apply_in_place env follow p orig new st = (st', Ok u)"
  shows "file_text env follow (fst st') = (file_text env follow (fst st))(p := Some new)"
  using assms fs_lawsD(1)[OF assms(1)]
  by (auto simp: apply_in_place_def Let_def split: prod.splits sum.splits)

lemma apply_update_Ok:
  assumes "fs_laws env (follow_symlinks options)"
    "apply_update env options cwd p mv chunks st = (st', Ok u)"
  obtains old new where "file_text env (follow_symlinks options) (fst st) p = Some old"
    "new_contents_from_chunks (native_path env p) chunks (update_file_mode options) old = Ok new"
    "mv = None \<Longrightarrow> file_text env (follow_symlinks options) (fst st') =
       (file_text env (follow_symlinks options) (fst st))(p := Some new)"
    "\<And>dest. mv = Some dest \<Longrightarrow> \<exists>q. join_path env cwd dest = Ok q \<and>
       file_text env (follow_symlinks options) (fst st') =
       (file_text env (follow_symlinks options) (fst st))(q := Some new, p := None)"
proof -
  obtain w d where st: "st = (w, d)" by (cases st)
  let ?f = "follow_symlinks options"
  from assms(2) obtain old new where
    n: "derive_new_contents_from_chunks env p chunks (update_file_mode options) ?f w = Ok (old, new)"
    by (auto simp: apply_update_def st Let_def split: sum.splits)
  show thesis
  proof (rule that)
    show "file_text env ?f (fst st) p = Some old"
      "new_contents_from_chunks (native_path env p) chunks (update_file_mode options) old = Ok new"
      using derive_OkD[OF n] st by simp_all
    show "file_text env ?f (fst st') = (file_text env ?f (fst st))(p := Some new)" if "mv = None"
      using that assms(2) n
      by (auto simp: apply_update_def st Let_def dest!: apply_in_place_Ok[OF assms(1)])
    show "\<exists>q. join_path env cwd dest = Ok q \<and>
        file_text env ?f (fst st') = (file_text env ?f (fst st))(q := Some new, p := None)"
      if "mv = Some dest" for dest
      using that assms(2) n
      by (auto simp: apply_update_def st Let_def dest!: apply_move_Ok[OF assms(1)] split: sum.splits)
  qed
qed

lemma apply_hunk_refines:
  assumes "fs_laws env (follow_symlinks options)" "apply_hunk env options cwd h st = (st', Ok a)"
  shows "spec_hunk env (update_file_mode options) cwd h (file_text env (follow_symlinks options) (fst st))
      = Some (file_text env (follow_symlinks options) (fst st')) \<and> a = affected_by h"
proof -
  from assms(2) obtain p where p: "resolve_path env cwd h = Ok p"
    by (auto simp: apply_hunk_def split: sum.splits)
  show ?thesis
  proof (cases h)
    case (AddFile path contents)
    with assms(2) p show ?thesis
      by (auto simp: apply_hunk_def resolve_path_def resolved_def try_bind_Inr_iff
          dest!: apply_add_Ok[OF assms(1)] split: prod.splits)
  next
    case (DeleteFile path)
    with assms(2) p show ?thesis
      by (auto simp: apply_hunk_def resolve_path_def resolved_def try_bind_Inr_iff
          dest!: apply_delete_Ok[OF assms(1)] split: prod.splits)
  next
    case (UpdateFile path mv chunks)
    with assms(2) p obtain u where u: "apply_update env options cwd p mv chunks st = (st', Ok u)"
      "a = affected_by h"
      by (auto simp: apply_hunk_def try_bind_Inr_iff split: prod.splits)
    from assms(1) u(1) show ?thesis
    proof (cases rule: apply_update_Ok)
      case (1 old new)
      with UpdateFile p u(2) show ?thesis
        by (cases mv) (auto simp: resolve_path_def resolved_def)
    qed
  qed
qed

lemma run_hunks_refine:
  assumes "fs_laws env (follow_symlinks options)"
  shows "run_steps (apply_hunk env options cwd) hs st = (st', Ok as) \<Longrightarrow>
    spec_hunks env (update_file_mode options) cwd hs (file_text env (follow_symlinks options) (fst st))
      = Some (file_text env (follow_symlinks options) (fst st')) \<and> as = map affected_by hs"
proof (induction hs arbitrary: st as)
  case (Cons h hs)
  from Cons.prems show ?case
  proof (cases rule: run_steps_Cons_OkE)
    case (1 s' b bs')
    with Cons.IH[OF 1(2)] apply_hunk_refines[OF assms 1(1)] show ?thesis by simp
  qed
qed simp


section \<open>Errors\<close>

lemma apply_update_no_panic:
  assumes "list_all chunk_wf chunks"
  shows "snd (apply_update env options cwd p mv chunks st) \<noteq> Err (AnyhowApply Panicked)"
proof -
  obtain w d where st: "st = (w, d)" by (cases st)
  let ?f = "follow_symlinks options"
  have derive: "derive_new_contents_from_chunks env p chunks (update_file_mode options) ?f w \<noteq> Err Panicked"
    using new_contents_reported[OF assms, of "native_path env p" "update_file_mode options"]
    by (auto simp: derive_new_contents_from_chunks_def reported_def try_bind_def split: sum.splits)
  have wr: "snd (write_file_with_missing_parent_retry env ?f q t w) \<noteq> Err (AnyhowApply e)" for q t w e
    by (auto simp: write_file_with_missing_parent_retry_def with_context_def split: prod.splits sum.splits)
  have move: "snd (apply_move env ?f p q old new (w, d)) \<noteq> Err (AnyhowApply e)" for q old new w d e
    using wr[of q new w e]
    by (auto simp: apply_move_def Let_def split: prod.splits sum.splits)
  have in_place: "snd (apply_in_place env ?f p old new (w, d)) \<noteq> Err (AnyhowApply e)" for old new w d e
    by (auto simp: apply_in_place_def split: prod.splits sum.splits)
  show ?thesis
    using derive move in_place
    by (auto simp: apply_update_def st Let_def split: sum.splits option.splits)
qed

lemma apply_hunk_no_panic:
  assumes "hunk_complete h" "snd (apply_hunk env options cwd h st) = Err e"
  shows "e \<noteq> AnyhowApply Panicked"
proof (cases h)
  case (UpdateFile path mv chunks)
  with assms(1) have "list_all chunk_wf chunks" by (auto simp: list_all_iff chunk_complete_def)
  with UpdateFile assms(2) apply_update_no_panic[of chunks env options cwd _ mv st] show ?thesis
    by (auto simp: apply_hunk_def try_bind_def split: sum.splits prod.splits) (metis snd_conv)
next
  case (AddFile path contents)
  have "snd (apply_add env f p contents st) \<noteq> Err (AnyhowApply e)" for f p e
    by (auto simp: apply_add_def write_file_with_missing_parent_retry_def with_context_def Let_def
        split: prod.splits sum.splits)
  with AddFile assms(2) show ?thesis
    by (auto simp: apply_hunk_def try_bind_def split: sum.splits prod.splits) (metis snd_conv)
next
  case (DeleteFile path)
  with assms(2) show ?thesis
    by (auto simp: apply_hunk_def apply_delete_def Let_def try_bind_def split: sum.splits prod.splits)
qed

interpretation panic_free: fallible_machine "apply_hunk env options cwd" "\<lambda>_. True" hunk_complete
    "\<lambda>e. e \<noteq> AnyhowApply Panicked"
  for env :: "('p, 'w) patch_env" and options cwd
  by unfold_locales (simp_all add: apply_hunk_no_panic)

text \<open>
  C11. Applying a parsed patch never panics: whatever the files contain, in both update modes, none
  of the slices, subtractions and insertions of the updater goes out of range and its ordering
  assertion holds, so every failure is a reported error.
\<close>

theorem parsed_patch_no_panic:
  "parse_patch patch_text = Ok args \<Longrightarrow>
   snd (apply_hunks_to_files env options cwd (ap_hunks args) st) \<noteq> Err (AnyhowApply Panicked)"
proof -
  assume "parse_patch patch_text = Ok args"
  then have "list_all hunk_complete (ap_hunks args)"
    unfolding parse_patch_def by (rule parse_patch_text_complete)
  from panic_free.run_error[OF _ this, of env options cwd st] show ?thesis
    by (cases "run_steps (apply_hunk env options cwd) (ap_hunks args) st")
      (auto simp: apply_hunks_to_files_def try_bind_def split: sum.splits)
qed

text \<open>
  An update hunk that moves a file onto itself destroys it: the new contents are written to the
  destination and then the source, the same file, is removed; the application reports success
  and lists the file as modified.
\<close>

lemma move_onto_itself_deletes:
  assumes "fs_laws env (follow_symlinks options)"
    "join_path env cwd path = Ok p" "join_path env cwd dest = Ok p"
    "apply_hunks_to_files env options cwd [UpdateFile path (Some dest) chunks] (w, d) = ((w', d'), Ok affected)"
  shows "file_text env (follow_symlinks options) w p \<noteq> None \<and>
    file_text env (follow_symlinks options) w' p = None \<and> modified affected = [dest]"
proof -
  from assms(4) obtain as where
    "run_steps (apply_hunk env options cwd) [UpdateFile path (Some dest) chunks] (w, d) = ((w', d'), Ok as)"
    "affected = collect_affected as"
    by (auto simp: apply_hunks_to_files_def try_bind_Inr_iff split: prod.splits simp del: run_steps.simps)
  note r = run_hunks_refine[OF assms(1) this(1)] this(2)
  let ?v = "file_text env (follow_symlinks options) w"
  from r have "modified affected = [dest]" by (simp add: collect_affected_def map_filter_simps)
  moreover from r have spec: "spec_hunk env (update_file_mode options) cwd (UpdateFile path (Some dest) chunks) ?v =
      Some (file_text env (follow_symlinks options) w')"
    by (simp add: bind_eq_Some_conv)
  then obtain old where "?v p = Some old" using assms(2) by (auto simp: resolved_def bind_eq_Some_conv)
  moreover from this spec assms(2,3) have "file_text env (follow_symlinks options) w' = ?v(p := None)"
    by (cases "new_contents_from_chunks (native_path env p) chunks (update_file_mode options) old")
      (simp_all add: resolved_def)
  ultimately show ?thesis by simp
qed

section \<open>Example\<close>

text \<open>One patch on the file system in memory: it updates \<open>f\<close>, moves it to \<open>g\<close> and adds \<open>h\<close>.\<close>

definition example_patch :: rstr where
  "example_patch = join [LF]
     [str ''*** Begin Patch'', str ''*** Update File: f'', str ''*** Move to: g'', str ''@@'', str ''-b'',
      str ''+c'', str ''*** Add File: h'', str ''+x'', str ''*** End Patch'']"

definition example_run :: "((rstr \<times> rstr) list, rstr) patch_run" where
  "example_run = \<lparr>run_world = [(str ''d/f'', str ''a'' @ [LF] @ str ''b'' @ [LF])], run_stdout = [], run_stderr = []\<rparr>"

definition buffer_writer :: "rstr writer" where
  "buffer_writer text out = (out @ text, Ok ())"

lemma example_parse:
  "parse_patch example_patch = Ok \<lparr>ap_patch = example_patch,
     ap_hunks = [UpdateFile (str ''f'') (Some (str ''g''))
       [default_chunk\<lparr>old_lines := [str ''b''], new_lines := [str ''c'']\<rparr>], AddFile (str ''h'') (str ''x'' @ [LF])],
     ap_workdir = None, ap_environment_id = None\<rparr>"
  by (simp add: example_patch_def patch_eval str_eval vec_eval)

lemma example_apply:
  "apply_hunks_to_files memory_env default_options (str ''d'')
     [UpdateFile (str ''f'') (Some (str ''g'')) [default_chunk\<lparr>old_lines := [str ''b''], new_lines := [str ''c'']\<rparr>],
      AddFile (str ''h'') (str ''x'' @ [LF])] (run_world example_run, empty_delta) =
   (([(str ''d/h'', str ''x'' @ [LF]), (str ''d/g'', str ''a'' @ [LF] @ str ''c'' @ [LF])],
     \<lparr>changes =
       [(str ''d/f'', AppliedUpdate (Some (str ''d/g'')) (str ''a'' @ [LF] @ str ''b'' @ [LF]) None
           (str ''a'' @ [LF] @ str ''c'' @ [LF])),
        (str ''d/h'', AppliedAdd (str ''x'' @ [LF]) None)],
      exact = True\<rparr>),
    Ok \<lparr>added = [str ''h''], modified = [str ''g''], deleted = []\<rparr>)"
  by (simp add: memory_env_def example_run_def map_filter_simps patch_eval str_eval vec_eval)

abbreviation example_delta :: "rstr applied_patch_delta" where
  "example_delta \<equiv>
     \<lparr>changes =
       [(str ''d/f'', AppliedUpdate (Some (str ''d/g'')) (str ''a'' @ [LF] @ str ''b'' @ [LF]) None
           (str ''a'' @ [LF] @ str ''c'' @ [LF])),
        (str ''d/h'', AppliedAdd (str ''x'' @ [LF]) None)],
      exact = True\<rparr>"



theorem parsed_patch_no_panic_witness:
  "snd (apply_hunks_to_files memory_env default_options (str ''d'')
     [UpdateFile (str ''f'') (Some (str ''g'')) [default_chunk\<lparr>old_lines := [str ''b''], new_lines := [str ''c'']\<rparr>],
      AddFile (str ''h'') (str ''x'' @ [LF])] ([], empty_delta)) \<noteq> Err (AnyhowApply Panicked)"
  using parsed_patch_no_panic[OF example_parse, of memory_env default_options "str ''d''" "([], empty_delta)"]
  by simp

lemma move_onto_itself_deletes_example:
  "map_of [(str ''d/f'', str ''a'' @ [LF])] (str ''d/f'') \<noteq> None \<and>
   snd (apply_hunks_to_files memory_env default_options (str ''d'')
     [UpdateFile (str ''f'') (Some (str ''f'')) [default_chunk\<lparr>old_lines := [str ''a''], new_lines := [str ''b'']\<rparr>]]
     ([(str ''d/f'', str ''a'' @ [LF])], empty_delta)) =
     Ok \<lparr>added = [], modified = [str ''f''], deleted = []\<rparr> \<and>
   fst (fst (apply_hunks_to_files memory_env default_options (str ''d'')
     [UpdateFile (str ''f'') (Some (str ''f'')) [default_chunk\<lparr>old_lines := [str ''a''], new_lines := [str ''b'']\<rparr>]]
     ([(str ''d/f'', str ''a'' @ [LF])], empty_delta))) = []"
proof -
  let ?h = "UpdateFile (str ''f'') (Some (str ''f'')) [default_chunk\<lparr>old_lines := [str ''a''], new_lines := [str ''b'']\<rparr>]"
  obtain d where run: "apply_hunks_to_files memory_env default_options (str ''d'') [?h]
      ([(str ''d/f'', str ''a'' @ [LF])], empty_delta) =
      (([], d), Ok \<lparr>added = [], modified = [str ''f''], deleted = []\<rparr>)"
    by (simp add: memory_env_def map_filter_simps patch_eval str_eval vec_eval)
  have "join_path memory_env (str ''d'') (str ''f'') = Ok (str ''d/f'')"
    by (simp add: memory_env_def str_eval)
  from move_onto_itself_deletes[OF memory_env_laws this this run] run show ?thesis
    by (simp add: memory_env_text)
qed

end
