(* ===== verification/Patch_Invocation.thy ===== *)
theory Patch_Invocation
  imports Apply_Patch
begin

text \<open>
  Recognising an \<open>apply_patch\<close> invocation and verifying it before it is run
  (\<open>codex-rs/apply-patch/src/invocation.rs\<close>, and the diff wrappers of \<open>file_update.rs\<close>). The
  Tree-sitter extraction of a heredoc (\<open>extract_apply_patch_from_bash\<close>), the text diff and the path
  convention of a working directory are parameters.
\<close>

section \<open>Recognising an invocation\<close>

definition APPLY_PATCH_COMMANDS :: "rstr list" where
  "APPLY_PATCH_COMMANDS = [str ''apply_patch'', str ''applypatch'']"

datatype apply_patch_shell = Unix | PowerShell | Cmd

datatype extract_heredoc_error =
    CommandDidNotStartWithApplyPatch
  | FailedToLoadBashGrammar
  | HeredocNotUtf8
  | FailedToParsePatchIntoAst
  | FailedToFindHeredocBody

datatype maybe_apply_patch =
    Body apply_patch_args
  | ShellParseError extract_heredoc_error
  | PatchParseError parse_error
  | NotApplyPatch

datatype path_convention = Posix | Windows

fun split_where :: "(rchar \<Rightarrow> bool) \<Rightarrow> rstr \<Rightarrow> rstr list" where
  "split_where P [] = [[]]"
| "split_where P (d # s) =
     (if P d then [] # split_where P s
      else (case split_where P s of [] \<Rightarrow> [[d]] | p # ps \<Rightarrow> (d # p) # ps))"

definition path_segments :: "path_convention \<Rightarrow> rstr \<Rightarrow> rstr list" where
  "path_segments convention path =
     split_where (\<lambda>c. case convention of Posix \<Rightarrow> c = 47 | Windows \<Rightarrow> c = 47 \<or> c = 92) path"

definition eq_ignore_ascii_case :: "rstr \<Rightarrow> rstr \<Rightarrow> bool" where
  "eq_ignore_ascii_case a b = (to_ascii_lowercase a = to_ascii_lowercase b)"

definition classify_shell_name :: "rstr \<Rightarrow> path_convention \<Rightarrow> rstr option" where
  "classify_shell_name shell convention =
     map_option
       (\<lambda>basename.
         let stem = (case rsplit_once_char 46 basename of
               Some (stem, _) \<Rightarrow> if stem \<noteq> [] then stem else basename
             | None \<Rightarrow> basename)
         in to_ascii_lowercase stem)
       (last_opt (path_segments convention shell))"

definition classify_shell :: "rstr \<Rightarrow> rstr \<Rightarrow> path_convention \<Rightarrow> apply_patch_shell option" where
  "classify_shell shell flag convention =
     Option.bind (classify_shell_name shell convention) (\<lambda>name.
       if name \<in> {str ''bash'', str ''zsh'', str ''sh''} \<and> flag \<in> {str ''-lc'', str ''-c''} then Some Unix
       else if name \<in> {str ''pwsh'', str ''powershell''} \<and> eq_ignore_ascii_case flag (str ''-command'')
       then Some PowerShell
       else if name = str ''cmd'' \<and> eq_ignore_ascii_case flag (str ''/c'') then Some Cmd
       else None)"

definition can_skip_flag :: "rstr \<Rightarrow> rstr \<Rightarrow> path_convention \<Rightarrow> bool" where
  "can_skip_flag shell flag convention =
     (case classify_shell_name shell convention of
        None \<Rightarrow> False
      | Some name \<Rightarrow>
          name \<in> {str ''pwsh'', str ''powershell''} \<and> eq_ignore_ascii_case flag (str ''-noprofile''))"

definition parse_shell_script ::
    "rstr list \<Rightarrow> path_convention option \<Rightarrow> (apply_patch_shell \<times> rstr) option" where
  "parse_shell_script argv cwd_convention =
     Option.bind cwd_convention (\<lambda>convention.
       case argv of
         [shell, flag, script] \<Rightarrow>
           map_option (\<lambda>shell_type. (shell_type, script)) (classify_shell shell flag convention)
       | [shell, skip_flag, flag, script] \<Rightarrow>
           if \<not> can_skip_flag shell skip_flag convention then None
           else map_option (\<lambda>shell_type. (shell_type, script)) (classify_shell shell flag convention)
       | _ \<Rightarrow> None)"

text \<open>All three shells use the bash extraction.\<close>

type_synonym heredoc_extractor = "rstr \<Rightarrow> (rstr \<times> rstr option, extract_heredoc_error) result"

definition extract_apply_patch_from_shell ::
    "heredoc_extractor \<Rightarrow> apply_patch_shell \<Rightarrow> heredoc_extractor" where
  "extract_apply_patch_from_shell extract_bash shell script =
     (case shell of Unix \<Rightarrow> extract_bash script | PowerShell \<Rightarrow> extract_bash script
      | Cmd \<Rightarrow> extract_bash script)"

definition parsed_body :: "rstr \<Rightarrow> (apply_patch_args \<Rightarrow> apply_patch_args) \<Rightarrow> maybe_apply_patch" where
  "parsed_body body f =
     (case parse_patch body of Inr source \<Rightarrow> Body (f source) | Inl e \<Rightarrow> PatchParseError e)"

definition maybe_parse_apply_patch ::
    "heredoc_extractor \<Rightarrow> rstr list \<Rightarrow> path_convention option \<Rightarrow> maybe_apply_patch" where
  "maybe_parse_apply_patch extract_bash argv cwd_convention =
     (if length argv = 2 \<and> hd argv \<in> set APPLY_PATCH_COMMANDS then parsed_body (argv ! 1) id
      else case parse_shell_script argv cwd_convention of
        None \<Rightarrow> NotApplyPatch
      | Some (shell, script) \<Rightarrow>
          (case extract_apply_patch_from_shell extract_bash shell script of
             Inr (body, workdir) \<Rightarrow> parsed_body body (\<lambda>source. source\<lparr>ap_workdir := workdir\<rparr>)
           | Inl e \<Rightarrow>
               if e = CommandDidNotStartWithApplyPatch then NotApplyPatch else ShellParseError e))"

section \<open>Verification\<close>

datatype 'p apply_patch_file_change =
    ChangeAdd rstr
  | ChangeDelete rstr
  | ChangeUpdate rstr "'p option" rstr  \<comment> \<open>unified diff, move path, new content\<close>

record 'p apply_patch_action =
  action_changes :: "'p \<Rightarrow> 'p apply_patch_file_change option"
  action_mode :: apply_patch_file_update_mode
  action_patch :: rstr
  action_cwd :: 'p

record apply_patch_file_update =
  unified_diff :: rstr
  original_content :: rstr
  content :: rstr

text \<open>The diff takes the context radius and the two texts.\<close>

type_synonym text_diff = "nat \<Rightarrow> rstr \<Rightarrow> rstr \<Rightarrow> rstr"

definition unified_diff_from_chunks_with_context_and_mode ::
    "('p, 'w) patch_env \<Rightarrow> text_diff \<Rightarrow> 'p \<Rightarrow> update_file_chunk list \<Rightarrow> nat \<Rightarrow> apply_patch_file_update_mode \<Rightarrow> 'w \<Rightarrow>
     (apply_patch_file_update, apply_patch_error) result" where
  "unified_diff_from_chunks_with_context_and_mode env diff path chunks context m w =
     try_bind (derive_new_contents_from_chunks env path chunks m True w)
       (\<lambda>(original_contents, new_contents).
         Ok \<lparr>unified_diff = diff context original_contents new_contents,
             original_content = original_contents, content = new_contents\<rparr>)"

definition unified_diff_from_chunks_with_mode ::
    "('p, 'w) patch_env \<Rightarrow> text_diff \<Rightarrow> 'p \<Rightarrow> update_file_chunk list \<Rightarrow> apply_patch_file_update_mode \<Rightarrow> 'w \<Rightarrow>
     (apply_patch_file_update, apply_patch_error) result" where
  "unified_diff_from_chunks_with_mode env diff path chunks m w =
     unified_diff_from_chunks_with_context_and_mode env diff path chunks 1 m w"

definition unified_diff_from_chunks ::
    "('p, 'w) patch_env \<Rightarrow> text_diff \<Rightarrow> 'p \<Rightarrow> update_file_chunk list \<Rightarrow> 'w \<Rightarrow>
     (apply_patch_file_update, apply_patch_error) result" where
  "unified_diff_from_chunks env diff path chunks w =
     unified_diff_from_chunks_with_mode env diff path chunks default_update_mode w"

definition unified_diff_from_chunks_with_context ::
    "('p, 'w) patch_env \<Rightarrow> text_diff \<Rightarrow> 'p \<Rightarrow> update_file_chunk list \<Rightarrow> nat \<Rightarrow> 'w \<Rightarrow>
     (apply_patch_file_update, apply_patch_error) result" where
  "unified_diff_from_chunks_with_context env diff path chunks context w =
     unified_diff_from_chunks_with_context_and_mode env diff path chunks context default_update_mode w"

definition path_result :: "('p, rstr) result \<Rightarrow> ('p, apply_patch_error) result" where
  "path_result r = (case r of Inl e \<Rightarrow> Err (PathUriError e) | Inr p \<Rightarrow> Ok p)"

definition multiple_operations_msg :: "rstr \<Rightarrow> rstr" where
  "multiple_operations_msg path = str ''multiple operations target '' @ path"

text \<open>One iteration of the loop over the hunks: the change of one hunk.\<close>

definition verify_change ::
    "('p, 'w) patch_env \<Rightarrow> text_diff \<Rightarrow> apply_patch_file_update_mode \<Rightarrow> 'p \<Rightarrow> 'w \<Rightarrow> 'p \<Rightarrow> hunk \<Rightarrow>
     ('p apply_patch_file_change, apply_patch_error) result" where
  "verify_change env diff m cwd w path h =
     (case h of
        AddFile _ contents \<Rightarrow> Ok (ChangeAdd contents)
      | DeleteFile _ \<Rightarrow>
          (case read_file_text env True path w of
             Inl source \<Rightarrow> Err (IoError (str ''Failed to read '' @ native_path env path) source)
           | Inr text \<Rightarrow> Ok (ChangeDelete text))
      | UpdateFile _ move_path chunks \<Rightarrow>
          try_bind (unified_diff_from_chunks_with_mode env diff path chunks m w) (\<lambda>update.
            case move_path of
              None \<Rightarrow> Ok (ChangeUpdate (unified_diff update) None (content update))
            | Some dest \<Rightarrow>
                try_bind (path_result (join_path env cwd dest)) (\<lambda>dest_uri.
                  Ok (ChangeUpdate (unified_diff update) (Some dest_uri) (content update)))))"

fun verify_hunks ::
    "('p, 'w) patch_env \<Rightarrow> text_diff \<Rightarrow> apply_patch_file_update_mode \<Rightarrow> 'p \<Rightarrow> 'w \<Rightarrow> hunk list \<Rightarrow>
     ('p \<Rightarrow> 'p apply_patch_file_change option) \<Rightarrow>
     ('p \<Rightarrow> 'p apply_patch_file_change option, apply_patch_error) result" where
  "verify_hunks env diff m cwd w [] ch = Ok ch"
| "verify_hunks env diff m cwd w (h # hs) ch =
     try_bind (path_result (resolve_path env cwd h)) (\<lambda>path.
       if ch path \<noteq> None
       then Err (ParseError (InvalidPatchError (multiple_operations_msg (native_path env path))))
       else try_bind (verify_change env diff m cwd w path h) (\<lambda>change.
         verify_hunks env diff m cwd w hs (ch(path := Some change))))"

definition try_verify_apply_patch_args ::
    "('p, 'w) patch_env \<Rightarrow> text_diff \<Rightarrow> apply_patch_args \<Rightarrow> 'p \<Rightarrow> apply_patch_file_update_mode \<Rightarrow> 'w \<Rightarrow>
     ('p apply_patch_action, apply_patch_error) result" where
  "try_verify_apply_patch_args env diff args cwd m w =
     try_bind (case ap_workdir args of None \<Rightarrow> Ok cwd | Some dir \<Rightarrow> path_result (join_path env cwd dir))
       (\<lambda>effective_cwd.
         try_bind (verify_hunks env diff m effective_cwd w (ap_hunks args) (\<lambda>_. None)) (\<lambda>ch.
           Ok \<lparr>action_changes = ch, action_mode = m, action_patch = ap_patch args,
               action_cwd = effective_cwd\<rparr>))"

datatype 'p maybe_apply_patch_verified =
    VerifiedBody "'p apply_patch_action"
  | VerifiedShellParseError extract_heredoc_error
  | CorrectnessError apply_patch_error
  | VerifiedNotApplyPatch

definition verify_apply_patch_args_with_mode ::
    "('p, 'w) patch_env \<Rightarrow> text_diff \<Rightarrow> apply_patch_args \<Rightarrow> 'p \<Rightarrow> apply_patch_file_update_mode \<Rightarrow> 'w \<Rightarrow>
     'p maybe_apply_patch_verified" where
  "verify_apply_patch_args_with_mode env diff args cwd m w =
     (case try_verify_apply_patch_args env diff args cwd m w of
        Inr action \<Rightarrow> VerifiedBody action
      | Inl err \<Rightarrow> CorrectnessError err)"

definition is_patch :: "rstr \<Rightarrow> bool" where
  "is_patch s = (case parse_patch s of Inr _ \<Rightarrow> True | Inl _ \<Rightarrow> False)"

definition maybe_parse_apply_patch_verified_with_mode ::
    "('p, 'w) patch_env \<Rightarrow> text_diff \<Rightarrow> heredoc_extractor \<Rightarrow> ('p \<Rightarrow> path_convention option) \<Rightarrow> rstr list \<Rightarrow> 'p \<Rightarrow>
     apply_patch_file_update_mode \<Rightarrow> 'w \<Rightarrow> 'p maybe_apply_patch_verified" where
  "maybe_parse_apply_patch_verified_with_mode env diff extract_bash convention_of argv cwd m w =
     (if length argv = 1 \<and> is_patch (hd argv) then CorrectnessError ImplicitInvocation
      else if (case parse_shell_script argv (convention_of cwd) of
                 Some (_, script) \<Rightarrow> is_patch script | None \<Rightarrow> False)
      then CorrectnessError ImplicitInvocation
      else case maybe_parse_apply_patch extract_bash argv (convention_of cwd) of
        Body args \<Rightarrow> verify_apply_patch_args_with_mode env diff args cwd m w
      | ShellParseError e \<Rightarrow> VerifiedShellParseError e
      | PatchParseError e \<Rightarrow> CorrectnessError (ParseError e)
      | NotApplyPatch \<Rightarrow> VerifiedNotApplyPatch)"

definition maybe_parse_apply_patch_verified ::
    "('p, 'w) patch_env \<Rightarrow> text_diff \<Rightarrow> heredoc_extractor \<Rightarrow> ('p \<Rightarrow> path_convention option) \<Rightarrow> rstr list \<Rightarrow> 'p \<Rightarrow> 'w \<Rightarrow>
     'p maybe_apply_patch_verified" where
  "maybe_parse_apply_patch_verified env diff extract_bash convention_of argv cwd w =
     maybe_parse_apply_patch_verified_with_mode env diff extract_bash convention_of argv cwd default_update_mode w"

definition verify_apply_patch_args ::
    "('p, 'w) patch_env \<Rightarrow> text_diff \<Rightarrow> apply_patch_args \<Rightarrow> 'p \<Rightarrow> 'w \<Rightarrow> 'p maybe_apply_patch_verified" where
  "verify_apply_patch_args env diff args cwd w =
     verify_apply_patch_args_with_mode env diff args cwd default_update_mode w"

lemmas [patch_eval] =
  path_segments_def eq_ignore_ascii_case_def classify_shell_name_def classify_shell_def
  can_skip_flag_def parse_shell_script_def extract_apply_patch_from_shell_def parsed_body_def
  maybe_parse_apply_patch_def APPLY_PATCH_COMMANDS_def
  unified_diff_from_chunks_with_context_and_mode_def unified_diff_from_chunks_with_mode_def
  path_result_def multiple_operations_msg_def verify_change_def try_verify_apply_patch_args_def
  verify_apply_patch_args_with_mode_def is_patch_def maybe_parse_apply_patch_verified_with_mode_def

section \<open>What is approved is what is applied\<close>

definition move_dests :: "('p \<Rightarrow> 'p apply_patch_file_change option) \<Rightarrow> 'p set" where
  "move_dests ch = {q. \<exists>p diff new. ch p = Some (ChangeUpdate diff (Some q) new)}"

text \<open>No file is moved onto a file the patch names, nor two files onto one.\<close>

definition moves_disjoint :: "('p \<Rightarrow> 'p apply_patch_file_change option) \<Rightarrow> bool" where
  "moves_disjoint ch \<longleftrightarrow>
     (\<forall>q \<in> move_dests ch. ch q = None) \<and>
     (\<forall>p p' q diff diff' new new'. ch p = Some (ChangeUpdate diff (Some q) new) \<longrightarrow>
        ch p' = Some (ChangeUpdate diff' (Some q) new') \<longrightarrow> p = p')"

text \<open>The texts \<open>v'\<close> are those the changes announce, starting from \<open>v\<close>.\<close>

fun announced_change ::
    "('p \<Rightarrow> 'p apply_patch_file_change option) \<Rightarrow> ('p \<Rightarrow> rstr option) \<Rightarrow> ('p \<Rightarrow> rstr option) \<Rightarrow> 'p \<Rightarrow>
     'p apply_patch_file_change option \<Rightarrow> bool" where
  "announced_change ch v v' p (Some (ChangeAdd text)) = (v' p = Some text)"
| "announced_change ch v v' p (Some (ChangeDelete _)) = (v' p = None)"
| "announced_change ch v v' p (Some (ChangeUpdate _ None new)) = (v' p = Some new)"
| "announced_change ch v v' p (Some (ChangeUpdate _ (Some q) new)) = (v' p = None \<and> v' q = Some new)"
| "announced_change ch v v' p None = (p \<notin> move_dests ch \<longrightarrow> v' p = v p)"

definition announced ::
    "('p \<Rightarrow> 'p apply_patch_file_change option) \<Rightarrow> ('p \<Rightarrow> rstr option) \<Rightarrow> ('p \<Rightarrow> rstr option) \<Rightarrow> bool" where
  "announced ch v v' \<longleftrightarrow> (\<forall>p. announced_change ch v v' p (ch p))"

lemma verify_hunks_extends:
  "verify_hunks env diff m cwd w hs ch = Ok ch' \<Longrightarrow> ch p = Some c \<Longrightarrow> ch' p = Some c"
proof (induction hs arbitrary: ch)
  case (Cons h hs)
  from Cons.prems(1) obtain q change where q: "ch q = None"
    "verify_hunks env diff m cwd w hs (ch(q := Some change)) = Ok ch'"
    by (auto simp: try_bind_Inr_iff split: if_splits)
  with Cons.IH[OF q(2)] Cons.prems(2) show ?case by (cases "p = q") auto
qed simp

fun change_effect :: "'p \<Rightarrow> 'p apply_patch_file_change \<Rightarrow> ('p \<Rightarrow> rstr option) \<Rightarrow> ('p \<Rightarrow> rstr option)" where
  "change_effect p (ChangeAdd text) v = v(p := Some text)"
| "change_effect p (ChangeDelete _) v = v(p := None)"
| "change_effect p (ChangeUpdate _ None new) v = v(p := Some new)"
| "change_effect p (ChangeUpdate _ (Some q) new) v = v(q := Some new, p := None)"

lemma moves_disjointD: "moves_disjoint ch \<Longrightarrow> q \<in> move_dests ch \<Longrightarrow> ch q = None"
  by (simp add: moves_disjoint_def)

lemma announced_None: "announced ch v v' \<Longrightarrow> ch p = None \<Longrightarrow> p \<notin> move_dests ch \<Longrightarrow> v' p = v p"
  unfolding announced_def by (metis announced_change.simps(5))

lemma path_result_Ok [simp]: "path_result r = Ok p \<longleftrightarrow> r = Ok p"
  by (simp add: path_result_def split: sum.split)

lemma move_dests_upd:
  assumes "ch p = None" "q \<in> move_dests ch"
  shows "q \<in> move_dests (ch(p := Some c))"
proof -
  from assms(2) obtain y d n where "ch y = Some (ChangeUpdate d (Some q) n)"
    unfolding move_dests_def by blast
  with assms(1) have "(ch(p := Some c)) y = Some (ChangeUpdate d (Some q) n)" by auto
  then show ?thesis unfolding move_dests_def by blast
qed

lemma announced_step:
  assumes "announced ch v v1" "ch p = None" "moves_disjoint (ch(p := Some c))"
  shows "announced (ch(p := Some c)) v (change_effect p c v1)"
  unfolding announced_def
proof
  fix x
  let ?ch = "ch(p := Some c)"
  have free: "?ch q = None" if "q \<in> move_dests ?ch" for q
    using moves_disjointD[OF assms(3) that] .
  have inj: "y = y'" if "?ch y = Some (ChangeUpdate d1 (Some q) n1)" "?ch y' = Some (ChangeUpdate d2 (Some q) n2)"
    for y y' d1 d2 q n1 n2
    using assms(3) that unfolding moves_disjoint_def by blast
  have dest: "q \<in> move_dests ?ch" if "?ch y = Some (ChangeUpdate d (Some q) n)" for y d q n
    using that unfolding move_dests_def by blast
  show "announced_change ?ch v (change_effect p c v1) x (?ch x)"
  proof (cases "x = p")
    case True
    have "q \<noteq> p" if "c = ChangeUpdate d (Some q) n" for d q n
      using free[OF dest[of p d q n]] that by auto
    with True show ?thesis by (cases "(p, c, v1)" rule: change_effect.cases) auto
  next
    case False
    have keep: "change_effect p c v1 y = v1 y" if "y \<noteq> p" "\<And>d q n. c = ChangeUpdate d (Some q) n \<Longrightarrow> y \<noteq> q" for y
      using that by (cases "(p, c, v1)" rule: change_effect.cases) auto
    from assms(1) have old: "announced_change ch v v1 x (ch x)" by (simp add: announced_def)
    show ?thesis
    proof (cases "ch x")
      case None
      have "change_effect p c v1 x = v x" if x: "x \<notin> move_dests ?ch"
      proof -
        have "x \<noteq> q" if "c = ChangeUpdate d (Some q) n" for d q n
          using x that dest[of p d q n] by auto
        then have "change_effect p c v1 x = v1 x" using keep[OF False] by blast
        moreover have "x \<notin> move_dests ch" using x move_dests_upd[of ch p x c] assms(2) by blast
        ultimately show ?thesis using old None by simp
      qed
      with None False show ?thesis by simp
    next
      case (Some cx)
      have nq: "x \<noteq> q" if "c = ChangeUpdate d (Some q) n" for d q n
        using free[OF dest[of p d q n]] that Some False by auto
      have "change_effect p c v1 y = v1 y" if "cx = ChangeUpdate d' (Some y) n'" for d' y n'
      proof (rule keep)
        show "y \<noteq> p" using free[OF dest[of x d' y n']] that Some False by auto
        show "y \<noteq> q" if "c = ChangeUpdate d (Some q) n" for d q n
          using inj[of p d q n x d' n'] that \<open>cx = ChangeUpdate d' (Some y) n'\<close> Some False by auto
      qed
      with old Some False keep[OF False nq] show ?thesis
        by (cases "(ch, v, v1, x, Some cx)" rule: announced_change.cases) auto
    qed
  qed
qed

lemma moves_disjoint_submap:
  assumes "moves_disjoint ch'" "\<And>p c. ch p = Some c \<Longrightarrow> ch' p = Some c"
  shows "moves_disjoint ch"
proof -
  have "ch q = None" if "q \<in> move_dests ch" for q
  proof -
    from that assms(2) have "q \<in> move_dests ch'" unfolding move_dests_def by blast
    with assms have "ch' q = None" by (simp add: moves_disjoint_def)
    with assms(2) show ?thesis by (cases "ch q") auto
  qed
  moreover have "p = p'" if "ch p = Some (ChangeUpdate d (Some q) n)" "ch p' = Some (ChangeUpdate d' (Some q) n')"
    for p p' q d d' n n'
    using assms(1) assms(2)[OF that(1)] assms(2)[OF that(2)] unfolding moves_disjoint_def by blast
  ultimately show ?thesis unfolding moves_disjoint_def by blast
qed

text \<open>A verified change predicts the effect of its hunk wherever the file is still as it was.\<close>

lemma verify_change_spec:
  assumes "verify_change env diff m cwd w p h = Ok c" "resolve_path env cwd h = Ok p"
    "v p = file_text env True w p"
    "spec_hunk env m cwd h v = Some v'"
  shows "v' = change_effect p c v"
  using assms
proof (cases h)
  case (UpdateFile path mv chunks)
  with assms(1) obtain old new where
    d: "derive_new_contents_from_chunks env p chunks m True w = Ok (old, new)"
    by (auto simp: verify_change_def try_bind_Inr_iff unified_diff_from_chunks_with_mode_def
        unified_diff_from_chunks_with_context_and_mode_def)
  from derive_OkD[OF d] d UpdateFile assms show ?thesis
    by (cases mv)
      (auto simp: verify_change_def try_bind_Inr_iff unified_diff_from_chunks_with_mode_def path_result_def
        unified_diff_from_chunks_with_context_and_mode_def resolve_path_def resolved_def split: sum.splits)
qed (auto simp: verify_change_def resolve_path_def resolved_def split: sum.splits)

lemma verify_hunks_announced:
  assumes "moves_disjoint ch'"
  shows "verify_hunks env diff m cwd w hs ch = Ok ch' \<Longrightarrow> announced ch (file_text env True w) v \<Longrightarrow>
    spec_hunks env m cwd hs v = Some v' \<Longrightarrow> announced ch' (file_text env True w) v'"
proof (induction hs arbitrary: ch v)
  case (Cons h hs)
  from Cons.prems(1) obtain p c where p: "resolve_path env cwd h = Ok p" "ch p = None"
    "verify_change env diff m cwd w p h = Ok c"
    "verify_hunks env diff m cwd w hs (ch(p := Some c)) = Ok ch'"
    by (auto simp: try_bind_Inr_iff split: if_splits)
  from Cons.prems(3) obtain v1 where v1: "spec_hunk env m cwd h v = Some v1"
    "spec_hunks env m cwd hs v1 = Some v'" by (auto simp: bind_eq_Some_conv)
  have sub: "ch' q = Some x" if "(ch(p := Some c)) q = Some x" for q x
    using verify_hunks_extends[OF p(4) that] .
  then have dis: "moves_disjoint (ch(p := Some c))" using moves_disjoint_submap[OF assms] by blast
  have "p \<notin> move_dests ch"
    using moves_disjointD[OF dis, of p] move_dests_upd[of ch p p c] p(2) by auto
  with Cons.prems(2) p(2) have "v p = file_text env True w p"
    using announced_None[OF Cons.prems(2) p(2)] by simp
  from verify_change_spec[OF p(3,1) this v1(1)] announced_step[OF Cons.prems(2) p(2) dis]
  have "announced (ch(p := Some c)) (file_text env True w) v1" by simp
  from Cons.IH[OF p(4) this v1(2)] show ?case .
qed simp

text \<open>
  C12. What is verified is what gets applied: if a patch passes verification and its application
  succeeds on the same files in the same mode, every file ends with exactly the contents announced
  in the verified action (added, deleted, rewritten or moved), and every file the action does not
  mention is unchanged; provided no file is moved onto a file the patch also names and no two
  files are moved onto one.
\<close>

theorem verified_is_applied:
  assumes "fs_laws env True"
    "try_verify_apply_patch_args env diff args cwd m w = Ok action"
    "moves_disjoint (action_changes action)"
    "apply_hunks_to_files env \<lparr>update_file_mode = m, follow_symlinks = True\<rparr> (action_cwd action)
       (ap_hunks args) (w, d) = ((w', d'), Ok affected)"
  shows "announced (action_changes action) (file_text env True w) (file_text env True w')"
proof -
  from assms(2) have v: "verify_hunks env diff m (action_cwd action) w (ap_hunks args) (\<lambda>_. None) =
      Ok (action_changes action)"
    by (auto simp: try_verify_apply_patch_args_def try_bind_Inr_iff)
  from assms(4) obtain as where
    "run_steps (apply_hunk env \<lparr>update_file_mode = m, follow_symlinks = True\<rparr> (action_cwd action))
       (ap_hunks args) (w, d) = ((w', d'), Ok as)"
    by (auto simp: apply_hunks_to_files_def try_bind_Inr_iff split: if_splits prod.splits)
  with run_hunks_refine[of env "\<lparr>update_file_mode = m, follow_symlinks = True\<rparr>"] assms(1)
  have s: "spec_hunks env m (action_cwd action) (ap_hunks args) (file_text env True w) =
      Some (file_text env True w')"
    by fastforce
  have "announced (\<lambda>_. None) (file_text env True w) (file_text env True w)"
    by (simp add: announced_def)
  from verify_hunks_announced[OF assms(3) v this s] show ?thesis .
qed

abbreviation example_args :: apply_patch_args where
  "example_args \<equiv> \<lparr>ap_patch = example_patch,
     ap_hunks = [UpdateFile (str ''f'') (Some (str ''g''))
       [default_chunk\<lparr>old_lines := [str ''b''], new_lines := [str ''c'']\<rparr>], AddFile (str ''h'') (str ''x'' @ [LF])],
     ap_workdir = None, ap_environment_id = None\<rparr>"

theorem verified_is_applied_witness:
  "announced
     [str ''d/f'' \<mapsto> ChangeUpdate (str ''diff'') (Some (str ''d/g'')) (str ''a'' @ [LF] @ str ''c'' @ [LF]),
      str ''d/h'' \<mapsto> ChangeAdd (str ''x'' @ [LF])]
     (map_of [(str ''d/f'', str ''a'' @ [LF] @ str ''b'' @ [LF])])
     (map_of [(str ''d/h'', str ''x'' @ [LF]), (str ''d/g'', str ''a'' @ [LF] @ str ''c'' @ [LF])])"
proof -
  let ?ch = "[str ''d/f'' \<mapsto> ChangeUpdate (str ''diff'') (Some (str ''d/g'')) (str ''a'' @ [LF] @ str ''c'' @ [LF]),
      str ''d/h'' \<mapsto> ChangeAdd (str ''x'' @ [LF])]"
  have ver: "try_verify_apply_patch_args memory_env (\<lambda>_ _ _. str ''diff'') example_args (str ''d'') NormalizeToLf
      (run_world example_run) = Ok \<lparr>action_changes = ?ch, action_mode = NormalizeToLf,
        action_patch = example_patch, action_cwd = str ''d''\<rparr>"
    by (simp add: memory_env_def example_run_def patch_eval str_eval vec_eval fun_upd_def cong: if_cong)
  have "moves_disjoint ?ch"
    by (auto simp: moves_disjoint_def move_dests_def str_eval split: if_splits)
  from verified_is_applied[OF memory_env_laws ver, simplified,
      OF this[simplified] example_apply[unfolded default_options_def default_update_mode_def]]
  show ?thesis by (simp add: memory_env_text example_run_def)
qed

text \<open>
  The proviso matters: verification only compares the source paths of the hunks. Moving \<open>a\<close> onto
  \<open>b\<close> and then updating \<open>b\<close> is verified against the old text of \<open>b\<close>; applying it overwrites that
  text, removes \<open>a\<close> and then fails on the second hunk.
\<close>

lemma clobbering_move:
  fixes hs w
  defines "hs \<equiv> [UpdateFile (str ''a'') (Some (str ''b'')) [default_chunk\<lparr>old_lines := [str ''x''], new_lines := [str ''y'']\<rparr>],
      UpdateFile (str ''b'') None [default_chunk\<lparr>old_lines := [str ''z''], new_lines := [str ''w'']\<rparr>]]"
    and "w \<equiv> [(str ''d/a'', str ''x'' @ [LF]), (str ''d/b'', str ''z'' @ [LF])]"
  shows "\<exists>ch. verify_hunks memory_env (\<lambda>_ _ _. []) NormalizeToLf (str ''d'') w hs (\<lambda>_. None) = Ok ch"
    and "\<exists>w' d e. apply_hunks_to_files memory_env default_options (str ''d'') hs (w, empty_delta) = ((w', d), Err e) \<and>
      map_of w' (str ''d/a'') = None \<and> map_of w' (str ''d/b'') = Some (str ''y'' @ [LF])"
  unfolding hs_def w_def
  by (simp_all add: memory_env_def map_filter_simps patch_eval str_eval vec_eval)

end
