(* ===== verification/Stream_Text.thy ===== *)
theory Stream_Text
  imports Rust_Str
begin

text \<open>
  Streamed-text parsers (\<open>codex-rs/utils/stream-parser/src/stream_text.rs\<close>): the chunk type, the
  contract of the trait \<open>StreamTextParser\<close> as a locale, and what every parser that keeps it
  guarantees to its clients: the way the stream is cut into chunks does not matter.
\<close>

record 'a stream_text_chunk =
  visible_text :: rstr
  extracted :: "'a list"

definition empty_chunk :: "'a stream_text_chunk" where
  "empty_chunk = \<lparr>visible_text = [], extracted = []\<rparr>"

definition stream_chunk_is_empty :: "'a stream_text_chunk \<Rightarrow> bool" where
  "stream_chunk_is_empty c = (visible_text c = [] \<and> extracted c = [])"

definition append_chunk :: "'a stream_text_chunk \<Rightarrow> 'a stream_text_chunk \<Rightarrow> 'a stream_text_chunk" where
  "append_chunk c d = \<lparr>visible_text = visible_text c @ visible_text d, extracted = extracted c @ extracted d\<rparr>"

lemma append_chunk_sel [simp]:
  "visible_text (append_chunk c d) = visible_text c @ visible_text d"
  "extracted (append_chunk c d) = extracted c @ extracted d"
  by (simp_all add: append_chunk_def)

lemma empty_chunk_sel [simp]:
  "visible_text empty_chunk = []"
  "extracted empty_chunk = []"
  by (simp_all add: empty_chunk_def)

text \<open>Feeding a sequence of chunks, and a whole stream with its final flush.\<close>

fun push_all ::
    "('s \<Rightarrow> rstr \<Rightarrow> 's \<times> 'a stream_text_chunk) \<Rightarrow> 's \<Rightarrow> rstr list \<Rightarrow> 's \<times> 'a stream_text_chunk" where
  "push_all push s [] = (s, empty_chunk)"
| "push_all push s (c # cs) =
     (let (s1, out1) = push s c; (s2, out2) = push_all push s1 cs in (s2, append_chunk out1 out2))"

definition run_stream ::
    "('s \<Rightarrow> rstr \<Rightarrow> 's \<times> 'a stream_text_chunk) \<Rightarrow> ('s \<Rightarrow> 's \<times> 'a stream_text_chunk) \<Rightarrow>
     's \<Rightarrow> rstr list \<Rightarrow> 'a stream_text_chunk" where
  "run_stream push fin s cs =
     (let (s1, out1) = push_all push s cs; (_, out2) = fin s1 in append_chunk out1 out2)"

lemmas [stream_eval] = empty_chunk_def stream_chunk_is_empty_def append_chunk_def run_stream_def Let_def

text \<open>
  The contract: \<open>canon\<close> identifies sequences of extracted items that differ only in how one piece of
  text is cut up; pushing two chunks in turn is pushing their concatenation.
\<close>

locale stream_text_parser =
  fixes push_str :: "'s \<Rightarrow> rstr \<Rightarrow> 's \<times> 'a stream_text_chunk"
    and canon :: "'a list \<Rightarrow> 'a list"
    and inv :: "'s \<Rightarrow> bool"
  assumes canon_nil: "canon [] = []"
    and canon_append: "canon (canon xs @ canon ys) = canon (xs @ ys)"
    and push_inv: "inv s \<Longrightarrow> inv (fst (push_str s t))"
    and push_nil: "inv s \<Longrightarrow> push_str s [] = (s, empty_chunk)"
    and push_push_state: "inv s \<Longrightarrow> fst (push_str (fst (push_str s t)) u) = fst (push_str s (t @ u))"
    and push_push_visible: "inv s \<Longrightarrow>
      visible_text (snd (push_str s t)) @ visible_text (snd (push_str (fst (push_str s t)) u)) =
      visible_text (snd (push_str s (t @ u)))"
    and push_push_extracted: "inv s \<Longrightarrow>
      canon (extracted (snd (push_str s t)) @ extracted (snd (push_str (fst (push_str s t)) u))) =
      canon (extracted (snd (push_str s (t @ u))))"
begin

lemma canon_idem: "canon (canon xs) = canon xs"
  using canon_append[of xs "[]"] by (simp add: canon_nil)

lemma canon_cong:
  "canon xs = canon xs' \<Longrightarrow> canon ys = canon ys' \<Longrightarrow> canon (xs @ ys) = canon (xs' @ ys')"
  by (metis canon_append)

text \<open>Any way of cutting the text into chunks gives the state and output of the whole text.\<close>

lemma push_all_concat:
  "inv s \<Longrightarrow>
   fst (push_all push_str s cs) = fst (push_str s (concat cs)) \<and>
   visible_text (snd (push_all push_str s cs)) = visible_text (snd (push_str s (concat cs))) \<and>
   canon (extracted (snd (push_all push_str s cs))) = canon (extracted (snd (push_str s (concat cs))))"
proof (induction cs arbitrary: s)
  case Nil
  then show ?case by (simp add: push_nil)
next
  case (Cons c cs)
  let ?s = "fst (push_str s c)" and ?x = "extracted (snd (push_str s c))"
  have "inv ?s" using Cons.prems by (rule push_inv)
  note IH = Cons.IH[OF this]
  have "canon (?x @ extracted (snd (push_all push_str ?s cs))) =
      canon (?x @ extracted (snd (push_str ?s (concat cs))))"
    by (rule canon_cong) (use IH in simp_all)
  with IH push_push_state[OF Cons.prems, of c "concat cs"] push_push_visible[OF Cons.prems, of c "concat cs"]
    push_push_extracted[OF Cons.prems, of c "concat cs"]
  show ?case by (simp add: case_prod_beta Let_def)
qed

lemma push_all_inv: "inv s \<Longrightarrow> inv (fst (push_all push_str s cs))"
  by (simp add: push_all_concat push_inv)

lemma run_stream_cong:
  assumes "inv s" "concat cs = concat ds"
  shows "visible_text (run_stream push_str fin s cs) = visible_text (run_stream push_str fin s ds) \<and>
    canon (extracted (run_stream push_str fin s cs)) = canon (extracted (run_stream push_str fin s ds))"
  using push_all_concat[OF assms(1), of cs] push_all_concat[OF assms(1), of ds] assms(2)
    canon_cong[OF _ refl, of "extracted (snd (push_all push_str s cs))" "extracted (snd (push_all push_str s ds))"]
  by (simp add: run_stream_def case_prod_beta Let_def)

end

end
