(* ===== verification/Inline_Hidden_Tag.thy ===== *)
theory Inline_Hidden_Tag
  imports Stream_Text
begin

text \<open>
  The parser that hides inline tags (\<open>inline_hidden_tag.rs\<close>) and the citation parser built on it
  (\<open>citation.rs\<close>), both under \<open>codex-rs/utils/stream-parser/src\<close>. Positions are character positions;
  the delimiters are matched literally, so they correspond to the byte positions of the source.
\<close>

section \<open>Model\<close>

record 't inline_tag_spec =
  spec_tag :: 't
  spec_open :: rstr
  spec_close :: rstr

record 't extracted_inline_tag =
  ex_tag :: 't
  ex_content :: rstr

record 't active_tag =
  at_tag :: 't
  at_close :: rstr
  at_content :: rstr

record 't inline_parser =
  ip_specs :: "'t inline_tag_spec list"
  ip_pending :: rstr
  ip_active :: "'t active_tag option"

text \<open>\<open>InlineHiddenTagParser::new\<close>; \<open>None\<close> is a failed assertion.\<close>

definition inline_parser_new :: "'t inline_tag_spec list \<Rightarrow> 't inline_parser option" where
  "inline_parser_new specs =
     (if specs = [] \<or> list_ex (\<lambda>spec. spec_open spec = [] \<or> spec_close spec = []) specs then None
      else Some \<lparr>ip_specs = specs, ip_pending = [], ip_active = None\<rparr>)"

definition longest_suffix_prefix_len :: "rstr \<Rightarrow> rstr \<Rightarrow> nat" where
  "longest_suffix_prefix_len s needle =
     (let m = min (length s) (length needle - 1)
      in case find (\<lambda>k. suffix (take k needle) s) (rev [1 ..< Suc m]) of Some k \<Rightarrow> k | None \<Rightarrow> 0)"

text \<open>The order of \<open>min_by\<close>: earlier position, then longer delimiter, then earlier spec.\<close>

type_synonym open_candidate = "nat \<times> nat \<times> nat"  \<comment> \<open>position, length, spec index\<close>

fun candidate_le :: "open_candidate \<Rightarrow> open_candidate \<Rightarrow> bool" where
  "candidate_le (pos_a, len_a, idx_a) (pos_b, len_b, idx_b) =
     (pos_a < pos_b \<or> pos_a = pos_b \<and> (len_b < len_a \<or> len_a = len_b \<and> idx_a \<le> idx_b))"

fun min_candidate :: "open_candidate list \<Rightarrow> open_candidate option" where
  "min_candidate [] = None"
| "min_candidate (c # cs) =
     (case min_candidate cs of None \<Rightarrow> Some c | Some d \<Rightarrow> Some (if candidate_le c d then c else d))"

definition find_next_open :: "'t inline_tag_spec list \<Rightarrow> rstr \<Rightarrow> (nat \<times> nat) option" where
  "find_next_open specs pending =
     map_option (\<lambda>(pos, _, idx). (pos, idx))
       (min_candidate (List.map_filter
          (\<lambda>(idx, spec). map_option (\<lambda>pos. (pos, str_len (spec_open spec), idx))
             (find_sub (spec_open spec) pending))
          (List.enumerate 0 specs)))"

definition max_open_prefix_suffix_len :: "'t inline_tag_spec list \<Rightarrow> rstr \<Rightarrow> nat" where
  "max_open_prefix_suffix_len specs pending =
     foldr max (map (\<lambda>spec. longest_suffix_prefix_len pending (spec_open spec)) specs) 0"

type_synonym 't inline_out = "'t extracted_inline_tag stream_text_chunk"

definition out_visible :: "rstr \<Rightarrow> 't inline_out" where
  "out_visible s = \<lparr>visible_text = s, extracted = []\<rparr>"

definition out_extracted :: "'t extracted_inline_tag \<Rightarrow> 't inline_out" where
  "out_extracted x = \<lparr>visible_text = [], extracted = [x]\<rparr>"

lemma find_sub_length: "find_sub p s = Some i \<Longrightarrow> i + length p \<le> length s"
  by (metis find_sub_Some_iff prefix_length_le length_drop le_diff_conv2 add.commute)

lemma min_candidate_in: "min_candidate cs = Some c \<Longrightarrow> c \<in> set cs"
  by (induction cs arbitrary: c) (auto split: option.splits if_splits)

lemma find_next_open_SomeD:
  "find_next_open specs pending = Some (pos, idx) \<Longrightarrow>
   idx < length specs \<and> find_sub (spec_open (specs ! idx)) pending = Some pos"
  by (auto simp: find_next_open_def List.map_filter_def in_set_enumerate_eq dest!: min_candidate_in)

text \<open>
  The loop of \<open>push_str\<close> on the pending text and the active tag. The delimiters are non-empty by the
  assertions of the constructor, so each \<open>continue\<close> shortens the pending text; without them the
  model stops where the code would not.
\<close>

function scan_tags ::
    "'t inline_tag_spec list \<Rightarrow> rstr \<Rightarrow> 't active_tag option \<Rightarrow> (rstr \<times> 't active_tag option) \<times> 't inline_out" where
  "scan_tags specs pending (Some active) =
     (case find_sub (at_close active) pending of
        Some close_idx \<Rightarrow>
          if at_close active = [] then ((pending, Some active), empty_chunk)
          else
            let (st, out) = scan_tags specs (drop (close_idx + length (at_close active)) pending) None
            in (st, append_chunk
                  (out_extracted \<lparr>ex_tag = at_tag active,
                     ex_content = at_content active @ take close_idx pending\<rparr>) out)
      | None \<Rightarrow>
          let keep = longest_suffix_prefix_len pending (at_close active);
              n = length pending - keep
          in ((drop n pending, Some (active\<lparr>at_content := at_content active @ take n pending\<rparr>)), empty_chunk))"
| "scan_tags specs pending None =
     (case find_next_open specs pending of
        Some (open_idx, spec_idx) \<Rightarrow>
          let spec = specs ! spec_idx in
          if spec_open spec = [] then ((pending, None), empty_chunk)
          else
            let (st, out) = scan_tags specs (drop (open_idx + length (spec_open spec)) pending)
                  (Some \<lparr>at_tag = spec_tag spec, at_close = spec_close spec, at_content = []\<rparr>)
            in (st, append_chunk (out_visible (take open_idx pending)) out)
      | None \<Rightarrow>
          let keep = max_open_prefix_suffix_len specs pending;
              n = length pending - keep
          in ((drop n pending, None), out_visible (take n pending)))"
  by pat_completeness auto
termination
proof (relation "measure (\<lambda>(_, pending, _). length pending)")
  fix specs :: "'t inline_tag_spec list" and pending and active :: "'t active_tag" and i
  assume "find_sub (at_close active) pending = Some i" "at_close active \<noteq> []"
  then show "((specs, drop (i + length (at_close active)) pending, None), specs, pending, Some active)
      \<in> measure (\<lambda>(_, pending, _). length pending)"
    using find_sub_length[of "at_close active" pending i] by (cases "at_close active") auto
next
  fix specs :: "'t inline_tag_spec list" and pending x i idx spec
  assume "find_next_open specs pending = Some x" "(i, idx) = x" "spec = specs ! idx" "\<not> spec_open spec = []"
  then show "((specs, drop (i + length (spec_open spec)) pending,
       Some \<lparr>at_tag = spec_tag spec, at_close = spec_close spec, at_content = []\<rparr>), specs, pending, None)
      \<in> measure (\<lambda>(_, pending, _). length pending)"
    using find_next_open_SomeD[of specs pending i idx] find_sub_length[of "spec_open spec" pending i]
    by (cases "spec_open spec") auto
qed simp

declare scan_tags.simps [simp del, stream_eval]

definition inline_push_str :: "'t inline_parser \<Rightarrow> rstr \<Rightarrow> 't inline_parser \<times> 't inline_out" where
  "inline_push_str p chunk =
     (let ((pending, active), out) = scan_tags (ip_specs p) (ip_pending p @ chunk) (ip_active p)
      in (p\<lparr>ip_pending := pending, ip_active := active\<rparr>, out))"

definition inline_finish :: "'t inline_parser \<Rightarrow> 't inline_parser \<times> 't inline_out" where
  "inline_finish p =
     (case ip_active p of
        Some active \<Rightarrow>
          (p\<lparr>ip_pending := [], ip_active := None\<rparr>,
           out_extracted \<lparr>ex_tag = at_tag active, ex_content = at_content active @ ip_pending p\<rparr>)
      | None \<Rightarrow> (p\<lparr>ip_pending := []\<rparr>, out_visible (ip_pending p)))"

section \<open>Citations\<close>

datatype citation_tag = Citation

definition CITATION_OPEN :: rstr where "CITATION_OPEN = str ''<oai-mem-citation>''"
definition CITATION_CLOSE :: rstr where "CITATION_CLOSE = str ''</oai-mem-citation>''"

definition citation_spec :: "citation_tag inline_tag_spec" where
  "citation_spec = \<lparr>spec_tag = Citation, spec_open = CITATION_OPEN, spec_close = CITATION_CLOSE\<rparr>"

definition citation_new :: "citation_tag inline_parser" where
  "citation_new = the (inline_parser_new [citation_spec])"

definition citation_chunk :: "'t inline_out \<Rightarrow> rstr stream_text_chunk" where
  "citation_chunk c = \<lparr>visible_text = visible_text c, extracted = map ex_content (extracted c)\<rparr>"

definition citation_push_str ::
    "citation_tag inline_parser \<Rightarrow> rstr \<Rightarrow> citation_tag inline_parser \<times> rstr stream_text_chunk" where
  "citation_push_str p chunk = (let (p, out) = inline_push_str p chunk in (p, citation_chunk out))"

definition citation_finish ::
    "citation_tag inline_parser \<Rightarrow> citation_tag inline_parser \<times> rstr stream_text_chunk" where
  "citation_finish p = (let (p, out) = inline_finish p in (p, citation_chunk out))"

definition strip_citations :: "rstr \<Rightarrow> rstr \<times> rstr list" where
  "strip_citations text =
     (let (parser, out) = citation_push_str citation_new text;
          (parser, tail) = citation_finish parser
      in (visible_text out @ visible_text tail, extracted out @ extracted tail))"

lemmas [stream_eval] =
  inline_parser_new_def longest_suffix_prefix_len_def find_next_open_def max_open_prefix_suffix_len_def
  out_visible_def out_extracted_def inline_push_str_def inline_finish_def CITATION_OPEN_def
  CITATION_CLOSE_def citation_spec_def citation_new_def citation_chunk_def citation_push_str_def
  citation_finish_def strip_citations_def map_filter_simps

section \<open>Where a delimiter may start\<close>

lemma find_rev_upt:
  "(case find P (rev [1 ..< Suc m]) of Some k \<Rightarrow> k | None \<Rightarrow> 0) = k \<Longrightarrow>
   (k = 0 \<or> P k \<and> k \<le> m) \<and> (\<forall>j. k < j \<longrightarrow> j \<le> m \<longrightarrow> \<not> P j)"
proof (induction m)
  case (Suc m)
  have rev: "rev [1 ..< Suc (Suc m)] = Suc m # rev [1 ..< Suc m]" by simp
  show ?case
  proof (cases "P (Suc m)")
    case True
    with Suc.prems show ?thesis unfolding rev by simp
  next
    case False
    with Suc.prems have "(case find P (rev [1 ..< Suc m]) of Some k \<Rightarrow> k | None \<Rightarrow> 0) = k"
      unfolding rev by simp
    from Suc.IH[OF this] False show ?thesis by (metis le_Suc_eq)
  qed
qed simp

lemma lsp_le: "longest_suffix_prefix_len s d \<le> length s"
  and lsp_less: "d \<noteq> [] \<Longrightarrow> longest_suffix_prefix_len s d < length d"
  and lsp_suffix: "suffix (take (longest_suffix_prefix_len s d) d) s"
  and lsp_max: "longest_suffix_prefix_len s d < k \<Longrightarrow> k < length d \<Longrightarrow> \<not> suffix (take k d) s"
proof -
  let ?m = "min (length s) (length d - 1)" and ?k = "longest_suffix_prefix_len s d"
  have k: "(?k = 0 \<or> suffix (take ?k d) s \<and> ?k \<le> ?m) \<and> (\<forall>j. ?k < j \<longrightarrow> j \<le> ?m \<longrightarrow> \<not> suffix (take j d) s)"
    by (rule find_rev_upt) (simp add: longest_suffix_prefix_len_def Let_def)
  then have k': "?k = 0 \<or> suffix (take ?k d) s \<and> ?k \<le> length s \<and> ?k \<le> length d - 1" by auto
  then show "?k \<le> length s" "suffix (take ?k d) s" by auto
  show "?k < length d" if "d \<noteq> []"
    using k' that by (cases d) auto
  show "\<not> suffix (take k d) s" if "?k < k" "k < length d"
  proof
    assume sf: "suffix (take k d) s"
    from suffix_length_le[OF this] that(2) have "k \<le> ?m" by simp
    with k sf that(1) show False by blast
  qed
qed

lemma suffix_iff_drop: "suffix p s \<longleftrightarrow> length p \<le> length s \<and> drop (length s - length p) s = p"
proof
  assume "length p \<le> length s \<and> drop (length s - length p) s = p"
  then have "s = take (length s - length p) s @ p" by (metis append_take_drop_id)
  then show "suffix p s" by (rule suffixI)
qed (auto simp: suffix_def)

text \<open>
  When the delimiter does not occur in \<open>t\<close>, the text before the kept suffix can neither start an
  occurrence nor a partial occurrence of it, whatever follows.
\<close>

definition kept_from :: "rstr \<Rightarrow> rstr \<Rightarrow> nat" where
  "kept_from d t = length t - longest_suffix_prefix_len t d"

lemma kept_from_le: "kept_from d t \<le> length t"
  by (simp add: kept_from_def)

lemma kept_prefix: "drop (kept_from d t) t = take (longest_suffix_prefix_len t d) d"
proof -
  have "longest_suffix_prefix_len t d \<le> length d"
    using lsp_less[of d t] by (cases "d = []") (auto simp: longest_suffix_prefix_len_def)
  then have "length (take (longest_suffix_prefix_len t d) d) = longest_suffix_prefix_len t d" by simp
  with lsp_suffix[of t d] show ?thesis unfolding suffix_iff_drop kept_from_def by metis
qed

lemma not_started:
  assumes "find_sub d t = None" "j < kept_from d t"
  shows "\<not> prefix d (drop j (t @ b))" "\<not> prefix (drop j (t @ b)) d"
proof -
  have j: "j < length t" using assms(2) kept_from_le[of d t] by simp
  have partial: "\<not> prefix (drop j t) d"
  proof
    assume "prefix (drop j t) d"
    then have eq: "drop j t = take (length t - j) d"
      by (metis length_drop prefix_def append_eq_conv_conj)
    then have "length t - j \<le> length d" by (metis length_drop length_take min.cobounded1)
    moreover have "length t - j \<noteq> length d"
    proof
      assume "length t - j = length d"
      with eq have "prefix d (drop j t)" by simp
      with assms(1) j show False unfolding find_sub_None_iff by (metis less_imp_le)
    qed
    ultimately have "length t - j < length d" by simp
    moreover have "longest_suffix_prefix_len t d < length t - j"
      using assms(2) by (simp add: kept_from_def)
    ultimately have "\<not> suffix (take (length t - j) d) t" using lsp_max by blast
    with eq show False using suffix_drop[of j t] by simp
  qed
  show "\<not> prefix d (drop j (t @ b))"
  proof
    assume "prefix d (drop j (t @ b))"
    with j have "prefix d (drop j t @ b)" by simp
    then have "prefix d (drop j t) \<or> prefix (drop j t) d"
      by (metis prefix_same_cases prefixI)
    with partial assms(1) j show False unfolding find_sub_None_iff by (metis less_imp_le)
  qed
  show "\<not> prefix (drop j (t @ b)) d"
    using partial j by (auto dest: append_prefixD)
qed

text \<open>Text that cannot start the delimiter may be put in front without changing what is found.\<close>

lemma find_sub_skip:
  assumes "\<And>j. j < length x \<Longrightarrow> \<not> prefix d (drop j (x @ q))"
  shows "find_sub d (x @ q) = map_option ((+) (length x)) (find_sub d q)"
proof (cases "find_sub d q")
  case None
  then have "\<not> prefix d (drop j (x @ q))" if "j \<le> length (x @ q)" for j
    using assms[of j] that by (cases "j < length x") (auto simp: find_sub_None_iff)
  then have "find_sub d (x @ q) = None" by (simp add: find_sub_None_iff)
  with None show ?thesis by simp
next
  case (Some i)
  then have i: "i \<le> length q" "prefix d (drop i q)" "\<forall>j < i. \<not> prefix d (drop j q)"
    by (simp_all add: find_sub_Some_iff)
  have "\<not> prefix d (drop j (x @ q))" if "j < length x + i" for j
    using assms[of j] i(3) that by (cases "j < length x") (auto simp: less_diff_conv2 not_less)
  with i have "find_sub d (x @ q) = Some (length x + i)" by (simp add: find_sub_Some_iff)
  with Some show ?thesis by simp
qed

lemma lsp_skip:
  assumes "\<And>j. j < length x \<Longrightarrow> \<not> prefix (drop j (x @ q)) d" "d \<noteq> []"
  shows "longest_suffix_prefix_len (x @ q) d = longest_suffix_prefix_len q d"
proof -
  let ?k = "longest_suffix_prefix_len (x @ q) d" and ?k' = "longest_suffix_prefix_len q d"
  have kq: "?k \<le> length q"
  proof (rule ccontr)
    assume "\<not> ?k \<le> length q"
    then have j: "length (x @ q) - ?k < length x" using lsp_le[of "x @ q" d] by simp
    have "drop (length (x @ q) - ?k) (x @ q) = take ?k d"
      using kept_prefix[of d "x @ q"] by (simp only: kept_from_def)
    with assms(1)[OF j] show False by (simp only: take_is_prefix not_True_eq_False)
  qed
  have "suffix (take ?k d) q"
    using lsp_suffix[of "x @ q" d] kq by (auto simp: suffix_iff_drop min_def split: if_splits)
  then have "\<not> ?k' < ?k" using lsp_max lsp_less[OF assms(2)] by blast
  moreover have "suffix (take ?k' d) (x @ q)"
    using lsp_suffix[of q d] by (simp add: suffix_appendI)
  then have "\<not> ?k < ?k'" using lsp_max lsp_less[OF assms(2)] by blast
  ultimately show ?thesis by simp
qed

lemma kept_from_skip:
  assumes "\<And>j. j < length x \<Longrightarrow> \<not> prefix (drop j (x @ q)) d" "d \<noteq> []"
  shows "kept_from d (x @ q) = length x + kept_from d q"
  using lsp_skip[OF assms] lsp_le[of q d] by (simp add: kept_from_def)

section \<open>One tag: chunks do not matter\<close>

lemma append_chunk_out [simp]:
  "append_chunk (append_chunk a b) c = append_chunk a (append_chunk b c)"
  "append_chunk empty_chunk c = c"
  "append_chunk (out_visible x) (out_visible y) = out_visible (x @ y)"
  "append_chunk (out_visible x) (append_chunk (out_visible y) c) = append_chunk (out_visible (x @ y)) c"
  by (simp_all add: append_chunk_def empty_chunk_def out_visible_def)

definition opened :: "'t inline_tag_spec \<Rightarrow> 't active_tag" where
  "opened sp = \<lparr>at_tag = spec_tag sp, at_close = spec_close sp, at_content = []\<rparr>"

lemma opened_sel [simp]:
  "at_tag (opened sp) = spec_tag sp"
  "at_close (opened sp) = spec_close sp"
  "at_content (opened sp) = []"
  by (simp_all add: opened_def)

definition prepend_out :: "'t inline_out \<Rightarrow> 's \<times> 't inline_out \<Rightarrow> 's \<times> 't inline_out" where
  "prepend_out out r = (fst r, append_chunk out (snd r))"

lemma prepend_out_simps [simp]:
  "prepend_out out (st, out') = (st, append_chunk out out')"
  "fst (prepend_out out r) = fst r"
  by (simp_all add: prepend_out_def)

lemma find_next_open_single: "find_next_open [sp] t = map_option (\<lambda>i. (i, 0)) (find_sub (spec_open sp) t)"
  by (cases "find_sub (spec_open sp) t") (simp_all add: find_next_open_def map_filter_simps)

lemma scan_None:
  assumes "spec_open sp \<noteq> []"
  shows "scan_tags [sp] t None =
    (case find_sub (spec_open sp) t of
       Some i \<Rightarrow> prepend_out (out_visible (take i t))
         (scan_tags [sp] (drop (i + length (spec_open sp)) t) (Some (opened sp)))
     | None \<Rightarrow> ((drop (kept_from (spec_open sp) t) t, None), out_visible (take (kept_from (spec_open sp) t) t)))"
  using assms
  by (auto simp: scan_tags.simps find_next_open_single max_open_prefix_suffix_len_def kept_from_def opened_def Let_def
      case_prod_beta prepend_out_def split: option.split)

lemma scan_Some:
  assumes "at_close a \<noteq> []"
  shows "scan_tags specs t (Some a) =
    (case find_sub (at_close a) t of
       Some i \<Rightarrow> prepend_out (out_extracted \<lparr>ex_tag = at_tag a, ex_content = at_content a @ take i t\<rparr>)
         (scan_tags specs (drop (i + length (at_close a)) t) None)
     | None \<Rightarrow> ((drop (kept_from (at_close a) t) t,
         Some (a\<lparr>at_content := at_content a @ take (kept_from (at_close a) t) t\<rparr>)), empty_chunk))"
  using assms
  by (auto simp: scan_tags.simps kept_from_def Let_def case_prod_beta prepend_out_def split: option.split)

lemma scan_skip_None:
  assumes "spec_open sp \<noteq> []"
    "\<And>j. j < length x \<Longrightarrow> \<not> prefix (spec_open sp) (drop j (x @ q))"
    "\<And>j. j < length x \<Longrightarrow> \<not> prefix (drop j (x @ q)) (spec_open sp)"
  shows "scan_tags [sp] (x @ q) None = prepend_out (out_visible x) (scan_tags [sp] q None)"
  using find_sub_skip[of x "spec_open sp" q, OF assms(2)] kept_from_skip[of x q "spec_open sp", OF assms(3,1)]
  by (cases "find_sub (spec_open sp) q") (simp_all add: scan_None[OF assms(1)] prepend_out_def add.assoc)

lemma scan_skip_Some:
  assumes "at_close a \<noteq> []"
    "\<And>j. j < length x \<Longrightarrow> \<not> prefix (at_close a) (drop j (x @ q))"
    "\<And>j. j < length x \<Longrightarrow> \<not> prefix (drop j (x @ q)) (at_close a)"
  shows "scan_tags specs (x @ q) (Some a) =
    scan_tags specs q (Some (a\<lparr>at_content := at_content a @ x\<rparr>))"
  using assms(1) find_sub_skip[of x "at_close a" q, OF assms(2)] kept_from_skip[of x q "at_close a", OF assms(3,1)]
  by (cases "find_sub (at_close a) q") (simp_all add: scan_Some prepend_out_def add.assoc)

lemma find_sub_append: "find_sub d t = Some i \<Longrightarrow> find_sub d (t @ b) = Some i"
proof -
  assume f: "find_sub d t = Some i"
  then have i: "i + length d \<le> length t" by (rule find_sub_length)
  have "\<not> prefix d (drop j (t @ b))" if "j < i" for j
  proof
    assume "prefix d (drop j (t @ b))"
    with that i have "prefix d (drop j t @ b)" by simp
    moreover have "length d \<le> length (drop j t)" using that i by simp
    ultimately have "prefix d (drop j t)" by (metis prefix_length_prefix prefixI)
    with f that show False by (simp add: find_sub_Some_iff)
  qed
  with f show ?thesis by (auto simp: find_sub_Some_iff)
qed

text \<open>Scanning a text in two parts.\<close>

lemma scan_append:
  assumes "spec_open sp \<noteq> []" "spec_close sp \<noteq> []"
  shows "(\<And>a. act = Some a \<Longrightarrow> at_close a \<noteq> []) \<Longrightarrow>
    scan_tags [sp] (t @ b) act =
      (let ((p, act'), out) = scan_tags [sp] t act in prepend_out out (scan_tags [sp] (p @ b) act'))"
proof (induction "length t" arbitrary: t act rule: less_induct)
  case less
  show ?case
  proof (cases act)
    case None
    let ?d = "spec_open sp"
    show ?thesis
    proof (cases "find_sub ?d t")
      case find: None
      let ?n = "kept_from ?d t"
      have "scan_tags [sp] (take ?n t @ (drop ?n t @ b)) None =
          prepend_out (out_visible (take ?n t)) (scan_tags [sp] (drop ?n t @ b) None)"
      proof (rule scan_skip_None[OF assms(1)])
        fix j
        assume "j < length (take ?n t)"
        then have "j < ?n" by simp
        from not_started[OF find this, of b]
        show "\<not> prefix ?d (drop j (take ?n t @ drop ?n t @ b))" "\<not> prefix (drop j (take ?n t @ drop ?n t @ b)) ?d"
          by (simp_all only: append_assoc[symmetric] append_take_drop_id not_False_eq_True)
      qed
      then have "scan_tags [sp] (t @ b) None =
          prepend_out (out_visible (take ?n t)) (scan_tags [sp] (drop ?n t @ b) None)"
        by (simp only: append_assoc[symmetric] append_take_drop_id)
      with None find show ?thesis by (simp add: scan_None[OF assms(1), of t])
    next
      case (Some i)
      let ?t = "drop (i + length ?d) t"
      have i: "i + length ?d \<le> length t" using find_sub_length[OF Some] .
      with assms(1) have "length ?t < length t" by (cases ?d) auto
      from less.hyps[OF this, of "Some (opened sp)"] assms(2)
      have "scan_tags [sp] (?t @ b) (Some (opened sp)) =
          (let ((p, act'), out) = scan_tags [sp] ?t (Some (opened sp)) in prepend_out out (scan_tags [sp] (p @ b) act'))"
        by (simp add: opened_def)
      with None Some i find_sub_append[OF Some, of b] show ?thesis
        by (simp add: scan_None[OF assms(1), of t] scan_None[OF assms(1), of "t @ b"] case_prod_beta Let_def
            prepend_out_def)
    qed
  next
    case act: (Some a)
    let ?d = "at_close a"
    have d: "?d \<noteq> []" using less.prems act by simp
    show ?thesis
    proof (cases "find_sub ?d t")
      case find: None
      let ?n = "kept_from ?d t"
      have "scan_tags [sp] (take ?n t @ (drop ?n t @ b)) (Some a) =
          scan_tags [sp] (drop ?n t @ b) (Some (a\<lparr>at_content := at_content a @ take ?n t\<rparr>))"
      proof (rule scan_skip_Some[OF d])
        fix j
        assume "j < length (take ?n t)"
        then have "j < ?n" by simp
        from not_started[OF find this, of b]
        show "\<not> prefix ?d (drop j (take ?n t @ drop ?n t @ b))" "\<not> prefix (drop j (take ?n t @ drop ?n t @ b)) ?d"
          by (simp_all only: append_assoc[symmetric] append_take_drop_id not_False_eq_True)
      qed
      then have "scan_tags [sp] (t @ b) (Some a) =
          scan_tags [sp] (drop ?n t @ b) (Some (a\<lparr>at_content := at_content a @ take ?n t\<rparr>))"
        by (simp only: append_assoc[symmetric] append_take_drop_id)
      with act find show ?thesis by (simp add: scan_Some[OF d, of _ t] prepend_out_def)
    next
      case (Some i)
      let ?t = "drop (i + length ?d) t"
      have i: "i + length ?d \<le> length t" using find_sub_length[OF Some] .
      with d have "length ?t < length t" by (cases ?d) auto
      from less.hyps[OF this, of None]
      have "scan_tags [sp] (?t @ b) None =
          (let ((p, act'), out) = scan_tags [sp] ?t None in prepend_out out (scan_tags [sp] (p @ b) act'))"
        by simp
      with act Some i find_sub_append[OF Some, of b] show ?thesis
        by (simp add: scan_Some[OF d, of _ t] scan_Some[OF d, of _ "t @ b"] case_prod_beta Let_def
            prepend_out_def)
    qed
  qed
qed

text \<open>Between calls the pending text is a proper prefix of the delimiter being looked for.\<close>

definition delimiter :: "'t inline_tag_spec \<Rightarrow> 't active_tag option \<Rightarrow> rstr" where
  "delimiter sp act = (case act of None \<Rightarrow> spec_open sp | Some a \<Rightarrow> at_close a)"

definition settled :: "'t inline_tag_spec \<Rightarrow> rstr \<Rightarrow> 't active_tag option \<Rightarrow> bool" where
  "settled sp pending act \<longleftrightarrow>
     strict_prefix pending (delimiter sp act) \<and> (\<forall>a. act = Some a \<longrightarrow> at_close a = spec_close sp)"

definition inline_inv :: "'t inline_tag_spec \<Rightarrow> 't inline_parser \<Rightarrow> bool" where
  "inline_inv sp p \<longleftrightarrow>
     spec_open sp \<noteq> [] \<and> spec_close sp \<noteq> [] \<and> ip_specs p = [sp] \<and> settled sp (ip_pending p) (ip_active p)"

lemma kept_strict_prefix: "d \<noteq> [] \<Longrightarrow> strict_prefix (drop (kept_from d t) t) d"
  unfolding kept_prefix
  using lsp_less[of d t] by (metis take_is_prefix length_take min.absorb4 less_irrefl prefix_order.le_neq_trans)

lemma strict_prefix_kept:
  assumes "strict_prefix t d"
  shows "find_sub d t = None" "kept_from d t = 0"
proof -
  have len: "length t < length d" using assms by (rule prefix_length_less)
  show "find_sub d t = None"
    using find_sub_length[of d t] len by (cases "find_sub d t") auto
  from assms have "take (length t) d = t" by (auto simp: strict_prefix_def prefix_def)
  then have "suffix (take (length t) d) t" by simp
  with lsp_max[of t d "length t"] len have "\<not> longest_suffix_prefix_len t d < length t" by blast
  then show "kept_from d t = 0" by (simp add: kept_from_def)
qed

lemma scan_settled:
  assumes "spec_open sp \<noteq> []" "spec_close sp \<noteq> []"
  shows "(\<And>a. act = Some a \<Longrightarrow> at_close a = spec_close sp) \<Longrightarrow>
    settled sp (fst (fst (scan_tags [sp] t act))) (snd (fst (scan_tags [sp] t act)))"
proof (induction "length t" arbitrary: t act rule: less_induct)
  case less
  show ?case
  proof (cases act)
    case None
    show ?thesis
    proof (cases "find_sub (spec_open sp) t")
      case (Some i)
      with find_sub_length[OF Some] assms(1) less.hyps[of "drop (i + length (spec_open sp)) t" "Some (opened sp)"]
      show ?thesis by (cases "spec_open sp") (simp_all add: None scan_None[OF assms(1)] opened_def)
    qed (simp add: None scan_None[OF assms(1)] settled_def delimiter_def kept_strict_prefix[OF assms(1)])
  next
    case act: (Some a)
    with less.prems have a: "at_close a = spec_close sp" by simp
    with assms(2) have d: "at_close a \<noteq> []" by simp
    show ?thesis
    proof (cases "find_sub (at_close a) t")
      case (Some i)
      with find_sub_length[OF Some] d less.hyps[of "drop (i + length (at_close a)) t" None]
      show ?thesis by (cases "at_close a") (simp_all add: act scan_Some[OF d])
    qed (simp add: act scan_Some[OF d] settled_def delimiter_def a kept_strict_prefix[OF assms(2)])
  qed
qed

lemma scan_settled_nil:
  assumes "settled sp t act" "spec_open sp \<noteq> []" "spec_close sp \<noteq> []"
  shows "scan_tags [sp] t act = ((t, act), empty_chunk)"
proof (cases act)
  case None
  with assms strict_prefix_kept[of t "spec_open sp"] show ?thesis
    by (simp add: settled_def delimiter_def scan_None out_visible_def empty_chunk_def)
next
  case (Some a)
  with assms strict_prefix_kept[of t "at_close a"] show ?thesis
    by (auto simp: settled_def delimiter_def scan_Some)
qed

lemma inline_push_inv: "inline_inv sp p \<Longrightarrow> inline_inv sp (fst (inline_push_str p t))"
  using scan_settled[of sp "ip_active p" "ip_pending p @ t"]
  by (auto simp: inline_inv_def inline_push_str_def Let_def case_prod_beta settled_def)

lemma inline_push_nil: "inline_inv sp p \<Longrightarrow> inline_push_str p [] = (p, empty_chunk)"
  by (simp add: inline_inv_def inline_push_str_def scan_settled_nil)

lemma inline_push_push:
  assumes "inline_inv sp p"
  shows "inline_push_str p (t @ u) =
    (let (p1, out1) = inline_push_str p t; (p2, out2) = inline_push_str p1 u in (p2, append_chunk out1 out2))"
proof -
  from assms have "at_close a \<noteq> []" if "ip_active p = Some a" for a
    using that by (auto simp: inline_inv_def settled_def)
  with scan_append[of sp "ip_active p" "ip_pending p @ t" u] assms show ?thesis
    by (simp add: inline_inv_def inline_push_str_def Let_def case_prod_beta prepend_out_def)
qed

interpretation inline: stream_text_parser inline_push_str id "inline_inv sp" for sp :: "'t inline_tag_spec"
  by unfold_locales
    (simp_all add: inline_push_inv inline_push_nil inline_push_push Let_def case_prod_beta)

lemma citation_push_str_eq:
  "citation_push_str p t = (fst (inline_push_str p t), citation_chunk (snd (inline_push_str p t)))"
  by (simp add: citation_push_str_def case_prod_beta)

lemma citation_chunk_simps [simp]:
  "visible_text (citation_chunk c) = visible_text c"
  "extracted (citation_chunk c) = map ex_content (extracted c)"
  "citation_chunk empty_chunk = empty_chunk"
  by (simp_all add: citation_chunk_def empty_chunk_def)

interpretation citation: stream_text_parser citation_push_str id "inline_inv citation_spec"
  by unfold_locales
    (simp_all add: citation_push_str_eq inline_push_inv inline_push_nil inline_push_push Let_def case_prod_beta)

lemma citation_new_inv: "inline_inv citation_spec citation_new"
  by (simp add: inline_inv_def citation_new_def inline_parser_new_def citation_spec_def settled_def
      delimiter_def CITATION_OPEN_def CITATION_CLOSE_def str_def)

section \<open>What is hidden and what is shown\<close>

text \<open>A delimiter no proper suffix of which starts it again.\<close>

definition borderless :: "rstr \<Rightarrow> bool" where
  "borderless d \<longleftrightarrow> list_all (\<lambda>k. \<not> prefix (drop k d) d) [1 ..< length d]"

lemma find_sub_first:
  assumes "borderless d" "find_sub d v = None"
  shows "find_sub d (v @ d @ r) = Some (length v)"
proof -
  have "\<not> prefix d (drop j (v @ d @ r))" if j: "j < length v" for j
  proof
    assume "prefix d (drop j (v @ d @ r))"
    with j have p: "prefix d (drop j v @ d @ r)" by simp
    then have "prefix d (drop j v) \<or> prefix (drop j v) d" by (metis prefix_same_cases prefixI)
    with assms(2) j have pd: "prefix (drop j v) d" "\<not> prefix d (drop j v)"
      unfolding find_sub_None_iff by (metis less_imp_le)+
    let ?m = "length v - j"
    from pd(1) obtain x where x: "d = drop j v @ x" by (auto simp: prefix_def)
    with pd(2) have "x \<noteq> []" by auto
    then have "0 < length x" by simp
    moreover from x have "length d = ?m + length x" by (metis length_append length_drop)
    moreover from j have "0 < ?m" by simp
    ultimately have "1 \<le> ?m" "?m < length d" by linarith+
    then have m: "?m \<in> set [1 ..< length d]" by simp
    from p x have "prefix x (d @ r)" by (metis same_prefix_prefix)
    moreover have "length x \<le> length d" using x by simp
    ultimately have "prefix x d" by (metis prefix_length_prefix prefixI)
    moreover have "drop ?m d = x" using x j by simp
    ultimately show False using assms(1) m unfolding borderless_def list_all_iff by blast
  qed
  then show ?thesis by (simp add: find_sub_Some_iff)
qed

text \<open>
  A text with tags: visible pieces and tag bodies in turn, a last visible piece, and possibly a tag
  that is never closed.
\<close>

fun tagged_text :: "'t inline_tag_spec \<Rightarrow> (rstr \<times> rstr) list \<Rightarrow> rstr \<Rightarrow> rstr option \<Rightarrow> rstr" where
  "tagged_text sp [] v unclosed = v @ (case unclosed of None \<Rightarrow> [] | Some c \<Rightarrow> spec_open sp @ c)"
| "tagged_text sp ((v, c) # segs) w unclosed =
     v @ spec_open sp @ c @ spec_close sp @ tagged_text sp segs w unclosed"

definition segments_ok :: "'t inline_tag_spec \<Rightarrow> (rstr \<times> rstr) list \<Rightarrow> rstr \<Rightarrow> rstr option \<Rightarrow> bool" where
  "segments_ok sp segs w unclosed \<longleftrightarrow>
     list_all (\<lambda>(v, c). find_sub (spec_open sp) v = None \<and> find_sub (spec_close sp) c = None) segs \<and>
     find_sub (spec_open sp) w = None \<and>
     (\<forall>c. unclosed = Some c \<longrightarrow> find_sub (spec_close sp) c = None)"

definition flush :: "'t inline_tag_spec \<Rightarrow> (rstr \<times> 't active_tag option) \<times> 't inline_out \<Rightarrow> 't inline_out" where
  "flush sp r = append_chunk (snd r)
     (snd (inline_finish \<lparr>ip_specs = [sp], ip_pending = fst (fst r), ip_active = snd (fst r)\<rparr>))"

lemma flush_prepend: "flush sp (prepend_out out r) = append_chunk out (flush sp r)"
  by (simp add: flush_def prepend_out_def)

lemma scan_tagged_text:
  assumes "spec_open sp \<noteq> []" "spec_close sp \<noteq> []" "borderless (spec_open sp)" "borderless (spec_close sp)"
  shows "segments_ok sp segs w unclosed \<Longrightarrow>
    flush sp (scan_tags [sp] (tagged_text sp segs w unclosed) None) =
      \<lparr>visible_text = concat (map fst segs) @ w,
       extracted = map (\<lambda>c. \<lparr>ex_tag = spec_tag sp, ex_content = c\<rparr>)
         (map snd segs @ (case unclosed of None \<Rightarrow> [] | Some c \<Rightarrow> [c]))\<rparr>"
proof (induction segs)
  case Nil
  show ?case
  proof (cases unclosed)
    case None
    with Nil show ?thesis
      by (simp add: segments_ok_def scan_None[OF assms(1)] flush_def inline_finish_def append_chunk_def
          out_visible_def)
  next
    case (Some c)
    with Nil have f: "find_sub (spec_open sp) (w @ spec_open sp @ c) = Some (length w)"
      "find_sub (at_close (opened sp)) c = None"
      by (simp_all add: segments_ok_def find_sub_first[OF assms(3)] opened_def)
    have "at_close (opened sp) \<noteq> []" using assms(2) by (simp add: opened_def)
    with Some f show ?thesis
      by (simp add: scan_None[OF assms(1)] scan_Some flush_prepend flush_def inline_finish_def)
        (simp add: append_chunk_def out_visible_def out_extracted_def opened_def)
  qed
next
  case (Cons seg segs)
  obtain v c where seg: "seg = (v, c)" by (cases seg)
  let ?rest = "tagged_text sp segs w unclosed"
  from Cons.prems seg have f: "find_sub (spec_open sp) (v @ spec_open sp @ c @ spec_close sp @ ?rest) = Some (length v)"
    "find_sub (at_close (opened sp)) (c @ spec_close sp @ ?rest) = Some (length c)"
    by (simp_all add: segments_ok_def find_sub_first[OF assms(3)] find_sub_first[OF assms(4)] opened_def)
  have "scan_tags [sp] (v @ spec_open sp @ c @ spec_close sp @ ?rest) None =
      prepend_out (out_visible v) (scan_tags [sp] (c @ spec_close sp @ ?rest) (Some (opened sp)))"
    using f(1) by (simp add: scan_None[OF assms(1), of "v @ spec_open sp @ c @ spec_close sp @ ?rest"])
  moreover have "scan_tags [sp] (c @ spec_close sp @ ?rest) (Some (opened sp)) =
      prepend_out (out_extracted \<lparr>ex_tag = spec_tag sp, ex_content = c\<rparr>) (scan_tags [sp] ?rest None)"
    using f(2) assms(2) by (simp add: scan_Some)
  moreover have "segments_ok sp segs w unclosed" using Cons.prems by (simp add: segments_ok_def)
  ultimately show ?case
    using Cons.IH seg by (simp add: flush_prepend append_chunk_def out_visible_def out_extracted_def)
qed

lemma citation_delimiters:
  "spec_open citation_spec \<noteq> []" "spec_close citation_spec \<noteq> []"
  "borderless (spec_open citation_spec)" "borderless (spec_close citation_spec)"
  by (simp_all add: borderless_def citation_spec_def CITATION_OPEN_def CITATION_CLOSE_def str_def)

text \<open>
  C28. Citations are hidden and collected however the text is streamed: for a text of visible pieces
  and citation bodies (the last possibly never closed), cut into chunks anywhere, even inside a
  delimiter, the stream shows exactly the visible pieces and extracts exactly the bodies, in order.
\<close>

theorem citation_stream_correct:
  assumes "concat chunks = tagged_text citation_spec segs w unclosed"
    "segments_ok citation_spec segs w unclosed"
  shows "run_stream citation_push_str citation_finish citation_new chunks =
    \<lparr>visible_text = concat (map fst segs) @ w,
     extracted = map snd segs @ (case unclosed of None \<Rightarrow> [] | Some c \<Rightarrow> [c])\<rparr>"
proof -
  let ?t = "tagged_text citation_spec segs w unclosed"
  note all = citation.push_all_concat[OF citation_new_inv, of chunks, unfolded assms(1)]
  have new: "ip_specs citation_new = [citation_spec]" "ip_pending citation_new = []" "ip_active citation_new = None"
    using citation_delimiters by (simp_all add: citation_new_def inline_parser_new_def)
  have "run_stream citation_push_str citation_finish citation_new chunks =
      citation_chunk (flush citation_spec (scan_tags [citation_spec] ?t None))"
    using all new
    by (simp add: run_stream_def citation_push_str_eq citation_finish_def inline_push_str_def flush_def
        inline_finish_def case_prod_beta Let_def append_chunk_def citation_chunk_def split: option.split)
  with scan_tagged_text[OF citation_delimiters assms(2)] show ?thesis
    by (simp add: citation_chunk_def comp_def)
qed

theorem citation_stream_correct_witness:
  "run_stream citation_push_str citation_finish citation_new
     [str ''a<oai-mem-cit'', str ''ation>b</oai-mem-citation'', str ''>c<oai-mem-citation>d''] =
   \<lparr>visible_text = str ''ac'', extracted = [str ''b'', str ''d'']\<rparr>"
proof -
  have "segments_ok citation_spec [(str ''a'', str ''b'')] (str ''c'') (Some (str ''d''))"
    by (simp add: segments_ok_def citation_spec_def CITATION_OPEN_def CITATION_CLOSE_def str_def)
  moreover have "concat [str ''a<oai-mem-cit'', str ''ation>b</oai-mem-citation'', str ''>c<oai-mem-citation>d''] =
      tagged_text citation_spec [(str ''a'', str ''b'')] (str ''c'') (Some (str ''d''))"
    by (simp add: citation_spec_def CITATION_OPEN_def CITATION_CLOSE_def str_def)
  ultimately show ?thesis
    using citation_stream_correct[of "[str ''a<oai-mem-cit'', str ''ation>b</oai-mem-citation'', str ''>c<oai-mem-citation>d'']"
        "[(str ''a'', str ''b'')]" "str ''c''" "Some (str ''d'')"]
    by (simp add: str_def)
qed

text \<open>
  With several tags one of whose opening delimiters starts with another, chunk boundaries do
  matter: the shorter one is taken as soon as it is complete.
\<close>

lemma common_prefix_chunks_matter:
  fixes p0 :: "nat inline_parser"
  defines "p0 \<equiv> \<lparr>ip_specs = [\<lparr>spec_tag = 0, spec_open = str ''<a'', spec_close = str ''>''\<rparr>,
      \<lparr>spec_tag = 1, spec_open = str ''<ab'', spec_close = str ''>''\<rparr>], ip_pending = [], ip_active = None\<rparr>"
  shows "map ex_tag (extracted (run_stream inline_push_str inline_finish p0 [str ''<ab>''])) = [1]"
    and "map ex_tag (extracted (run_stream inline_push_str inline_finish p0 [str ''<a'', str ''b>''])) = [0]"
  by (simp_all add: p0_def stream_eval str_eval)

end
