(* ===== verification/Utf8_Stream.thy ===== *)
theory Utf8_Stream
  imports Stream_Text Inline_Hidden_Tag
begin

text \<open>
  \<open>utils/stream-parser/src/utf8_stream.rs\<close>: the adapter that feeds raw bytes to a text parser,
  holding back an unfinished code point.  \<open>from_utf8\<close> is the validation of the standard library
  (its table of lead bytes, its \<open>valid_up_to\<close> and \<open>error_len\<close>); bytes are numbers, and a number
  above 255 is no byte of any encoding.  The adapter works for every parser of the \<open>Stream_Text\<close>
  contract, so its main lemma is proved once in that locale.
\<close>

type_synonym bytes = "nat list"

section \<open>Encoding and validation of the standard library\<close>

definition scalar :: "rchar \<Rightarrow> bool" where
  "scalar c \<longleftrightarrow> c < 0x110000 \<and> \<not> (0xD800 \<le> c \<and> c \<le> 0xDFFF)"

definition encode_char :: "rchar \<Rightarrow> bytes" where
  "encode_char c =
     (if c < 0x80 then [c]
      else if c < 0x800 then [0xC0 + c div 64, 0x80 + c mod 64]
      else if c < 0x10000 then [0xE0 + c div 64 div 64, 0x80 + c div 64 mod 64, 0x80 + c mod 64]
      else [0xF0 + c div 64 div 64 div 64, 0x80 + c div 64 div 64 mod 64, 0x80 + c div 64 mod 64, 0x80 + c mod 64])"

definition encode :: "rstr \<Rightarrow> bytes" where
  "encode s = concat (map encode_char s)"

definition continuation :: "nat \<Rightarrow> bool" where
  "continuation b \<longleftrightarrow> 0x80 \<le> b \<and> b \<le> 0xBF"

definition utf8_char_width :: "nat \<Rightarrow> nat" where
  "utf8_char_width b =
     (if b < 0x80 then 1 else if 0xC2 \<le> b \<and> b \<le> 0xDF then 2
      else if 0xE0 \<le> b \<and> b \<le> 0xEF then 3 else if 0xF0 \<le> b \<and> b \<le> 0xF4 then 4 else 0)"

definition second_ok :: "nat \<Rightarrow> nat \<Rightarrow> bool" where
  "second_ok b c \<longleftrightarrow> continuation c \<and>
     (b = 0xE0 \<longrightarrow> 0xA0 \<le> c) \<and> (b = 0xED \<longrightarrow> c \<le> 0x9F) \<and>
     (b = 0xF0 \<longrightarrow> 0x90 \<le> c) \<and> (b = 0xF4 \<longrightarrow> c \<le> 0x8F)"

datatype decoded = Decoded rchar bytes | Invalid nat | Incomplete

text \<open>The bytes after the lead byte: \<open>n\<close> are missing, \<open>seen\<close> were accepted.\<close>

fun decode_rest :: "nat \<Rightarrow> nat \<Rightarrow> rchar \<Rightarrow> bytes \<Rightarrow> decoded" where
  "decode_rest 0 seen c bs = Decoded c bs"
| "decode_rest (Suc n) seen c [] = Incomplete"
| "decode_rest (Suc n) seen c (b # bs) =
     (if continuation b then decode_rest n (Suc seen) (c * 64 + (b - 0x80)) bs else Invalid seen)"

fun decode_char :: "bytes \<Rightarrow> decoded" where
  "decode_char [] = Incomplete"
| "decode_char (b # bs) =
     (let w = utf8_char_width b in
      if w = 0 then Invalid 1
      else if w = 1 then Decoded b bs
      else case bs of
        [] \<Rightarrow> Incomplete
      | b2 # bs2 \<Rightarrow>
          if second_ok b b2
          then decode_rest (w - 2) 2 ((b - (if w = 2 then 0xC0 else if w = 3 then 0xE0 else 0xF0)) * 64 + (b2 - 0x80)) bs2
          else Invalid 1)"

record utf8_error =
  valid_up_to :: nat
  error_len :: "nat option"

lemma decode_rest_length: "decode_rest n seen c bs = Decoded d r \<Longrightarrow> length r \<le> length bs"
  by (induction n seen c bs rule: decode_rest.induct) (auto split: if_splits)

lemma decode_char_length: "decode_char bs = Decoded c r \<Longrightarrow> length r < length bs"
  by (cases bs) (auto simp: Let_def dest!: decode_rest_length split: if_splits list.splits)

function from_utf8_at :: "nat \<Rightarrow> bytes \<Rightarrow> utf8_error + rstr" where
  "from_utf8_at i bs =
     (if bs = [] then Ok []
      else case decode_char bs of
        Decoded c r \<Rightarrow> (case from_utf8_at (i + (length bs - length r)) r of Ok s \<Rightarrow> Ok (c # s) | Err e \<Rightarrow> Err e)
      | Invalid n \<Rightarrow> Err \<lparr>valid_up_to = i, error_len = Some n\<rparr>
      | Incomplete \<Rightarrow> Err \<lparr>valid_up_to = i, error_len = None\<rparr>)"
  by pat_completeness auto
termination
  by (relation "measure (length \<circ> snd)") (auto simp: decode_char_length)

declare from_utf8_at.simps [simp del]

definition from_utf8 :: "bytes \<Rightarrow> utf8_error + rstr" where
  "from_utf8 bs = from_utf8_at 0 bs"

section \<open>The adapter\<close>

datatype utf8_stream_parser_error =
    InvalidUtf8 nat nat
  | IncompleteUtf8AtEof

record 's utf8_stream_parser =
  u_inner :: 's
  u_pending :: bytes

definition utf8_new :: "'s \<Rightarrow> 's utf8_stream_parser" where
  "utf8_new inner = \<lparr>u_inner = inner, u_pending = []\<rparr>"

definition utf8_push_bytes ::
    "('s \<Rightarrow> rstr \<Rightarrow> 's \<times> 'a stream_text_chunk) \<Rightarrow> 's utf8_stream_parser \<Rightarrow> bytes \<Rightarrow>
     's utf8_stream_parser \<times> (utf8_stream_parser_error + 'a stream_text_chunk)" where
  "utf8_push_bytes push_str p chunk =
     (let old_len = length (u_pending p);
          pending_utf8 = u_pending p @ chunk
      in case from_utf8 pending_utf8 of
           Ok s \<Rightarrow> let (inner, out) = push_str (u_inner p) s
                    in (p\<lparr>u_inner := inner, u_pending := []\<rparr>, Ok out)
         | Err err \<Rightarrow>
             (case error_len err of
                Some n \<Rightarrow> (p\<lparr>u_pending := take old_len pending_utf8\<rparr>, Err (InvalidUtf8 (valid_up_to err) n))
              | None \<Rightarrow>
                  if valid_up_to err = 0 then (p\<lparr>u_pending := pending_utf8\<rparr>, Ok empty_chunk)
                  else case from_utf8 (take (valid_up_to err) pending_utf8) of
                    Ok s \<Rightarrow> let (inner, out) = push_str (u_inner p) s
                             in (p\<lparr>u_inner := inner, u_pending := drop (valid_up_to err) pending_utf8\<rparr>, Ok out)
                  | Err prefix_err \<Rightarrow>
                      (p\<lparr>u_pending := take old_len pending_utf8\<rparr>,
                       Err (InvalidUtf8 (valid_up_to prefix_err)
                              (case error_len prefix_err of Some n \<Rightarrow> n | None \<Rightarrow> 0)))))"

text \<open>The check shared by \<open>finish\<close> and \<open>into_inner\<close>.\<close>

definition check_pending :: "bytes \<Rightarrow> utf8_stream_parser_error option" where
  "check_pending pending =
     (if pending = [] then None
      else case from_utf8 pending of
        Ok _ \<Rightarrow> None
      | Err err \<Rightarrow> Some (case error_len err of Some n \<Rightarrow> InvalidUtf8 (valid_up_to err) n | None \<Rightarrow> IncompleteUtf8AtEof))"

definition utf8_finish ::
    "('s \<Rightarrow> rstr \<Rightarrow> 's \<times> 'a stream_text_chunk) \<Rightarrow> ('s \<Rightarrow> 's \<times> 'a stream_text_chunk) \<Rightarrow>
     's utf8_stream_parser \<Rightarrow> 's utf8_stream_parser \<times> (utf8_stream_parser_error + 'a stream_text_chunk)" where
  "utf8_finish push_str fin p =
     (case check_pending (u_pending p) of
        Some e \<Rightarrow> (p, Err e)
      | None \<Rightarrow>
          (case (if u_pending p = [] then Ok (u_inner p, empty_chunk)
                 else case from_utf8 (u_pending p) of
                   Ok s \<Rightarrow> Ok (push_str (u_inner p) s)
                 | Err err \<Rightarrow> Err (InvalidUtf8 (valid_up_to err) (case error_len err of Some n \<Rightarrow> n | None \<Rightarrow> 0))) of
             Err e \<Rightarrow> (p, Err e)
           | Ok (inner, out) \<Rightarrow>
               let (inner, tail) = fin inner
               in (\<lparr>u_inner = inner, u_pending = []\<rparr>, Ok (append_chunk out tail))))"

definition into_inner :: "'s utf8_stream_parser \<Rightarrow> utf8_stream_parser_error + 's" where
  "into_inner p = (case check_pending (u_pending p) of None \<Rightarrow> Ok (u_inner p) | Some e \<Rightarrow> Err e)"

definition into_inner_lossy :: "'s utf8_stream_parser \<Rightarrow> 's" where
  "into_inner_lossy p = u_inner p"

text \<open>Feeding byte chunks up to the first error, and a whole byte stream.\<close>

fun utf8_push_all ::
    "('s \<Rightarrow> rstr \<Rightarrow> 's \<times> 'a stream_text_chunk) \<Rightarrow> 's utf8_stream_parser \<Rightarrow> bytes list \<Rightarrow>
     's utf8_stream_parser \<times> (utf8_stream_parser_error + 'a stream_text_chunk)" where
  "utf8_push_all push_str p [] = (p, Ok empty_chunk)"
| "utf8_push_all push_str p (c # cs) =
     (case utf8_push_bytes push_str p c of
        (p, Err e) \<Rightarrow> (p, Err e)
      | (p, Ok out) \<Rightarrow> (case utf8_push_all push_str p cs of
            (p, Err e) \<Rightarrow> (p, Err e)
          | (p, Ok out') \<Rightarrow> (p, Ok (append_chunk out out'))))"

definition utf8_run ::
    "('s \<Rightarrow> rstr \<Rightarrow> 's \<times> 'a stream_text_chunk) \<Rightarrow> ('s \<Rightarrow> 's \<times> 'a stream_text_chunk) \<Rightarrow>
     's \<Rightarrow> bytes list \<Rightarrow> utf8_stream_parser_error + 'a stream_text_chunk" where
  "utf8_run push_str fin inner chunks =
     (case utf8_push_all push_str (utf8_new inner) chunks of
        (p, Err e) \<Rightarrow> Err e
      | (p, Ok out) \<Rightarrow> (case snd (utf8_finish push_str fin p) of Ok tail \<Rightarrow> Ok (append_chunk out tail) | Err e \<Rightarrow> Err e))"

section \<open>Round trip of the encoding\<close>

lemma encode_simps [simp]:
  "encode [] = []" "encode (c # s) = encode_char c @ encode s" "encode (s @ t) = encode s @ encode t"
  by (simp_all add: encode_def)

lemma encode_char_not_Nil [simp]: "encode_char c \<noteq> []"
  by (simp add: encode_char_def)

lemma encode_eq_Nil [simp]: "encode s = [] \<longleftrightarrow> s = []"
  by (cases s) simp_all

lemmas utf8_defs = encode_char_def utf8_char_width_def second_ok_def continuation_def scalar_def

lemma base64_div_mod:
  fixes z :: nat
  assumes "z < 64"
  shows "(q * 64 + z) div 64 = q" "(q * 64 + z) mod 64 = z"
  using assms by simp_all

lemma encode_char_3:
  assumes "c = (x * 64 + y) * 64 + z" "y < 64" "z < 64" "0x800 \<le> c" "c < 0x10000"
  shows "encode_char c = [0xE0 + x, 0x80 + y, 0x80 + z]"
proof -
  from assms(1-3) have "c div 64 = x * 64 + y" "c mod 64 = z" by (simp_all only: base64_div_mod)
  with assms(2,4,5) base64_div_mod[of y x] show ?thesis by (simp only: encode_char_def) simp
qed

lemma encode_char_4:
  assumes "c = ((x * 64 + y) * 64 + z) * 64 + w" "y < 64" "z < 64" "w < 64" "0x10000 \<le> c"
  shows "encode_char c = [0xF0 + x, 0x80 + y, 0x80 + z, 0x80 + w]"
proof -
  from assms(1-4) have "c div 64 = (x * 64 + y) * 64 + z" "c mod 64 = w" by (simp_all only: base64_div_mod)
  moreover from assms(3) have "((x * 64 + y) * 64 + z) div 64 = x * 64 + y" "((x * 64 + y) * 64 + z) mod 64 = z"
    by (simp_all only: base64_div_mod)
  ultimately show ?thesis
    using assms(2,5) base64_div_mod[of y x] by (simp only: encode_char_def) simp
qed

lemma base64_digit:
  fixes c :: nat
  obtains q z where "c = q * 64 + z" "z < 64"
  by (metis div_mult_mod_eq mod_less_divisor zero_less_numeral)

lemma decode_encode:
  assumes "scalar c"
  shows "decode_char (encode_char c @ r) = Decoded c r"
proof -
  obtain q w where c: "c = q * 64 + w" "w < 64" by (rule base64_digit)
  obtain q' z where q: "q = q' * 64 + z" "z < 64" by (rule base64_digit)
  obtain x y where q': "q' = x * 64 + y" "y < 64" by (rule base64_digit)
  consider "c < 0x80" | "0x80 \<le> c" "c < 0x800" | "0x800 \<le> c" "c < 0x10000" | "0x10000 \<le> c" by linarith
  then show ?thesis
  proof cases
    case 3
    with c q have "encode_char c = [0xE0 + q', 0x80 + z, 0x80 + w]" by (intro encode_char_3) auto
    with 3 c q assms show ?thesis by (auto simp: utf8_defs numeral_2_eq_2)
  next
    case 4
    with c q q' have "encode_char c = [0xF0 + x, 0x80 + y, 0x80 + z, 0x80 + w]" by (intro encode_char_4) auto
    with 4 c q q' assms show ?thesis by (auto simp: utf8_defs numeral_2_eq_2)
  qed (use assms in \<open>auto simp: utf8_defs\<close>)
qed

text \<open>Conversely, what is decoded was encoded.\<close>

lemma decode_rest_Decoded:
  "decode_rest n seen c bs = Decoded d r \<Longrightarrow>
   \<exists>ds. bs = map (\<lambda>x. 0x80 + x) ds @ r \<and> length ds = n \<and> (\<forall>x \<in> set ds. x < 64) \<and>
     d = foldl (\<lambda>acc x. acc * 64 + x) c ds"
proof (induction n seen c bs rule: decode_rest.induct)
  case (3 n seen c b bs)
  then have b: "continuation b" by (auto split: if_splits)
  with 3 obtain ds where ds: "bs = map (\<lambda>x. 0x80 + x) ds @ r" "length ds = n" "\<forall>x \<in> set ds. x < 64"
    "d = foldl (\<lambda>acc x. acc * 64 + x) (c * 64 + (b - 0x80)) ds" by auto
  show ?case by (rule exI[of _ "(b - 0x80) # ds"]) (use b ds in \<open>auto simp: continuation_def\<close>)
qed auto

lemma decode_char_Decoded:
  assumes "decode_char bs = Decoded c r"
  shows "scalar c \<and> bs = encode_char c @ r"
proof (cases bs)
  case Nil
  with assms show ?thesis by simp
next
  case (Cons b bs')
  show ?thesis
  proof (cases "utf8_char_width b = 1")
    case True
    with assms Cons show ?thesis by (auto simp: utf8_defs split: if_splits)
  next
    case False
    with assms Cons obtain b2 bs2 where bs2: "bs' = b2 # bs2" and w: "utf8_char_width b \<in> {2, 3, 4}"
      and ok: "second_ok b b2"
      and rest: "decode_rest (utf8_char_width b - 2) 2 ((b - (if utf8_char_width b = 2 then 0xC0
        else if utf8_char_width b = 3 then 0xE0 else 0xF0)) * 64 + (b2 - 0x80)) bs2 = Decoded c r"
      by (auto simp: Let_def utf8_char_width_def split: if_splits list.splits)
    from decode_rest_Decoded[OF rest] obtain ds where ds: "bs2 = map (\<lambda>x. 0x80 + x) ds @ r"
      "length ds = utf8_char_width b - 2" "\<forall>x \<in> set ds. x < 64"
      "c = foldl (\<lambda>acc x. acc * 64 + x) ((b - (if utf8_char_width b = 2 then 0xC0
        else if utf8_char_width b = 3 then 0xE0 else 0xF0)) * 64 + (b2 - 0x80)) ds" by blast
    from ok obtain y where y: "b2 = 0x80 + y" "y < 64" by (auto simp: second_ok_def continuation_def le_iff_add)
    from w consider "utf8_char_width b = 2" | "utf8_char_width b = 3" | "utf8_char_width b = 4" by blast
    then show ?thesis
    proof cases
      case 1
      then have "0xC2 \<le> b" "b \<le> 0xDF" by (auto simp: utf8_char_width_def split: if_splits)
      then obtain x where x: "b = 0xC0 + x" "2 \<le> x" "x < 32" by (auto simp: le_iff_add)
      with 1 ds y Cons bs2 show ?thesis by (simp add: encode_char_def scalar_def)
    next
      case 2
      then have "0xE0 \<le> b" "b \<le> 0xEF" by (auto simp: utf8_char_width_def split: if_splits)
      then obtain x where x: "b = 0xE0 + x" "x < 16" by (auto simp: le_iff_add)
      from 2 ds(2) obtain z where z: "ds = [z]" by (auto simp: length_Suc_conv)
      with 2 ds x y have c: "c = (x * 64 + y) * 64 + z" "z < 64" by simp_all
      moreover have "x \<le> 12 \<or> x = 13 \<or> 14 \<le> x" by linarith
      ultimately have "0x800 \<le> c" "c < 0x10000" "scalar c"
        using x y ok by (auto simp: second_ok_def scalar_def)
      with encode_char_3[OF c(1) y(2) c(2)] x y z ds(1) Cons bs2 show ?thesis by simp
    next
      case 3
      then have "0xF0 \<le> b" "b \<le> 0xF4" by (auto simp: utf8_char_width_def split: if_splits)
      then obtain x where x: "b = 0xF0 + x" "x \<le> 4"
        by (intro that[of "b - 0xF0"]) simp_all
      from 3 ds(2) obtain z w where z: "ds = [z, w]" by (auto simp: length_Suc_conv numeral_2_eq_2)
      with 3 ds x y have c: "c = ((x * 64 + y) * 64 + z) * 64 + w" "z < 64" "w < 64" by simp_all
      with x y ok have "0x10000 \<le> c" "scalar c" by (auto simp: second_ok_def scalar_def)
      with encode_char_4[OF c(1) y(2) c(2,3)] x y z ds(1) Cons bs2 show ?thesis by simp
    qed
  qed
qed

text \<open>A beginning of an encoded character is neither complete nor wrong.\<close>

lemma decode_rest_strict:
  "decode_rest n seen c (bs @ bs') = Decoded d r \<Longrightarrow> length bs < n \<Longrightarrow> decode_rest n seen c bs = Incomplete"
proof (induction n seen c bs rule: decode_rest.induct)
  case (3 n seen c b bs)
  then show ?case by (auto split: if_splits)
qed auto

lemma decode_rest_exact: "decode_rest n seen c bs = Decoded d [] \<Longrightarrow> length bs = n"
  by (induction n seen c bs rule: decode_rest.induct) (auto split: if_splits)

lemma decode_char_strict:
  assumes "scalar c" "strict_prefix q (encode_char c)"
  shows "decode_char q = Incomplete"
proof -
  from assms(2) obtain t where t: "encode_char c = q @ t" "t \<noteq> []" by (auto elim: strict_prefixE')
  with decode_encode[OF assms(1), of "[]"] have d: "decode_char (q @ t) = Decoded c []" by simp
  show ?thesis
  proof (cases q)
    case (Cons b q')
    show ?thesis
    proof (cases q')
      case Nil
      with d t(2) Cons show ?thesis by (auto simp: Let_def split: if_splits)
    next
      case (Cons b2 q2)
      with d \<open>q = b # q'\<close> obtain acc where ok: "second_ok b b2" and w: "utf8_char_width b \<notin> {0, 1}"
        and rest: "decode_rest (utf8_char_width b - 2) 2 acc (q2 @ t) = Decoded c []"
        and eq: "decode_char q = decode_rest (utf8_char_width b - 2) 2 acc q2"
        using t(2) by (auto simp: Let_def split: if_splits)
      from decode_rest_exact[OF rest] t(2) have "length q2 < utf8_char_width b - 2" by (cases t) auto
      with decode_rest_strict[OF rest] eq show ?thesis by simp
    qed
  qed simp
qed

section \<open>What validation says of a prefix of an encoded text\<close>

lemma from_utf8_at_Nil [simp]: "from_utf8_at i [] = Ok []"
  by (simp add: from_utf8_at.simps)

lemma from_utf8_at_char:
  "scalar c \<Longrightarrow> from_utf8_at i (encode_char c @ r) =
     (case from_utf8_at (i + length (encode_char c)) r of Ok s \<Rightarrow> Ok (c # s) | Err e \<Rightarrow> Err e)"
  by (subst from_utf8_at.simps) (simp add: decode_encode)

lemma from_utf8_at_encode:
  "\<forall>c \<in> set s. scalar c \<Longrightarrow> from_utf8_at i (encode s @ r) =
     (case from_utf8_at (i + length (encode s)) r of Ok s' \<Rightarrow> Ok (s @ s') | Err e \<Rightarrow> Err e)"
  by (induction s arbitrary: i) (auto simp: from_utf8_at_char add.assoc split: sum.split)

lemma from_utf8_encode: "\<forall>c \<in> set s. scalar c \<Longrightarrow> from_utf8 (encode s) = Ok s"
  using from_utf8_at_encode[of s 0 "[]"] by (simp add: from_utf8_def)

text \<open>The bytes held back: a proper, non-empty beginning of an encoded character, or nothing.\<close>

definition partial_char :: "bytes \<Rightarrow> bool" where
  "partial_char q \<longleftrightarrow> q = [] \<or> decode_char q = Incomplete"

lemma from_utf8_partial:
  assumes "\<forall>c \<in> set s. scalar c" "partial_char q"
  shows "from_utf8 (encode s @ q) =
    (if q = [] then Ok s else Err \<lparr>valid_up_to = length (encode s), error_len = None\<rparr>)"
proof -
  have "from_utf8_at i q = Err \<lparr>valid_up_to = i, error_len = None\<rparr>" if "q \<noteq> []" for i
    using that assms(2) by (simp add: from_utf8_at.simps partial_char_def)
  then show ?thesis by (simp add: from_utf8_def from_utf8_at_encode[OF assms(1)])
qed

lemma encode_prefix:
  assumes "\<forall>c \<in> set s. scalar c" "encode s = bs @ rest"
  shows "\<exists>s1 s2 q. s = s1 @ s2 \<and> bs = encode s1 @ q \<and> partial_char q"
  using assms
proof (induction s arbitrary: bs)
  case Nil
  then show ?case by (simp add: partial_char_def)
next
  case (Cons c s)
  show ?case
  proof (cases "strict_prefix bs (encode_char c)")
    case True
    with Cons.prems(1) have "partial_char bs" by (auto simp: partial_char_def intro: decode_char_strict)
    then show ?thesis by (intro exI[of _ "[]"] exI[of _ "c # s"] exI[of _ bs]) simp
  next
    case False
    with Cons.prems(2) obtain bs' where bs': "bs = encode_char c @ bs'" "encode s = bs' @ rest"
      by (auto simp: append_eq_append_conv2 strict_prefix_def)
    with Cons obtain s1 s2 q where "s = s1 @ s2" "bs' = encode s1 @ q" "partial_char q" by fastforce
    with bs' show ?thesis by (intro exI[of _ "c # s1"] exI[of _ s2] exI[of _ q]) simp
  qed
qed

text \<open>Conversely, validation splits any bytes into an encoded text and the rest where it stopped.\<close>

lemma from_utf8_at_split:
  "(case from_utf8_at i bs of
      Ok s \<Rightarrow> (\<forall>c \<in> set s. scalar c) \<and> bs = encode s
    | Err e \<Rightarrow> \<exists>s q. (\<forall>c \<in> set s. scalar c) \<and> bs = encode s @ q \<and> q \<noteq> [] \<and> valid_up_to e = i + length (encode s) \<and>
        decode_char q = (case error_len e of Some n \<Rightarrow> Invalid n | None \<Rightarrow> Incomplete))"
proof (induction i bs rule: from_utf8_at.induct)
  case (1 i bs)
  show ?case
  proof (cases "bs = []")
    case False
    show ?thesis
    proof (cases "decode_char bs")
      case (Decoded c r)
      from decode_char_Decoded[OF this] have c: "scalar c" "bs = encode_char c @ r" by simp_all
      let ?j = "i + (length bs - length r)"
      have eq: "from_utf8_at i bs = (case from_utf8_at ?j r of Ok s \<Rightarrow> Ok (c # s) | Err e \<Rightarrow> Err e)"
        using Decoded False by (simp add: from_utf8_at.simps[of i])
      note IH = "1.IH"[OF False Decoded]
      show ?thesis
      proof (cases "from_utf8_at ?j r")
        case (Inl e)
        with IH obtain s q where "\<forall>c \<in> set s. scalar c" "r = encode s @ q" "q \<noteq> []"
          "valid_up_to e = ?j + length (encode s)"
          "decode_char q = (case error_len e of Some n \<Rightarrow> Invalid n | None \<Rightarrow> Incomplete)" by auto
        with c Inl eq show ?thesis
          by simp (rule exI[of _ "c # s"], simp)
      next
        case (Inr s)
        with IH c eq show ?thesis by simp
      qed
    next
      case (Invalid n)
      with False show ?thesis by (simp add: from_utf8_at.simps[of i]) (rule exI[of _ "[]"], simp)
    next
      case Incomplete
      with False show ?thesis by (simp add: from_utf8_at.simps[of i]) (rule exI[of _ "[]"], simp)
    qed
  qed simp
qed

lemma from_utf8_split:
  shows "from_utf8 bs = Ok s \<Longrightarrow> (\<forall>c \<in> set s. scalar c) \<and> bs = encode s"
    and "from_utf8 bs = Err e \<Longrightarrow>
      \<exists>s q. (\<forall>c \<in> set s. scalar c) \<and> bs = encode s @ q \<and> q \<noteq> [] \<and> valid_up_to e = length (encode s) \<and>
        decode_char q = (case error_len e of Some n \<Rightarrow> Invalid n | None \<Rightarrow> Incomplete)"
  using from_utf8_at_split[where i = 0 and bs = bs] by (simp_all add: from_utf8_def)

text \<open>An unfinished character can be finished.\<close>

lemma decode_rest_finish:
  "decode_rest n seen c bs = Incomplete \<Longrightarrow> \<exists>more d. decode_rest n seen c (bs @ more) = Decoded d []"
proof (induction n seen c bs rule: decode_rest.induct)
  case (2 n seen c)
  have "\<exists>d. decode_rest n seen c (replicate n 0x80) = Decoded d []" for seen c
    by (induction n arbitrary: seen c) (simp_all add: continuation_def)
  then have "\<exists>d. decode_rest (Suc n) seen c (replicate (Suc n) 0x80) = Decoded d []"
    by (simp add: continuation_def)
  then show ?case by (metis append_Nil)
qed (auto split: if_splits)

lemma decode_char_finish:
  assumes "decode_char q = Incomplete" "q \<noteq> []"
  shows "\<exists>more c. scalar c \<and> q @ more = encode_char c"
proof -
  obtain b q' where q: "q = b # q'" using assms(2) by (cases q) auto
  have "\<exists>more c. decode_char (q @ more) = Decoded c []"
  proof (cases q')
    case Nil
    define b2 :: nat where "b2 = (if b = 0xE0 then 0xA0 else if b = 0xF0 then 0x90 else 0x80)"
    have ok: "second_ok b b2" by (simp add: b2_def second_ok_def continuation_def)
    from Nil q assms(1) have w: "utf8_char_width b \<notin> {0, 1}" by (auto simp: Let_def split: if_splits)
    have more: "\<exists>more d. decode_rest n 2 acc more = Decoded d []" for n acc
      using decode_rest_finish[of n 2 acc "[]"] by (cases n) auto
    let ?w = "utf8_char_width b"
    have "decode_char (q @ b2 # more) = decode_rest (?w - 2) 2
        ((b - (if ?w = 2 then 0xC0 else if ?w = 3 then 0xE0 else 0xF0)) * 64 + (b2 - 0x80)) more" for more
      using ok w Nil q by (simp add: Let_def)
    with more show ?thesis by metis
  next
    case (Cons b2 q2)
    with q assms(1) show ?thesis
      by (auto simp: Let_def dest!: decode_rest_finish split: if_splits)
  qed
  then show ?thesis by (metis append_Nil2 decode_char_Decoded)
qed

section \<open>The adapter is transparent\<close>

lemma partial_char_encode: "partial_char (encode s) \<Longrightarrow> \<forall>c \<in> set s. scalar c \<Longrightarrow> s = []"
  by (cases s) (auto simp: partial_char_def decode_encode)

lemma utf8_push_bytes_partial:
  assumes "u_pending p @ chunk = encode s @ q" "\<forall>c \<in> set s. scalar c" "partial_char q"
  shows "utf8_push_bytes push_str p chunk =
    (if s = [] \<and> q \<noteq> [] then (p\<lparr>u_pending := q\<rparr>, Ok empty_chunk)
     else (p\<lparr>u_inner := fst (push_str (u_inner p) s), u_pending := q\<rparr>, Ok (snd (push_str (u_inner p) s))))"
proof -
  note f = from_utf8_partial[OF assms(2,3)]
  consider "s = []" "q \<noteq> []" | "q = []" | "s \<noteq> []" "q \<noteq> []" by blast
  then show ?thesis
    using f assms by cases (simp_all add: utf8_push_bytes_def from_utf8_encode case_prod_beta)
qed

context stream_text_parser
begin

text \<open>However the encoded bytes are cut into chunks, the inner parser has seen the text.\<close>

lemma utf8_push_all_encode:
  assumes "inv (u_inner p)" "partial_char (u_pending p)"
    "u_pending p @ concat chunks = encode s" "\<forall>c \<in> set s. scalar c"
  shows "\<exists>out. utf8_push_all push_str p chunks =
      (\<lparr>u_inner = fst (push_str (u_inner p) s), u_pending = []\<rparr>, Ok out) \<and>
    visible_text out = visible_text (snd (push_str (u_inner p) s)) \<and>
    canon (extracted out) = canon (extracted (snd (push_str (u_inner p) s)))"
  using assms
proof (induction chunks arbitrary: p s)
  case Nil
  then have "s = []" using partial_char_encode[of s] by simp
  with Nil show ?case by (cases p) (simp add: push_nil)
next
  case (Cons chunk chunks)
  from Cons.prems(3) have "encode s = (u_pending p @ chunk) @ concat chunks" by simp
  from encode_prefix[OF Cons.prems(4) this] obtain s1 s2 q
    where s: "s = s1 @ s2" and chunk: "u_pending p @ chunk = encode s1 @ q" and q: "partial_char q" by blast
  from s Cons.prems(4) have sc: "\<forall>c \<in> set s1. scalar c" "\<forall>c \<in> set s2. scalar c" by auto
  let ?inner = "fst (push_str (u_inner p) s1)" and ?out = "snd (push_str (u_inner p) s1)"
  let ?p = "p\<lparr>u_inner := ?inner, u_pending := q\<rparr>"
  have push: "utf8_push_bytes push_str p chunk = (?p, Ok ?out)"
    unfolding utf8_push_bytes_partial[OF chunk sc(1) q] using push_nil[OF Cons.prems(1)] by (cases p) auto
  from Cons.prems(3) s have "(u_pending p @ chunk) @ concat chunks = encode s1 @ encode s2" by simp
  then have rest: "q @ concat chunks = encode s2" unfolding chunk by simp
  obtain out where out: "utf8_push_all push_str ?p chunks = (\<lparr>u_inner = fst (push_str ?inner s2), u_pending = []\<rparr>, Ok out)"
    "visible_text out = visible_text (snd (push_str ?inner s2))"
    "canon (extracted out) = canon (extracted (snd (push_str ?inner s2)))"
    using Cons.IH[of ?p s2] push_inv[OF Cons.prems(1)] q rest sc(2) by auto
  have "canon (extracted (append_chunk ?out out)) = canon (extracted ?out @ extracted (snd (push_str ?inner s2)))"
    using canon_cong[OF refl out(3)] by simp
  with push out push_push_state[OF Cons.prems(1)] push_push_visible[OF Cons.prems(1)]
    push_push_extracted[OF Cons.prems(1)] s show ?case by simp
qed

lemma utf8_run_encode:
  assumes "inv inner" "concat chunks = encode s" "\<forall>c \<in> set s. scalar c"
  shows "\<exists>out. utf8_run push_str fin inner chunks = Ok out \<and>
    visible_text out = visible_text (run_stream push_str fin inner [s]) \<and>
    canon (extracted out) = canon (extracted (run_stream push_str fin inner [s]))"
proof -
  obtain out where out: "utf8_push_all push_str (utf8_new inner) chunks =
      (\<lparr>u_inner = fst (push_str inner s), u_pending = []\<rparr>, Ok out)"
    "visible_text out = visible_text (snd (push_str inner s))"
    "canon (extracted out) = canon (extracted (snd (push_str inner s)))"
    using utf8_push_all_encode[of "utf8_new inner" chunks s] assms by (auto simp: utf8_new_def partial_char_def)
  let ?tail = "snd (fin (fst (push_str inner s)))"
  have "snd (utf8_finish push_str fin \<lparr>u_inner = fst (push_str inner s), u_pending = []\<rparr>) = Ok ?tail"
    by (simp add: utf8_finish_def check_pending_def case_prod_beta append_chunk_def)
  with out canon_cong[OF out(3) refl, of "extracted ?tail"] show ?thesis
    by (simp add: utf8_run_def run_stream_def case_prod_beta)
qed

end

text \<open>
  C30. Raw bytes can be cut anywhere: for the UTF-8 bytes of any text, in chunks that may split code
  points, the byte adapter around the citation parser never fails and delivers exactly what the
  citation parser delivers for the whole text.
\<close>

theorem utf8_citation_transparent:
  assumes "concat chunks = encode s" "\<forall>c \<in> set s. scalar c"
  shows "utf8_run citation_push_str citation_finish citation_new chunks =
    Ok (run_stream citation_push_str citation_finish citation_new [s])"
proof -
  obtain out where "utf8_run citation_push_str citation_finish citation_new chunks = Ok out"
    "visible_text out = visible_text (run_stream citation_push_str citation_finish citation_new [s])"
    "extracted out = extracted (run_stream citation_push_str citation_finish citation_new [s])"
    using citation.utf8_run_encode[OF citation_new_inv assms] by auto
  then show ?thesis by (simp add: stream_text_chunk.equality)
qed

theorem utf8_citation_transparent_witness:
  "utf8_run citation_push_str citation_finish citation_new [[0x61, 0xE2], [0x82], [0xAC, 0xF0, 0x9F], [0x98, 0x80]] =
   Ok (run_stream citation_push_str citation_finish citation_new [[0x61, 0x20AC, 0x1F600]])"
  by (rule utf8_citation_transparent) (simp_all add: encode_char_def scalar_def)

definition completable :: "bytes \<Rightarrow> bool" where
  "completable bs \<longleftrightarrow> (\<exists>more s. list_all scalar s \<and> bs @ more = encode s)"

lemma completable_partial:
  assumes "\<forall>c \<in> set s. scalar c" "partial_char q"
  shows "completable (encode s @ q)"
proof (cases "q = []")
  case True
  with assms show ?thesis unfolding completable_def list_all_iff by (metis append_Nil2)
next
  case False
  with assms(2) decode_char_finish obtain more c where "scalar c" "q @ more = encode_char c"
    unfolding partial_char_def by blast
  with assms(1) show ?thesis unfolding completable_def
    by (intro exI[of _ more] exI[of _ "s @ [c]"]) (simp add: list_all_iff)
qed

lemma completableD:
  assumes "completable bs" "from_utf8 bs = Err e"
  shows "error_len e = None"
proof -
  from assms(1) obtain more s where "encode s = bs @ more" "\<forall>c \<in> set s. scalar c"
    unfolding completable_def list_all_iff by metis
  with encode_prefix obtain s1 s2 q where "s = s1 @ s2" "bs = encode s1 @ q" "partial_char q" by blast
  with from_utf8_partial[of s1 q] \<open>\<forall>c \<in> set s. scalar c\<close> assms(2) show ?thesis by (auto split: if_splits)
qed

text \<open>
  C31. A chunk is rejected exactly when no continuation of the stream could be valid UTF-8; a rejected
  chunk leaves the adapter, its buffered bytes and the inner parser, as they were.  After an accepted
  chunk at most an unfinished code point is buffered.
\<close>

theorem push_bytes_rejects:
  "case utf8_push_bytes push_str p chunk of
     (p', Err e) \<Rightarrow> p' = p \<and> \<not> completable (u_pending p @ chunk)
   | (p', Ok out) \<Rightarrow> partial_char (u_pending p') \<and> completable (u_pending p @ chunk)"
proof (cases "from_utf8 (u_pending p @ chunk)")
  case (Inr s)
  with from_utf8_split(1)[OF this] completable_partial[of s "[]"] show ?thesis
    by (simp add: utf8_push_bytes_def case_prod_beta partial_char_def)
next
  case (Inl e)
  from from_utf8_split(2)[OF this] obtain s q where sq: "\<forall>c \<in> set s. scalar c" "u_pending p @ chunk = encode s @ q"
    "q \<noteq> []" "decode_char q = (case error_len e of Some n \<Rightarrow> Invalid n | None \<Rightarrow> Incomplete)" by blast
  show ?thesis
  proof (cases "error_len e")
    case None
    with sq have q: "partial_char q" by (simp add: partial_char_def)
    show ?thesis
      unfolding utf8_push_bytes_partial[OF sq(2,1) q] using completable_partial[OF sq(1) q] sq(2) q by auto
  next
    case (Some n)
    with completableD[OF _ Inl] have "\<not> completable (u_pending p @ chunk)" by fastforce
    with Inl Some show ?thesis by (cases p) (simp add: utf8_push_bytes_def)
  qed
qed

end
