(* ===== verification/Tagged_Line.thy ===== *)
theory Tagged_Line
  imports Stream_Text
begin

text \<open>
  Tag blocks whose tags stand alone on a line (\<open>tagged_line_parser.rs\<close>) and the proposed-plan parser
  built on it (\<open>proposed_plan.rs\<close>), under \<open>codex-rs/utils/stream-parser/src\<close>: the character-wise
  streaming parser, and its equivalence with a parser that reads whole lines.
\<close>

section \<open>Model\<close>

record 't tag_spec =
  ts_open :: rstr
  ts_close :: rstr
  ts_tag :: 't

datatype 't tagged_line_segment =
    Normal rstr
  | TagStart 't
  | TagDelta 't rstr
  | TagEnd 't

record 't tagged_line_parser =
  tl_specs :: "'t tag_spec list"
  tl_active :: "'t option"
  tl_detect :: bool
  tl_buffer :: rstr

definition tagged_line_new :: "'t tag_spec list \<Rightarrow> 't tagged_line_parser" where
  "tagged_line_new specs = \<lparr>tl_specs = specs, tl_active = None, tl_detect = True, tl_buffer = []\<rparr>"

fun push_segment :: "'t tagged_line_segment list \<Rightarrow> 't tagged_line_segment \<Rightarrow> 't tagged_line_segment list" where
  "push_segment segments (Normal delta) =
     (if delta = [] then segments
      else case last_opt segments of
        Some (Normal existing) \<Rightarrow> butlast segments @ [Normal (existing @ delta)]
      | _ \<Rightarrow> segments @ [Normal delta])"
| "push_segment segments (TagDelta tag delta) =
     (if delta = [] then segments
      else case last_opt segments of
        Some (TagDelta existing_tag existing) \<Rightarrow>
          if existing_tag = tag then butlast segments @ [TagDelta existing_tag (existing @ delta)]
          else segments @ [TagDelta tag delta]
      | _ \<Rightarrow> segments @ [TagDelta tag delta])"
| "push_segment segments (TagStart tag) = segments @ [TagStart tag]"
| "push_segment segments (TagEnd tag) = segments @ [TagEnd tag]"

definition text_segment :: "'t option \<Rightarrow> rstr \<Rightarrow> 't tagged_line_segment" where
  "text_segment active text = (case active of Some tag \<Rightarrow> TagDelta tag text | None \<Rightarrow> Normal text)"

definition push_text ::
    "'t tagged_line_parser \<Rightarrow> rstr \<Rightarrow> 't tagged_line_segment list \<Rightarrow> 't tagged_line_segment list" where
  "push_text p text segments = push_segment segments (text_segment (tl_active p) text)"

definition is_tag_prefix :: "'t tag_spec list \<Rightarrow> rstr \<Rightarrow> bool" where
  "is_tag_prefix specs slug =
     (let slug = trim_end slug
      in list_ex (\<lambda>spec. prefix slug (ts_open spec) \<or> prefix slug (ts_close spec)) specs)"

definition match_open :: "'t tag_spec list \<Rightarrow> rstr \<Rightarrow> 't option" where
  "match_open specs slug = map_option ts_tag (find (\<lambda>spec. ts_open spec = slug) specs)"

definition match_close :: "'t tag_spec list \<Rightarrow> rstr \<Rightarrow> 't option" where
  "match_close specs slug = map_option ts_tag (find (\<lambda>spec. ts_close spec = slug) specs)"

definition line_slug :: "rstr \<Rightarrow> rstr" where
  "line_slug line =
     (let without_newline = (case strip_suffix [LF] line of Some l \<Rightarrow> l | None \<Rightarrow> line)
      in trim_end (trim_start without_newline))"

text \<open>The three-way decision shared by \<open>finish_line\<close> and \<open>finish\<close>: the new active tag and the segment.\<close>

definition line_segment :: "'t tag_spec list \<Rightarrow> 't option \<Rightarrow> rstr \<Rightarrow> 't option \<times> 't tagged_line_segment" where
  "line_segment specs active line =
     (let slug = line_slug line in
      case match_open specs slug of
        Some tag \<Rightarrow>
          if active = None then (Some tag, TagStart tag)
          else (case match_close specs slug of
            Some tag \<Rightarrow> if active = Some tag then (None, TagEnd tag) else (active, text_segment active line)
          | None \<Rightarrow> (active, text_segment active line))
      | None \<Rightarrow>
          (case match_close specs slug of
             Some tag \<Rightarrow> if active = Some tag then (None, TagEnd tag) else (active, text_segment active line)
           | None \<Rightarrow> (active, text_segment active line)))"

definition finish_line ::
    "'t tagged_line_parser \<Rightarrow> 't tagged_line_segment list \<Rightarrow> 't tagged_line_parser \<times> 't tagged_line_segment list" where
  "finish_line p segments =
     (let (active, segment) = line_segment (tl_specs p) (tl_active p) (tl_buffer p)
      in (p\<lparr>tl_active := active, tl_detect := True, tl_buffer := []\<rparr>, push_segment segments segment))"

text \<open>The loop of \<open>parse\<close> over the characters, with its \<open>run\<close> and \<open>segments\<close>.\<close>

fun parse_chars ::
    "'t tagged_line_parser \<Rightarrow> rstr \<Rightarrow> 't tagged_line_segment list \<Rightarrow> rstr \<Rightarrow>
     't tagged_line_parser \<times> 't tagged_line_segment list" where
  "parse_chars p run segments [] = (p, if run = [] then segments else push_text p run segments)"
| "parse_chars p run segments (ch # cs) =
     (if tl_detect p
      then let segments = (if run = [] then segments else push_text p run segments);
               p = p\<lparr>tl_buffer := tl_buffer p @ [ch]\<rparr>
           in if ch = LF
              then let (p, segments) = finish_line p segments in parse_chars p [] segments cs
              else let slug = trim_start (tl_buffer p)
                   in if slug = [] \<or> is_tag_prefix (tl_specs p) slug then parse_chars p [] segments cs
                      else parse_chars (p\<lparr>tl_buffer := [], tl_detect := False\<rparr>) []
                             (push_text p (tl_buffer p) segments) cs
      else let run = run @ [ch]
           in if ch = LF then parse_chars (p\<lparr>tl_detect := True\<rparr>) [] (push_text p run segments) cs
              else parse_chars p run segments cs)"

definition tagged_parse ::
    "'t tagged_line_parser \<Rightarrow> rstr \<Rightarrow> 't tagged_line_parser \<times> 't tagged_line_segment list" where
  "tagged_parse p delta = parse_chars p [] [] delta"

definition tagged_finish :: "'t tagged_line_parser \<Rightarrow> 't tagged_line_parser \<times> 't tagged_line_segment list" where
  "tagged_finish p =
     (let (p, segments) =
            (if tl_buffer p = [] then (p, [])
             else let (active, segment) = line_segment (tl_specs p) (tl_active p) (tl_buffer p)
                  in (p\<lparr>tl_active := active, tl_buffer := []\<rparr>, push_segment [] segment));
          segments = (case tl_active p of Some tag \<Rightarrow> push_segment segments (TagEnd tag) | None \<Rightarrow> segments)
      in (p\<lparr>tl_active := None, tl_detect := True\<rparr>, segments))"

section \<open>Proposed plans\<close>

datatype plan_tag = ProposedPlan

definition OPEN_TAG :: rstr where "OPEN_TAG = str ''<proposed_plan>''"
definition CLOSE_TAG :: rstr where "CLOSE_TAG = str ''</proposed_plan>''"

datatype proposed_plan_segment =
    PlanNormal rstr
  | ProposedPlanStart
  | ProposedPlanDelta rstr
  | ProposedPlanEnd

definition plan_specs :: "plan_tag tag_spec list" where
  "plan_specs = [\<lparr>ts_open = OPEN_TAG, ts_close = CLOSE_TAG, ts_tag = ProposedPlan\<rparr>]"

definition plan_new :: "plan_tag tagged_line_parser" where
  "plan_new = tagged_line_new plan_specs"

fun map_segment :: "plan_tag tagged_line_segment \<Rightarrow> proposed_plan_segment" where
  "map_segment (Normal text) = PlanNormal text"
| "map_segment (TagStart ProposedPlan) = ProposedPlanStart"
| "map_segment (TagDelta ProposedPlan text) = ProposedPlanDelta text"
| "map_segment (TagEnd ProposedPlan) = ProposedPlanEnd"

fun plan_visible :: "proposed_plan_segment \<Rightarrow> rstr" where
  "plan_visible (PlanNormal text) = text"
| "plan_visible _ = []"

definition map_segments :: "plan_tag tagged_line_segment list \<Rightarrow> proposed_plan_segment stream_text_chunk" where
  "map_segments segments =
     (let mapped = map map_segment segments
      in \<lparr>visible_text = concat (map plan_visible mapped), extracted = mapped\<rparr>)"

definition plan_push_str ::
    "plan_tag tagged_line_parser \<Rightarrow> rstr \<Rightarrow> plan_tag tagged_line_parser \<times> proposed_plan_segment stream_text_chunk" where
  "plan_push_str p chunk = (let (p, segments) = tagged_parse p chunk in (p, map_segments segments))"

definition plan_finish ::
    "plan_tag tagged_line_parser \<Rightarrow> plan_tag tagged_line_parser \<times> proposed_plan_segment stream_text_chunk" where
  "plan_finish p = (let (p, segments) = tagged_finish p in (p, map_segments segments))"

definition strip_proposed_plan_blocks :: "rstr \<Rightarrow> rstr" where
  "strip_proposed_plan_blocks text =
     (let (parser, out) = plan_push_str plan_new text; (parser, tail) = plan_finish parser
      in visible_text out @ visible_text tail)"

text \<open>The loop of \<open>extract_proposed_plan_text\<close> over the segments.\<close>

fun last_plan :: "rstr \<Rightarrow> bool \<Rightarrow> proposed_plan_segment list \<Rightarrow> rstr option" where
  "last_plan plan_text saw_plan_block [] = (if saw_plan_block then Some plan_text else None)"
| "last_plan plan_text saw_plan_block (ProposedPlanStart # segs) = last_plan [] True segs"
| "last_plan plan_text saw_plan_block (ProposedPlanDelta delta # segs) =
     last_plan (plan_text @ delta) saw_plan_block segs"
| "last_plan plan_text saw_plan_block (ProposedPlanEnd # segs) = last_plan plan_text saw_plan_block segs"
| "last_plan plan_text saw_plan_block (PlanNormal _ # segs) = last_plan plan_text saw_plan_block segs"

definition extract_proposed_plan_text :: "rstr \<Rightarrow> rstr option" where
  "extract_proposed_plan_text text =
     (let (parser, out) = plan_push_str plan_new text; (parser, tail) = plan_finish parser
      in last_plan [] False (extracted out @ extracted tail))"

lemmas [stream_eval] =
  tagged_line_new_def text_segment_def push_text_def is_tag_prefix_def match_open_def match_close_def
  line_slug_def line_segment_def finish_line_def tagged_parse_def tagged_finish_def OPEN_TAG_def
  CLOSE_TAG_def plan_specs_def plan_new_def map_segments_def plan_push_str_def plan_finish_def
  strip_proposed_plan_blocks_def extract_proposed_plan_text_def

section \<open>Merging adjacent text\<close>

text \<open>\<open>push_segment\<close> merges adjacent texts of one kind; two sequences are equivalent if they merge alike.\<close>

definition merge :: "'t tagged_line_segment list \<Rightarrow> 't tagged_line_segment list" where
  "merge = foldl push_segment []"

fun seg_blank :: "'t tagged_line_segment \<Rightarrow> bool" where
  "seg_blank (Normal t) = (t = [])"
| "seg_blank (TagDelta _ t) = (t = [])"
| "seg_blank _ = False"

fun seg_join :: "'t tagged_line_segment \<Rightarrow> 't tagged_line_segment \<Rightarrow> 't tagged_line_segment option" where
  "seg_join (Normal a) (Normal b) = Some (Normal (a @ b))"
| "seg_join (TagDelta t a) (TagDelta u b) = (if t = u then Some (TagDelta t (a @ b)) else None)"
| "seg_join _ _ = None"

lemma push_segment_blank: "seg_blank x \<Longrightarrow> push_segment segs x = segs"
  by (cases x) auto

lemma push_segment_Nil: "push_segment [] x = (if seg_blank x then [] else [x])"
  by (cases x) auto

lemma push_segment_snoc:
  "push_segment (zs @ [y]) x =
     (if seg_blank x then zs @ [y] else case seg_join y x of Some z \<Rightarrow> zs @ [z] | None \<Rightarrow> zs @ [y, x])"
  by (cases x; cases y) simp_all

lemma seg_join_blank: "seg_join y x = Some z \<Longrightarrow> seg_blank z \<longleftrightarrow> seg_blank y \<and> seg_blank x"
  by (cases y; cases x) (auto split: if_splits)

lemma seg_join_blank_left: "seg_join y x = Some z \<Longrightarrow> seg_blank y \<Longrightarrow> z = x"
  by (cases y; cases x) (auto split: if_splits)

lemma seg_join_assoc:
  "seg_join y x = Some z \<Longrightarrow> seg_join a z = Option.bind (seg_join a y) (\<lambda>w. seg_join w x)"
  by (cases a; cases y; cases x) (auto split: if_splits)

lemma seg_join_join: "seg_join y x = Some z \<Longrightarrow> seg_join a y = Some w \<Longrightarrow> seg_join w x \<noteq> None"
  by (cases a; cases y; cases x) (auto split: if_splits)

lemma push_segment_join:
  assumes "seg_join y x = Some z" "\<not> seg_blank x"
  shows "push_segment (push_segment segs y) x = push_segment segs z"
proof (cases "seg_blank y")
  case True
  with seg_join_blank_left[OF assms(1)] show ?thesis by (simp add: push_segment_blank)
next
  case False
  with assms have z: "\<not> seg_blank z" by (simp add: seg_join_blank)
  show ?thesis
  proof (cases segs rule: rev_cases)
    case Nil
    with assms False z push_segment_snoc[of "[]" y x] show ?thesis by (simp add: push_segment_Nil)
  next
    case (snoc zs a)
    with assms False z push_segment_snoc[of "zs @ [a]" y x] seg_join_assoc[OF assms(1), of a]
      seg_join_join[OF assms(1), of a] show ?thesis
      by (cases "seg_join a y") (auto simp: push_segment_snoc split: option.split)
  qed
qed

lemma foldl_push_segment:
  "foldl push_segment segs (push_segment ys x) = push_segment (foldl push_segment segs ys) x"
proof (cases ys rule: rev_cases)
  case Nil
  then show ?thesis by (simp add: push_segment_Nil push_segment_blank)
next
  case (snoc zs y)
  then show ?thesis
    using push_segment_join[of y x _ "foldl push_segment segs zs"]
    by (auto simp: push_segment_snoc push_segment_blank split: option.split)
qed

lemma foldl_push_merge: "foldl push_segment segs (merge ys) = foldl push_segment segs ys"
  unfolding merge_def by (induction ys rule: rev_induct) (simp_all add: foldl_push_segment)

lemma merge_append: "merge (xs @ ys) = foldl push_segment (merge xs) ys"
  by (simp add: merge_def)

lemma merge_idem [simp]: "merge (merge xs) = merge xs"
  using foldl_push_merge[of "[]" xs] by (simp add: merge_def)

lemma merge_merge: "merge (merge xs @ merge ys) = merge (xs @ ys)"
  by (simp add: merge_append foldl_push_merge)

lemma text_segment_join [simp]: "seg_join (text_segment act a) (text_segment act b) = Some (text_segment act (a @ b))"
  by (simp add: text_segment_def split: option.split)

lemma text_segment_blank [simp]: "seg_blank (text_segment act a) \<longleftrightarrow> a = []"
  by (simp add: text_segment_def split: option.split)

lemma push_text_twice:
  "push_segment (push_segment segs (text_segment act a)) (text_segment act b) =
   push_segment segs (text_segment act (a @ b))"
  by (cases "b = []") (simp_all add: push_segment_blank push_segment_join)

section \<open>One character at a time\<close>

text \<open>The segments a single character causes, before merging.\<close>

definition char_step ::
    "'t tagged_line_parser \<Rightarrow> rchar \<Rightarrow> 't tagged_line_parser \<times> 't tagged_line_segment list" where
  "char_step p ch =
     (if tl_detect p
      then let p = p\<lparr>tl_buffer := tl_buffer p @ [ch]\<rparr>
           in if ch = LF
              then let (active, segment) = line_segment (tl_specs p) (tl_active p) (tl_buffer p)
                   in (p\<lparr>tl_active := active, tl_detect := True, tl_buffer := []\<rparr>, [segment])
              else let slug = trim_start (tl_buffer p)
                   in if slug = [] \<or> is_tag_prefix (tl_specs p) slug then (p, [])
                      else (p\<lparr>tl_buffer := [], tl_detect := False\<rparr>, [text_segment (tl_active p) (tl_buffer p)])
      else (p\<lparr>tl_detect := (ch = LF)\<rparr>, [text_segment (tl_active p) [ch]]))"

fun char_steps ::
    "'t tagged_line_parser \<Rightarrow> rstr \<Rightarrow> 't tagged_line_parser \<times> 't tagged_line_segment list" where
  "char_steps p [] = (p, [])"
| "char_steps p (ch # cs) =
     (let (p1, segs1) = char_step p ch; (p2, segs2) = char_steps p1 cs in (p2, segs1 @ segs2))"

lemma char_steps_append:
  "char_steps p (cs @ ds) =
     (let (p1, segs1) = char_steps p cs; (p2, segs2) = char_steps p1 ds in (p2, segs1 @ segs2))"
  by (induction cs arbitrary: p) (simp_all add: case_prod_beta Let_def)

lemma parse_chars_steps:
  "parse_chars p run segs cs =
     (fst (char_steps p cs),
      foldl push_segment (push_segment segs (text_segment (tl_active p) run)) (snd (char_steps p cs)))"
proof (induction cs arbitrary: p run segs)
  case Nil
  then show ?case by (simp add: push_text_def push_segment_blank)
next
  case (Cons ch cs)
  have run: "(if run = [] then segs else push_text p run segs) = push_segment segs (text_segment (tl_active p) run)"
    by (simp add: push_text_def push_segment_blank)
  have nil: "push_segment xs (text_segment act []) = xs" for xs :: "'a tagged_line_segment list" and act
    by (simp add: push_segment_blank)
  show ?case
  proof (cases "tl_detect p")
    case True
    then show ?thesis
      by (simp add: run Cons.IH char_step_def finish_line_def push_text_def nil case_prod_beta Let_def)
  next
    case False
    then have "char_step p ch =
        (if ch = LF then p\<lparr>tl_detect := True\<rparr> else p, [text_segment (tl_active p) [ch]])"
      by (cases p) (simp add: char_step_def)
    with False show ?thesis
      by (simp add: Cons.IH push_text_def nil push_text_twice case_prod_beta Let_def)
  qed
qed

lemma tagged_parse_steps:
  "tagged_parse p cs = (fst (char_steps p cs), merge (snd (char_steps p cs)))"
  by (simp add: tagged_parse_def parse_chars_steps merge_def push_segment_blank)

lemma tagged_parse_append:
  "fst (tagged_parse p (s @ t)) = fst (tagged_parse (fst (tagged_parse p s)) t)"
  "merge (snd (tagged_parse p s) @ snd (tagged_parse (fst (tagged_parse p s)) t)) =
     merge (snd (tagged_parse p (s @ t)))"
  by (simp_all add: tagged_parse_steps char_steps_append case_prod_beta Let_def merge_merge)

section \<open>Plan segments\<close>

fun unmap_segment :: "proposed_plan_segment \<Rightarrow> plan_tag tagged_line_segment" where
  "unmap_segment (PlanNormal text) = Normal text"
| "unmap_segment ProposedPlanStart = TagStart ProposedPlan"
| "unmap_segment (ProposedPlanDelta text) = TagDelta ProposedPlan text"
| "unmap_segment ProposedPlanEnd = TagEnd ProposedPlan"

lemma unmap_map [simp]: "unmap_segment (map_segment x) = x"
  by (cases x rule: map_segment.cases) simp_all

lemma plan_visible_map [simp]:
  "plan_visible (map_segment (TagDelta tag t)) = []"
  "plan_visible (map_segment (TagStart tag)) = []"
  "plan_visible (map_segment (TagEnd tag)) = []"
  by (cases tag; simp)+

lemma unmap_map_list [simp]: "map unmap_segment (map map_segment xs) = xs"
  by (simp add: map_idI)

definition plan_merge :: "proposed_plan_segment list \<Rightarrow> proposed_plan_segment list" where
  "plan_merge xs = map map_segment (merge (map unmap_segment xs))"

lemma plan_merge_append: "plan_merge (plan_merge xs @ plan_merge ys) = plan_merge (xs @ ys)"
  unfolding plan_merge_def map_append unmap_map_list merge_merge ..

definition segs_visible :: "plan_tag tagged_line_segment list \<Rightarrow> rstr" where
  "segs_visible segs = concat (map (plan_visible \<circ> map_segment) segs)"

lemma segs_visible_push: "segs_visible (push_segment segs x) = segs_visible segs @ plan_visible (map_segment x)"
proof (cases segs rule: rev_cases)
  case Nil
  then show ?thesis by (cases x rule: map_segment.cases) (auto simp: segs_visible_def)
next
  case (snoc zs y)
  have "plan_visible (map_segment z) = plan_visible (map_segment y) @ plan_visible (map_segment x)"
    if "seg_join y x = Some z" for z
    using that by (cases y; cases x) (auto split: if_splits)
  moreover have "plan_visible (map_segment x) = []" if "seg_blank x"
    using that by (cases x rule: map_segment.cases) auto
  ultimately show ?thesis
    using snoc by (auto simp: segs_visible_def push_segment_snoc split: option.split)
qed

lemma segs_visible_merge [simp]: "segs_visible (merge xs) = segs_visible xs"
proof (induction xs rule: rev_induct)
  case Nil
  then show ?case by (simp add: merge_def)
next
  case (snoc x xs)
  then show ?case by (simp add: merge_append segs_visible_push) (simp add: segs_visible_def)
qed

lemma map_segments_sel:
  "visible_text (map_segments segs) = segs_visible segs"
  "extracted (map_segments segs) = map map_segment segs"
  by (simp_all add: map_segments_def segs_visible_def)

lemma plan_push_str_eq:
  "plan_push_str p t = (fst (tagged_parse p t), map_segments (snd (tagged_parse p t)))"
  by (simp add: plan_push_str_def case_prod_beta)

interpretation plan: stream_text_parser plan_push_str plan_merge "\<lambda>_. True"
proof
  show "plan_push_str s [] = (s, empty_chunk)" for s
    by (simp add: plan_push_str_def tagged_parse_def map_segments_def empty_chunk_def)
  show "visible_text (snd (plan_push_str s t)) @ visible_text (snd (plan_push_str (fst (plan_push_str s t)) u)) =
      visible_text (snd (plan_push_str s (t @ u)))" for s t u
    using arg_cong[OF tagged_parse_append(2)[of s t u], of segs_visible]
    by (simp add: plan_push_str_eq map_segments_sel) (simp add: segs_visible_def)
  show "plan_merge (extracted (snd (plan_push_str s t)) @ extracted (snd (plan_push_str (fst (plan_push_str s t)) u))) =
      plan_merge (extracted (snd (plan_push_str s (t @ u))))" for s t u
    using tagged_parse_append(2)[of s t u]
    by (simp add: plan_push_str_eq map_segments_sel plan_merge_def del: map_map)
  show "plan_merge [] = []" by (simp add: plan_merge_def merge_def)
qed (simp_all add: plan_merge_append plan_push_str_eq tagged_parse_append(1)[symmetric])

section \<open>Equivalence with a parser of whole lines\<close>

fun line_run :: "'t tag_spec list \<Rightarrow> 't option \<Rightarrow> rstr list \<Rightarrow> 't option \<times> 't tagged_line_segment list" where
  "line_run specs active [] = (active, [])"
| "line_run specs active (l # ls) =
     (let (active, seg) = line_segment specs active l; (active, segs) = line_run specs active ls
      in (active, seg # segs))"

definition line_reference :: "'t tag_spec list \<Rightarrow> rstr \<Rightarrow> 't tagged_line_segment list" where
  "line_reference specs text =
     (let (active, segs) = line_run specs None (split_incl text)
      in segs @ (case active of Some tag \<Rightarrow> [TagEnd tag] | None \<Rightarrow> []))"

lemma trim_start_prefix:
  "prefix q body \<Longrightarrow> trim_start q = [] \<or> prefix (trim_start q) (trim_start body)"
proof -
  assume "prefix q body"
  then obtain r where "body = q @ r" by (rule prefixE)
  then show ?thesis
    by (cases "\<forall>c \<in> set q. is_whitespace c") (simp_all add: trim_start_append trim_start_all_ws)
qed

text \<open>Every beginning of a line that is a tag looks like the beginning of a tag.\<close>

lemma tag_line_prefix:
  assumes "prefix q body" "trim_start q \<noteq> []"
  shows "prefix (trim_end (trim_start q)) (trim body)"
proof -
  obtain ws where ws: "trim_start body = trim body @ ws" "\<forall>c \<in> set ws. is_whitespace c"
    using trim_end_eq_append[of "trim_start body"] by (auto simp: trim_def)
  from trim_start_prefix[OF assms(1)] assms(2) have "prefix (trim_start q) (trim body @ ws)"
    using ws(1) by simp
  then consider "prefix (trim_start q) (trim body)" | ws' where "trim_start q = trim body @ ws'" "prefix ws' ws"
    by (auto simp: prefix_append)
  then show ?thesis
  proof cases
    case 1
    then show ?thesis
      using trim_end_matches_prefix[of is_whitespace "trim_start q"] unfolding trim_end_def
      by (blast intro: prefix_order.trans)
  next
    case 2
    from 2(2) ws(2) have "\<forall>c \<in> set ws'. is_whitespace c" by (auto dest: set_mono_prefix)
    with 2(1) have "trim_end (trim_start q) = trim_end (trim body)" by (simp add: trim_end_all_ws)
    then show ?thesis by (simp add: trim_def)
  qed
qed

lemma not_tag_line:
  assumes "prefix q body" "trim_start q \<noteq> []" "\<not> is_tag_prefix specs (trim_start q)"
  shows "match_open specs (trim body) = None" "match_close specs (trim body) = None"
  using tag_line_prefix[OF assms(1,2)] assms(3)
  by (auto simp: is_tag_prefix_def match_open_def match_close_def list_ex_iff find_None_iff Let_def)

lemma line_slug_simps:
  "line_slug (body @ [LF]) = trim body"
  "LF \<notin> set body \<Longrightarrow> line_slug body = trim body"
  by (auto simp: line_slug_def trim_def strip_suffix_def suffix_def split: option.splits)

lemma line_segment_text:
  "match_open specs (line_slug line) = None \<Longrightarrow> match_close specs (line_slug line) = None \<Longrightarrow>
   line_segment specs active line = (active, text_segment active line)"
  by (simp add: line_segment_def)

lemma merge_text2: "merge (xs @ [text_segment act a, text_segment act b]) = merge (xs @ [text_segment act (a @ b)])"
  by (simp add: merge_append push_text_twice)

text \<open>After the tag detection of a line has been given up, its characters are text.\<close>

lemma char_steps_text:
  "\<not> tl_detect p \<Longrightarrow> LF \<notin> set cs \<Longrightarrow>
   fst (char_steps p cs) = p \<and> merge (xs @ snd (char_steps p cs)) = merge (xs @ [text_segment (tl_active p) cs])"
proof (induction cs arbitrary: xs)
  case Nil
  then show ?case by (simp add: merge_append push_segment_blank)
next
  case (Cons c cs)
  then have step: "char_step p c = (p, [text_segment (tl_active p) [c]])"
    by (cases p) (auto simp: char_step_def)
  from Cons.prems have "LF \<notin> set cs" by simp
  from Cons.IH[OF Cons.prems(1) this, of "xs @ [text_segment (tl_active p) [c]]"] step
    merge_text2[of xs "tl_active p" "[c]" cs]
  show ?case by (simp add: case_prod_beta Let_def)
qed

text \<open>The characters of a line, up to its line feed: detection is still on, or it was given up rightly.\<close>

definition gave_up :: "'t tag_spec list \<Rightarrow> rstr \<Rightarrow> bool" where
  "gave_up specs body \<longleftrightarrow> (\<exists>q. prefix q body \<and> trim_start q \<noteq> [] \<and> \<not> is_tag_prefix specs (trim_start q))"

lemma char_steps_line:
  "tl_detect p \<Longrightarrow> LF \<notin> set cs \<Longrightarrow>
   char_steps p cs = (p\<lparr>tl_buffer := tl_buffer p @ cs\<rparr>, []) \<or>
   (gave_up (tl_specs p) (tl_buffer p @ cs) \<and>
    fst (char_steps p cs) = p\<lparr>tl_buffer := [], tl_detect := False\<rparr> \<and>
    (\<forall>xs. merge (xs @ snd (char_steps p cs)) = merge (xs @ [text_segment (tl_active p) (tl_buffer p @ cs)])))"
proof (induction cs arbitrary: p)
  case Nil
  then show ?case by simp
next
  case (Cons c cs)
  then have c: "c \<noteq> LF" "LF \<notin> set cs" by auto
  let ?slug = "trim_start (tl_buffer p @ [c])"
  show ?case
  proof (cases "?slug = [] \<or> is_tag_prefix (tl_specs p) ?slug")
    case True
    with Cons.prems c have step: "char_step p c = (p\<lparr>tl_buffer := tl_buffer p @ [c]\<rparr>, [])"
      by (auto simp: char_step_def Let_def)
    from Cons.IH[of "p\<lparr>tl_buffer := tl_buffer p @ [c]\<rparr>"] Cons.prems(1) c step show ?thesis
      by (auto simp: case_prod_beta Let_def)
  next
    case False
    let ?p = "p\<lparr>tl_buffer := [], tl_detect := False\<rparr>"
    from False Cons.prems c have step:
      "char_step p c = (?p, [text_segment (tl_active p) (tl_buffer p @ [c])])"
      by (auto simp: char_step_def Let_def)
    have rest: "fst (char_steps ?p cs) = ?p"
      "merge (xs @ snd (char_steps ?p cs)) = merge (xs @ [text_segment (tl_active p) cs])" for xs
      using char_steps_text[of ?p cs xs] c by simp_all
    have "gave_up (tl_specs p) (tl_buffer p @ c # cs)"
      unfolding gave_up_def by (rule exI[of _ "tl_buffer p @ [c]"]) (use False in simp)
    moreover have "merge (xs @ snd (char_steps p (c # cs))) =
        merge (xs @ [text_segment (tl_active p) (tl_buffer p @ c # cs)])" for xs
      using rest(2)[of "xs @ [text_segment (tl_active p) (tl_buffer p @ [c])]"]
        merge_text2[of xs "tl_active p" "tl_buffer p @ [c]" cs] step
      by (simp add: case_prod_beta Let_def)
    ultimately show ?thesis using rest(1) step by (simp add: case_prod_beta Let_def)
  qed
qed

lemma gave_up_no_tag:
  assumes "gave_up specs body"
  shows "match_open specs (trim body) = None" "match_close specs (trim body) = None"
  using assms unfolding gave_up_def by (blast dest: not_tag_line)+

lemma merge_cong_left: "merge xs = merge ys \<Longrightarrow> merge (xs @ zs) = merge (ys @ zs)"
  by (simp add: merge_append)

lemma merge_snoc_merge: "merge (xs @ merge ys) = merge (xs @ ys)"
  by (simp add: merge_append foldl_push_merge)

text \<open>A whole line, and the last line when no line feed ends it, each from a parser at a line start.\<close>

definition fresh :: "'t tagged_line_parser \<Rightarrow> bool" where
  "fresh p \<longleftrightarrow> tl_detect p \<and> tl_buffer p = []"

lemma fresh_active: "fresh p \<Longrightarrow> fresh (p\<lparr>tl_active := a\<rparr>)"
  by (simp add: fresh_def)

lemma char_steps_full_line:
  assumes "fresh p" "LF \<notin> set body"
  defines "r \<equiv> line_segment (tl_specs p) (tl_active p) (body @ [LF])"
  shows "fst (char_steps p (body @ [LF])) = p\<lparr>tl_active := fst r\<rparr>"
    "merge (xs @ snd (char_steps p (body @ [LF]))) = merge (xs @ [snd r])"
proof -
  from assms(1) have p: "tl_detect p" "tl_buffer p = []" by (simp_all add: fresh_def)
  have "fst (char_steps p (body @ [LF])) = p\<lparr>tl_active := fst r\<rparr> \<and>
      merge (xs @ snd (char_steps p (body @ [LF]))) = merge (xs @ [snd r])"
    using char_steps_line[OF p(1) assms(2)]
  proof
    assume "char_steps p body = (p\<lparr>tl_buffer := tl_buffer p @ body\<rparr>, [])"
    with p show ?thesis
      by (cases p) (simp add: char_steps_append char_step_def r_def case_prod_beta Let_def)
  next
    assume *: "gave_up (tl_specs p) (tl_buffer p @ body) \<and>
      fst (char_steps p body) = p\<lparr>tl_buffer := [], tl_detect := False\<rparr> \<and>
      (\<forall>xs. merge (xs @ snd (char_steps p body)) = merge (xs @ [text_segment (tl_active p) (tl_buffer p @ body)]))"
    with p(2) have r: "r = (tl_active p, text_segment (tl_active p) (body @ [LF]))"
      unfolding r_def by (intro line_segment_text) (simp_all add: line_slug_simps gave_up_no_tag)
    have "merge ((xs @ snd (char_steps p body)) @ [text_segment (tl_active p) [LF]]) =
        merge (xs @ [text_segment (tl_active p) body, text_segment (tl_active p) [LF]])"
      using merge_cong_left[of "xs @ snd (char_steps p body)"] * p(2) by simp
    with * r p merge_text2[of xs "tl_active p" body "[LF]"] show ?thesis
      by (cases p) (simp add: char_steps_append char_step_def case_prod_beta Let_def)
  qed
  then show "fst (char_steps p (body @ [LF])) = p\<lparr>tl_active := fst r\<rparr>"
    "merge (xs @ snd (char_steps p (body @ [LF]))) = merge (xs @ [snd r])" by simp_all
qed

definition end_of :: "'t option \<Rightarrow> 't tagged_line_segment list" where
  "end_of active = (case active of Some tag \<Rightarrow> [TagEnd tag] | None \<Rightarrow> [])"

lemma tagged_finish_segments:
  "snd (tagged_finish p) = merge (if tl_buffer p = [] then end_of (tl_active p)
     else let (active, seg) = line_segment (tl_specs p) (tl_active p) (tl_buffer p) in seg # end_of active)"
  by (simp add: tagged_finish_def merge_def end_of_def case_prod_beta Let_def split: option.split)

lemma char_steps_last_line:
  assumes "fresh p" "LF \<notin> set body" "body \<noteq> []"
  defines "r \<equiv> line_segment (tl_specs p) (tl_active p) body"
  shows "merge (xs @ snd (char_steps p body) @ snd (tagged_finish (fst (char_steps p body)))) =
    merge (xs @ snd r # end_of (fst r))"
proof -
  from assms(1) have p: "tl_detect p" "tl_buffer p = []" by (simp_all add: fresh_def)
  from char_steps_line[OF p(1) assms(2)] show ?thesis
  proof
    assume "char_steps p body = (p\<lparr>tl_buffer := tl_buffer p @ body\<rparr>, [])"
    with p assms(3) show ?thesis
      by (simp add: tagged_finish_segments r_def merge_snoc_merge case_prod_beta Let_def)
  next
    assume *: "gave_up (tl_specs p) (tl_buffer p @ body) \<and>
      fst (char_steps p body) = p\<lparr>tl_buffer := [], tl_detect := False\<rparr> \<and>
      (\<forall>xs. merge (xs @ snd (char_steps p body)) = merge (xs @ [text_segment (tl_active p) (tl_buffer p @ body)]))"
    with p(2) assms(2) have r: "r = (tl_active p, text_segment (tl_active p) body)"
      unfolding r_def by (intro line_segment_text) (simp_all add: line_slug_simps gave_up_no_tag)
    have "merge ((xs @ snd (char_steps p body)) @ end_of (tl_active p)) =
        merge ((xs @ [text_segment (tl_active p) body]) @ end_of (tl_active p))"
      by (rule merge_cong_left) (use * p(2) in simp)
    with * r merge_snoc_merge[of "xs @ snd (char_steps p body)" "end_of (tl_active p)"] show ?thesis
      by (simp add: tagged_finish_segments)
  qed
qed

lemma char_steps_reference:
  "fresh p \<Longrightarrow>
   merge (xs @ snd (char_steps p s) @ snd (tagged_finish (fst (char_steps p s)))) =
   merge (xs @ (let (active, segs) = line_run (tl_specs p) (tl_active p) (split_incl s) in segs @ end_of active))"
proof (induction "length s" arbitrary: s p xs rule: less_induct)
  case less
  show ?case
  proof (cases "LF \<in> set s")
    case True
    then obtain body rest where s: "s = body @ LF # rest" and body: "LF \<notin> set body"
      by (blast dest: split_list_first)
    define r where "r = line_segment (tl_specs p) (tl_active p) (body @ [LF])"
    define p' where "p' = p\<lparr>tl_active := fst r\<rparr>"
    note line = char_steps_full_line[OF less.prems body, folded r_def, folded p'_def]
    have "char_steps p s = (fst (char_steps p' rest), snd (char_steps p (body @ [LF])) @ snd (char_steps p' rest))"
      using line(1) char_steps_append[of p "body @ [LF]" rest] s by (simp add: case_prod_beta Let_def)
    then have "merge (xs @ snd (char_steps p s) @ snd (tagged_finish (fst (char_steps p s)))) =
        merge ((xs @ [snd r]) @ snd (char_steps p' rest) @ snd (tagged_finish (fst (char_steps p' rest))))"
      using merge_cong_left[OF line(2)[of xs]] by simp
    also have "\<dots> = merge ((xs @ [snd r]) @
        (let (active, segs) = line_run (tl_specs p') (tl_active p') (split_incl rest) in segs @ end_of active))"
      by (rule less.hyps) (use s fresh_active[OF less.prems] in \<open>simp_all add: p'_def\<close>)
    finally show ?thesis
      using s body by (simp add: split_incl_line r_def p'_def case_prod_beta Let_def)
  next
    case False
    show ?thesis
    proof (cases "s = []")
      case True
      with less.prems show ?thesis by (simp add: tagged_finish_segments fresh_def merge_snoc_merge)
    next
      case nonempty: False
      with char_steps_last_line[OF less.prems False] False show ?thesis
        by (simp add: split_incl_body case_prod_beta Let_def)
    qed
  qed
qed

lemma line_reference_eq:
  "line_reference specs s = (let (active, segs) = line_run specs None (split_incl s) in segs @ end_of active)"
  by (simp add: line_reference_def end_of_def)

lemma tagged_stream_reference:
  assumes "p = tagged_line_new specs"
  shows "merge (snd (tagged_parse p s) @ snd (tagged_finish (fst (tagged_parse p s)))) =
    merge (line_reference specs s)"
  using char_steps_reference[of p "[]" s] assms
  by (simp add: tagged_parse_steps fresh_def tagged_line_new_def line_reference_eq merge_append foldl_push_merge)

text \<open>
  C29. The streaming plan parser is the line parser: however the assistant's text is cut into chunks,
  the text shown and the plan segments (with adjacent pieces of one text joined) are those of deciding
  each whole line of the concatenated text at once, a block still open at the end being closed.
\<close>

theorem plan_stream_by_lines:
  "visible_text (run_stream plan_push_str plan_finish plan_new chunks) =
     segs_visible (line_reference plan_specs (concat chunks)) \<and>
   plan_merge (extracted (run_stream plan_push_str plan_finish plan_new chunks)) =
     map map_segment (merge (line_reference plan_specs (concat chunks)))"
proof -
  let ?s = "concat chunks"
  let ?segs = "snd (tagged_parse plan_new ?s) @ snd (tagged_finish (fst (tagged_parse plan_new ?s)))"
  have one: "run_stream plan_push_str plan_finish plan_new [?s] = map_segments ?segs"
    by (simp add: run_stream_def plan_push_str_eq plan_finish_def map_segments_def append_chunk_def
        empty_chunk_def case_prod_beta Let_def)
  have "merge ?segs = merge (line_reference plan_specs ?s)"
    by (rule tagged_stream_reference) (simp add: plan_new_def)
  moreover from this have "segs_visible ?segs = segs_visible (line_reference plan_specs ?s)"
    by (metis segs_visible_merge)
  ultimately show ?thesis
    using plan.run_stream_cong[where s = plan_new and cs = chunks and ds = "[?s]" and fin = plan_finish] one
    by (simp add: map_segments_sel plan_merge_def del: map_map map_append)
qed

end
