(* ===== verification/Assistant_Text.thy ===== *)
theory Assistant_Text
  imports Inline_Hidden_Tag Tagged_Line
begin

text \<open>
  \<open>utils/stream-parser/src/assistant_text.rs\<close>: the parser of streamed assistant text, which hides
  citations and, in plan mode, passes what is left through the plan parser.
\<close>

record assistant_text_chunk =
  at_visible_text :: rstr
  at_citations :: "rstr list"
  at_plan_segments :: "proposed_plan_segment list"

definition empty_assistant_chunk :: assistant_text_chunk where
  "empty_assistant_chunk = \<lparr>at_visible_text = [], at_citations = [], at_plan_segments = []\<rparr>"

definition assistant_is_empty :: "assistant_text_chunk \<Rightarrow> bool" where
  "assistant_is_empty c \<longleftrightarrow> at_visible_text c = [] \<and> at_citations c = [] \<and> at_plan_segments c = []"

record assistant_text_stream_parser =
  at_plan_mode :: bool
  at_citation_parser :: "citation_tag inline_parser"
  at_plan_parser :: "plan_tag tagged_line_parser"

definition assistant_new :: "bool \<Rightarrow> assistant_text_stream_parser" where
  "assistant_new plan_mode =
     \<lparr>at_plan_mode = plan_mode, at_citation_parser = citation_new, at_plan_parser = plan_new\<rparr>"

definition parse_visible_text ::
    "assistant_text_stream_parser \<Rightarrow> rstr \<Rightarrow> assistant_text_stream_parser \<times> assistant_text_chunk" where
  "parse_visible_text p vis =
     (if \<not> at_plan_mode p then (p, empty_assistant_chunk\<lparr>at_visible_text := vis\<rparr>)
      else let (plan, plan_chunk) = plan_push_str (at_plan_parser p) vis
           in (p\<lparr>at_plan_parser := plan\<rparr>,
               empty_assistant_chunk\<lparr>at_visible_text := visible_text plan_chunk, at_plan_segments := extracted plan_chunk\<rparr>))"

definition assistant_push_str ::
    "assistant_text_stream_parser \<Rightarrow> rstr \<Rightarrow> assistant_text_stream_parser \<times> assistant_text_chunk" where
  "assistant_push_str p chunk =
     (let (citations, citation_chunk) = citation_push_str (at_citation_parser p) chunk;
          (p, out) = parse_visible_text (p\<lparr>at_citation_parser := citations\<rparr>) (visible_text citation_chunk)
      in (p, out\<lparr>at_citations := extracted citation_chunk\<rparr>))"

definition assistant_finish ::
    "assistant_text_stream_parser \<Rightarrow> assistant_text_stream_parser \<times> assistant_text_chunk" where
  "assistant_finish p =
     (let (citations, citation_chunk) = citation_finish (at_citation_parser p);
          (p, out) = parse_visible_text (p\<lparr>at_citation_parser := citations\<rparr>) (visible_text citation_chunk);
          (p, out) =
            (if at_plan_mode p
             then let (plan, tail) = plan_finish (at_plan_parser p)
                  in (p\<lparr>at_plan_parser := plan\<rparr>,
                      if stream_chunk_is_empty tail then out
                      else out\<lparr>at_visible_text := at_visible_text out @ visible_text tail,
                               at_plan_segments := at_plan_segments out @ extracted tail\<rparr>)
             else (p, out))
      in (p, out\<lparr>at_citations := extracted citation_chunk\<rparr>))"

text \<open>A whole stream: the outputs of the chunks and of the flush, one after the other.\<close>

definition append_assistant :: "assistant_text_chunk \<Rightarrow> assistant_text_chunk \<Rightarrow> assistant_text_chunk" where
  "append_assistant c d =
     \<lparr>at_visible_text = at_visible_text c @ at_visible_text d, at_citations = at_citations c @ at_citations d,
      at_plan_segments = at_plan_segments c @ at_plan_segments d\<rparr>"

fun run_assistant :: "assistant_text_stream_parser \<Rightarrow> rstr list \<Rightarrow> assistant_text_chunk" where
  "run_assistant p [] = snd (assistant_finish p)"
| "run_assistant p (c # cs) =
     (let (p, out) = assistant_push_str p c in append_assistant out (run_assistant p cs))"

section \<open>The two parsers composed\<close>

text \<open>The visible pieces the citation parser hands on, its flush included.\<close>

fun citation_pieces :: "citation_tag inline_parser \<Rightarrow> rstr list \<Rightarrow> rstr list" where
  "citation_pieces s [] = [visible_text (snd (citation_finish s))]"
| "citation_pieces s (c # cs) =
     visible_text (snd (citation_push_str s c)) # citation_pieces (fst (citation_push_str s c)) cs"

lemma concat_citation_pieces:
  "concat (citation_pieces s cs) = visible_text (run_stream citation_push_str citation_finish s cs)"
  by (induction cs arbitrary: s) (simp_all add: run_stream_def case_prod_beta)

lemma run_assistant_eq:
  "run_assistant p cs =
     (let c = run_stream citation_push_str citation_finish (at_citation_parser p) cs;
          d = run_stream plan_push_str plan_finish (at_plan_parser p) (citation_pieces (at_citation_parser p) cs)
      in if at_plan_mode p
         then \<lparr>at_visible_text = visible_text d, at_citations = extracted c, at_plan_segments = extracted d\<rparr>
         else \<lparr>at_visible_text = visible_text c, at_citations = extracted c, at_plan_segments = []\<rparr>)"
proof (induction cs arbitrary: p)
  case Nil
  then show ?case
    by (simp add: assistant_finish_def parse_visible_text_def run_stream_def empty_assistant_chunk_def
        stream_chunk_is_empty_def case_prod_beta Let_def)
next
  case (Cons c cs)
  show ?case
    by (simp add: Cons.IH assistant_push_str_def parse_visible_text_def run_stream_def append_assistant_def
        empty_assistant_chunk_def case_prod_beta Let_def)
qed

text \<open>
  C32. The assistant text parser is the composition of its two parsers on the whole text, however the
  stream is cut into chunks: citations are those of the citation parser, and in plan mode the text it
  leaves visible is what the plan parser sees; outside plan mode no plan markup is interpreted.
\<close>

theorem assistant_stream_composes:
  "let c = run_stream citation_push_str citation_finish citation_new [concat chunks];
       d = run_stream plan_push_str plan_finish plan_new [visible_text c];
       out = run_assistant (assistant_new plan_mode) chunks
   in at_citations out = extracted c \<and>
      at_visible_text out = (if plan_mode then visible_text d else visible_text c) \<and>
      plan_merge (at_plan_segments out) = (if plan_mode then plan_merge (extracted d) else [])"
proof -
  have "visible_text (run_stream citation_push_str citation_finish citation_new chunks) =
      visible_text (run_stream citation_push_str citation_finish citation_new [concat chunks]) \<and>
    extracted (run_stream citation_push_str citation_finish citation_new chunks) =
      extracted (run_stream citation_push_str citation_finish citation_new [concat chunks])"
    using citation.run_stream_cong[OF citation_new_inv, of chunks "[concat chunks]"] by simp
  moreover note plan.run_stream_cong[where s = plan_new and cs = "citation_pieces citation_new chunks" and
      ds = "[visible_text (run_stream citation_push_str citation_finish citation_new [concat chunks])]"
      and fin = plan_finish]
  ultimately show ?thesis
    by (simp add: run_assistant_eq assistant_new_def concat_citation_pieces plan.canon_nil Let_def)
qed

end
