(* ===== verification/Absolute_Path.thy ===== *)
theory Absolute_Path
  imports Rust_Str
begin

text \<open>
  \<open>utils/absolute-path/src/lib.rs\<close> and \<open>absolutize.rs\<close>: absolute, lexically normalised paths, as
  compiled for Unix.  A path is its text; a path buffer that the code builds component by component
  is its list of components, which is how the standard library compares paths.  The home and current
  directories of the process are arguments.
\<close>

section \<open>Paths of the standard library\<close>

abbreviation SLASH :: rchar where "SLASH \<equiv> 47"

datatype path_component = RootDir | CurDir | ParentDir | NormalDir rstr

fun part_component :: "rstr \<Rightarrow> path_component list" where
  "part_component p =
     (if p = [] \<or> p = str ''.'' then [] else if p = str ''..'' then [ParentDir] else [NormalDir p])"

definition is_absolute :: "rstr \<Rightarrow> bool" where
  "is_absolute p \<longleftrightarrow> prefix [SLASH] p"

definition path_components :: "rstr \<Rightarrow> path_component list" where
  "path_components p =
     (let parts = split_char SLASH p
      in (if is_absolute p then [RootDir] else if hd parts = str ''.'' then [CurDir] else [])
         @ concat (map part_component parts))"

definition path_join :: "rstr \<Rightarrow> rstr \<Rightarrow> rstr" where
  "path_join base p = (if is_absolute p then p else base @ SLASH # p)"

type_synonym path_buf = "path_component list"

fun file_name_of :: "path_component list \<Rightarrow> rstr option" where
  "file_name_of cs = (case last_opt cs of Some (NormalDir n) \<Rightarrow> Some n | _ \<Rightarrow> None)"

text \<open>\<open>PathBuf::pop\<close>: the root has no parent.\<close>

definition path_pop :: "path_buf \<Rightarrow> path_buf" where
  "path_pop cs = (case last_opt cs of None \<Rightarrow> cs | Some RootDir \<Rightarrow> cs | Some _ \<Rightarrow> butlast cs)"

definition path_push :: "path_buf \<Rightarrow> path_component \<Rightarrow> path_buf" where
  "path_push cs c = (if c = RootDir then [RootDir] else cs @ [c])"

fun component_text :: "path_component \<Rightarrow> rstr" where
  "component_text RootDir = []"
| "component_text CurDir = str ''.''"
| "component_text ParentDir = str ''..''"
| "component_text (NormalDir n) = n"

definition path_text :: "path_buf \<Rightarrow> rstr" where
  "path_text cs = (if cs = [RootDir] then [SLASH] else join [SLASH] (map component_text cs))"

section \<open>Normalisation\<close>

fun normalize_step :: "path_buf \<Rightarrow> path_component \<Rightarrow> path_buf" where
  "normalize_step cs CurDir = cs"
| "normalize_step cs ParentDir = path_pop cs"
| "normalize_step cs c = path_push cs c"

definition normalize_path :: "rstr \<Rightarrow> path_buf" where
  "normalize_path p =
     (let normalized = foldl normalize_step [] (path_components p)
      in if normalized = [] then [CurDir] else normalized)"

definition path_with_base :: "rstr \<Rightarrow> rstr \<Rightarrow> rstr" where
  "path_with_base p base = (if is_absolute p then p else path_join base p)"

definition absolutize_from :: "rstr \<Rightarrow> rstr \<Rightarrow> path_buf" where
  "absolutize_from p base = normalize_path (path_with_base p base)"

text \<open>The process: its home directory, if known, and its current directory, if it can be read.\<close>

record process_dirs =
  home_dir :: "rstr option"
  current_dir :: "rstr option"

definition absolutize :: "process_dirs \<Rightarrow> rstr \<Rightarrow> path_buf option" where
  "absolutize env p =
     (if is_absolute p then Some (normalize_path p)
      else map_option (absolutize_from p) (current_dir env))"

section \<open>Absolute path buffers\<close>

definition maybe_expand_home_directory :: "process_dirs \<Rightarrow> rstr \<Rightarrow> rstr" where
  "maybe_expand_home_directory env p =
     (case strip_prefix (str ''~'') p of
        None \<Rightarrow> p
      | Some rest \<Rightarrow>
          (case home_dir env of
             None \<Rightarrow> p
           | Some home \<Rightarrow>
               if rest = [] then home
               else case strip_prefix [SLASH] rest of
                 Some rest \<Rightarrow> path_join home (dropWhile (\<lambda>c. c = SLASH) rest)
               | None \<Rightarrow> p))"

definition resolve_path_against_base :: "process_dirs \<Rightarrow> rstr \<Rightarrow> rstr \<Rightarrow> path_buf" where
  "resolve_path_against_base env p base = absolutize_from (maybe_expand_home_directory env p) base"

definition from_absolute_path :: "process_dirs \<Rightarrow> rstr \<Rightarrow> path_buf option" where
  "from_absolute_path env p = absolutize env (maybe_expand_home_directory env p)"

definition from_absolute_path_checked :: "process_dirs \<Rightarrow> rstr \<Rightarrow> path_buf option" where
  "from_absolute_path_checked env p =
     (let expanded = maybe_expand_home_directory env p
      in if \<not> is_absolute expanded then None else Some (absolutize_from expanded [SLASH]))"

definition relative_to_current_dir :: "process_dirs \<Rightarrow> rstr \<Rightarrow> path_buf option" where
  "relative_to_current_dir env p = map_option (resolve_path_against_base env p) (current_dir env)"

definition abs_join :: "process_dirs \<Rightarrow> path_buf \<Rightarrow> rstr \<Rightarrow> path_buf" where
  "abs_join env base p = resolve_path_against_base env p (path_text base)"

definition abs_parent :: "path_buf \<Rightarrow> path_buf option" where
  "abs_parent cs = (case last_opt cs of None \<Rightarrow> None | Some RootDir \<Rightarrow> None | Some _ \<Rightarrow> Some (butlast cs))"

lemmas [policy_eval] =
  is_absolute_def path_components_def path_join_def path_pop_def path_push_def path_text_def
  normalize_path_def path_with_base_def absolutize_from_def absolutize_def maybe_expand_home_directory_def
  resolve_path_against_base_def from_absolute_path_def from_absolute_path_checked_def
  relative_to_current_dir_def abs_join_def abs_parent_def last_opt_def

section \<open>The invariant of absolute path buffers\<close>

definition name_ok :: "rstr \<Rightarrow> bool" where
  "name_ok n \<longleftrightarrow> n \<noteq> [] \<and> n \<noteq> str ''.'' \<and> n \<noteq> str ''..'' \<and> SLASH \<notin> set n"

definition normalized :: "path_buf \<Rightarrow> bool" where
  "normalized cs \<longleftrightarrow> (\<exists>ns. cs = RootDir # map NormalDir ns \<and> list_all name_ok ns)"

lemma normalized_step:
  "normalized cs \<Longrightarrow> c \<in> {CurDir, ParentDir} \<or> (\<exists>n. c = NormalDir n \<and> name_ok n) \<Longrightarrow>
   normalized (normalize_step cs c)"
proof -
  assume "normalized cs" and c: "c \<in> {CurDir, ParentDir} \<or> (\<exists>n. c = NormalDir n \<and> name_ok n)"
  then obtain ns where ns: "cs = RootDir # map NormalDir ns" "list_all name_ok ns"
    by (auto simp: normalized_def)
  show ?thesis
  proof (cases c)
    case ParentDir
    show ?thesis
    proof (cases ns rule: rev_cases)
      case Nil
      with ns ParentDir show ?thesis by (simp add: path_pop_def normalized_def last_opt_def)
    next
      case (snoc ms m)
      with ns ParentDir show ?thesis
        by (auto simp: path_pop_def normalized_def last_opt_def butlast_append)
    qed
  next
    case (NormalDir n)
    with ns c show ?thesis
      by (auto simp: path_push_def normalized_def intro!: exI[of _ "ns @ [n]"])
  qed (use ns c in \<open>auto simp: normalized_def\<close>)
qed

lemma part_component_ok:
  "SLASH \<notin> set p \<Longrightarrow> c \<in> set (part_component p) \<Longrightarrow> c = ParentDir \<or> (\<exists>n. c = NormalDir n \<and> name_ok n)"
  by (auto simp: name_ok_def split: if_splits)

lemma normalized_foldl:
  "normalized cs \<Longrightarrow> \<forall>c \<in> set ds. c \<in> {CurDir, ParentDir} \<or> (\<exists>n. c = NormalDir n \<and> name_ok n) \<Longrightarrow>
   normalized (foldl normalize_step cs ds)"
  by (induction ds arbitrary: cs) (simp_all add: normalized_step)

lemma normalize_absolute:
  assumes "is_absolute p"
  shows "normalized (normalize_path p)"
proof -
  let ?ds = "concat (map part_component (split_char SLASH p))"
  have "\<forall>c \<in> set ?ds. c \<in> {CurDir, ParentDir} \<or> (\<exists>n. c = NormalDir n \<and> name_ok n)"
    by (simp del: part_component.simps) (blast dest: part_component_ok split_char_parts)
  moreover have "normalized [RootDir]" by (simp add: normalized_def)
  ultimately have "normalized (foldl normalize_step [RootDir] ?ds)" by (intro normalized_foldl)
  moreover have "normalized cs \<Longrightarrow> cs \<noteq> []" for cs by (auto simp: normalized_def)
  ultimately show ?thesis
    using assms by (simp add: normalize_path_def path_components_def path_push_def Let_def)
qed

lemma join_absolute: "is_absolute base \<Longrightarrow> is_absolute (path_join base p)"
  by (auto simp: is_absolute_def path_join_def)

text \<open>Reading back the text of a normalised path.\<close>

lemma path_text_absolute: "normalized cs \<Longrightarrow> is_absolute (path_text cs)"
proof -
  assume "normalized cs"
  then obtain ns where "cs = RootDir # map NormalDir ns" by (auto simp: normalized_def)
  then show ?thesis by (cases ns) (simp_all add: path_text_def is_absolute_def)
qed

lemma components_path_text:
  assumes "normalized cs"
  shows "path_components (path_text cs) = cs"
proof -
  from assms obtain ns where ns: "cs = RootDir # map NormalDir ns" "list_all name_ok ns"
    by (auto simp: normalized_def)
  have parts: "concat (map part_component ns) = map NormalDir ns"
    using ns(2) by (induction ns) (auto simp: name_ok_def)
  show ?thesis
  proof (cases ns)
    case Nil
    with ns show ?thesis by (simp add: path_text_def path_components_def is_absolute_def)
  next
    case (Cons m ms)
    have "map component_text cs = [] # ns" using ns by (simp add: comp_def)
    with ns Cons have p: "path_text cs = join [SLASH] ([] # ns)" by (simp add: path_text_def)
    have "\<forall>x \<in> set ([] # ns). SLASH \<notin> set x" using ns(2) by (auto simp: name_ok_def list_all_iff)
    then have "split_char SLASH (path_text cs) = [] # ns" unfolding p by (intro split_char_join) auto
    moreover have "is_absolute (path_text cs)" using p Cons by (simp add: is_absolute_def)
    ultimately show ?thesis using ns parts by (simp add: path_components_def)
  qed
qed

lemma foldl_normalize_names: "foldl normalize_step cs (map NormalDir ns) = cs @ map NormalDir ns"
  by (induction ns arbitrary: cs) (simp_all add: path_push_def)

lemma normalize_path_text: "normalized cs \<Longrightarrow> normalize_path (path_text cs) = cs"
  by (auto simp: normalize_path_def components_path_text normalized_def path_push_def foldl_normalize_names
      dest: components_path_text)

text \<open>
  C33. An absolute path buffer is what its documentation promises: whatever text it is made from, it
  starts at the root and has no empty, dot or dot-dot component, also after joining a text or taking
  the parent, and writing it out and reading it back gives the same buffer.
\<close>

theorem absolute_path_normalized:
  assumes "\<And>cwd. current_dir env = Some cwd \<Longrightarrow> is_absolute cwd"
    and "from_absolute_path env p = Some cs"
  shows "normalized cs \<and> from_absolute_path env (path_text cs) = Some cs \<and>
    normalized (abs_join env cs q) \<and> pred_option normalized (abs_parent cs)"
proof -
  have based: "normalized (absolutize_from t base)" if "is_absolute base" for t base
    using that by (simp add: absolutize_from_def path_with_base_def normalize_absolute join_absolute)
  from assms have n: "normalized cs"
    by (auto simp: from_absolute_path_def absolutize_def based intro: normalize_absolute split: if_splits)
  then have "is_absolute (path_text cs)" by (rule path_text_absolute)
  moreover from this have "maybe_expand_home_directory env (path_text cs) = path_text cs"
    by (auto simp: is_absolute_def maybe_expand_home_directory_def prefix_def strip_prefix_def str_def)
  ultimately have "from_absolute_path env (path_text cs) = Some cs" "normalized (abs_join env cs q)"
    using n by (simp_all add: from_absolute_path_def absolutize_def normalize_path_text abs_join_def
        resolve_path_against_base_def based)
  moreover have "pred_option normalized (abs_parent cs)"
    using n normalized_step[OF n, of ParentDir]
    by (auto simp: abs_parent_def path_pop_def split: option.split path_component.split)
  ultimately show ?thesis using n by simp
qed

theorem absolute_path_normalized_witness:
  "let env = \<lparr>home_dir = None, current_dir = Some (str ''/w'')\<rparr>; cs = [RootDir, NormalDir (str ''w''), NormalDir (str ''b'')]
   in from_absolute_path env (str ''./a//../b/'') = Some cs \<and>
      normalized cs \<and> from_absolute_path env (path_text cs) = Some cs \<and>
      normalized (abs_join env cs (str ''../x'')) \<and> pred_option normalized (abs_parent cs)"
proof -
  let ?env = "\<lparr>home_dir = None, current_dir = Some (str ''/w'')\<rparr>"
  let ?cs = "[RootDir, NormalDir (str ''w''), NormalDir (str ''b'')]"
  have "from_absolute_path ?env (str ''./a//../b/'') = Some ?cs"
    by (simp add: policy_eval str_eval)
  moreover have "is_absolute cwd" if "current_dir ?env = Some cwd" for cwd
    using that by (auto simp: is_absolute_def str_def)
  ultimately show ?thesis
    using absolute_path_normalized[of ?env "str ''./a//../b/''" ?cs "str ''../x''"] by (simp add: Let_def)
qed

end
