(* ===== verification/Exec_Rule.thy ===== *)
theory Exec_Rule
  imports Absolute_Path
begin

text \<open>
  \<open>execpolicy/src/decision.rs\<close>, \<open>error.rs\<close> and \<open>rule.rs\<close>: decisions, prefix patterns and rules,
  network rules and the normalisation of their hosts.  Errors keep the rules they mention as values;
  the code prints them with \<open>Debug\<close>.  Of an error of the Starlark interpreter only its message and
  source span are kept.
\<close>

section \<open>Decisions and errors\<close>

datatype decision = Allow | Prompt | Forbidden

text \<open>The derived order of the enumeration, from the least to the most restrictive.\<close>

primrec decision_rank :: "decision \<Rightarrow> nat" where
  "decision_rank Allow = 0"
| "decision_rank Prompt = 1"
| "decision_rank Forbidden = 2"

lemma decision_rank_inj: "decision_rank a = decision_rank b \<Longrightarrow> a = b"
  by (cases a; cases b) simp_all

instantiation decision :: linorder
begin

definition less_eq_decision :: "decision \<Rightarrow> decision \<Rightarrow> bool" where
  "a \<le> b \<longleftrightarrow> decision_rank a \<le> decision_rank b"

definition less_decision :: "decision \<Rightarrow> decision \<Rightarrow> bool" where
  "a < b \<longleftrightarrow> decision_rank a < decision_rank b"

instance
  by standard (auto simp: less_eq_decision_def less_decision_def intro: decision_rank_inj)

end

record text_position =
  tp_line :: nat
  tp_column :: nat

record text_range =
  tr_start :: text_position
  tr_end :: text_position

record error_location =
  el_path :: rstr
  el_range :: text_range

text \<open>What the code reads of a span of the Starlark interpreter: the file and zero-based positions.\<close>

record file_span =
  fs_filename :: rstr
  fs_begin :: text_position
  fs_end :: text_position

record starlark_error =
  se_message :: rstr
  se_span :: "file_span option"

definition error_location_from_file_span :: "file_span \<Rightarrow> error_location" where
  "error_location_from_file_span span =
     \<lparr>el_path = fs_filename span,
      el_range = \<lparr>tr_start = \<lparr>tp_line = tp_line (fs_begin span) + 1, tp_column = tp_column (fs_begin span) + 1\<rparr>,
                  tr_end = \<lparr>tp_line = tp_line (fs_end span) + 1, tp_column = tp_column (fs_end span) + 1\<rparr>\<rparr>\<rparr>"

section \<open>Patterns and rules\<close>

datatype pattern_token = Single rstr | Alts "rstr list"

fun token_matches :: "pattern_token \<Rightarrow> rstr \<Rightarrow> bool" where
  "token_matches (Single expected) token \<longleftrightarrow> expected = token"
| "token_matches (Alts alternatives) token \<longleftrightarrow> list_ex (\<lambda>alt. alt = token) alternatives"

fun alternatives :: "pattern_token \<Rightarrow> rstr list" where
  "alternatives (Single expected) = [expected]"
| "alternatives (Alts alts) = alts"

record prefix_pattern =
  pp_first :: rstr
  pp_rest :: "pattern_token list"

definition matches_prefix :: "prefix_pattern \<Rightarrow> rstr list \<Rightarrow> rstr list option" where
  "matches_prefix pat cmd =
     (let pattern_length = length (pp_rest pat) + 1 in
      if length cmd < pattern_length \<or> cmd ! 0 \<noteq> pp_first pat then None
      else if list_all (\<lambda>(pattern_token, cmd_token). token_matches pattern_token cmd_token)
                (zip (pp_rest pat) (take (pattern_length - 1) (drop 1 cmd)))
      then Some (take pattern_length cmd)
      else None)"

datatype rule_match =
    PrefixRuleMatch "rstr list" decision "path_buf option" "rstr option"
  | HeuristicsRuleMatch "rstr list" decision

fun match_decision :: "rule_match \<Rightarrow> decision" where
  "match_decision (PrefixRuleMatch _ d _ _) = d"
| "match_decision (HeuristicsRuleMatch _ d) = d"

fun with_resolved_program :: "path_buf \<Rightarrow> rule_match \<Rightarrow> rule_match" where
  "with_resolved_program program (PrefixRuleMatch matched_prefix d _ justification) =
     PrefixRuleMatch matched_prefix d (Some program) justification"
| "with_resolved_program program m = m"

record prefix_rule =
  pr_pattern :: prefix_pattern
  pr_decision :: decision
  pr_justification :: "rstr option"

definition rule_program :: "prefix_rule \<Rightarrow> rstr" where
  "rule_program rule = pp_first (pr_pattern rule)"

definition rule_matches :: "prefix_rule \<Rightarrow> rstr list \<Rightarrow> rule_match option" where
  "rule_matches rule cmd =
     map_option (\<lambda>matched_prefix. PrefixRuleMatch matched_prefix (pr_decision rule) None (pr_justification rule))
       (matches_prefix (pr_pattern rule) cmd)"

datatype exec_error =
    InvalidDecision rstr
  | InvalidPattern rstr
  | InvalidExample rstr
  | InvalidRule rstr
  | ExampleDidNotMatch "prefix_rule list" "rstr list" "error_location option"
  | ExampleDidMatch rule_match rstr "error_location option"
  | Starlark starlark_error

fun with_location :: "exec_error \<Rightarrow> error_location \<Rightarrow> exec_error" where
  "with_location (ExampleDidNotMatch rules examples None) location = ExampleDidNotMatch rules examples (Some location)"
| "with_location (ExampleDidMatch rule example None) location = ExampleDidMatch rule example (Some location)"
| "with_location other location = other"

fun error_location_of :: "exec_error \<Rightarrow> error_location option" where
  "error_location_of (ExampleDidNotMatch _ _ location) = location"
| "error_location_of (ExampleDidMatch _ _ location) = location"
| "error_location_of (Starlark err) = map_option error_location_from_file_span (se_span err)"
| "error_location_of _ = None"

definition decision_parse :: "rstr \<Rightarrow> exec_error + decision" where
  "decision_parse raw =
     (if raw = str ''allow'' then Ok Allow
      else if raw = str ''prompt'' then Ok Prompt
      else if raw = str ''forbidden'' then Ok Forbidden
      else Err (InvalidDecision raw))"

section \<open>Network rules\<close>

datatype network_rule_protocol = Http | Https | Socks5Tcp | Socks5Udp

definition protocol_parse :: "rstr \<Rightarrow> exec_error + network_rule_protocol" where
  "protocol_parse raw =
     (if raw = str ''http'' then Ok Http
      else if raw \<in> {str ''https'', str ''https_connect'', str ''http-connect''} then Ok Https
      else if raw = str ''socks5_tcp'' then Ok Socks5Tcp
      else if raw = str ''socks5_udp'' then Ok Socks5Udp
      else Err (InvalidRule
        (str ''network_rule protocol must be one of http, https, socks5_tcp, socks5_udp (got '' @ raw @ str '')'')))"

fun as_policy_string :: "network_rule_protocol \<Rightarrow> rstr" where
  "as_policy_string Http = str ''http''"
| "as_policy_string Https = str ''https''"
| "as_policy_string Socks5Tcp = str ''socks5_tcp''"
| "as_policy_string Socks5Udp = str ''socks5_udp''"

record network_rule =
  nr_host :: rstr
  nr_protocol :: network_rule_protocol
  nr_decision :: decision
  nr_justification :: "rstr option"

definition port_ok :: "rstr \<Rightarrow> bool" where
  "port_ok port \<longleftrightarrow> port \<noteq> [] \<and> list_all is_ascii_digit port"

text \<open>The part of the function that removes brackets or a port.\<close>

definition host_without_port :: "rstr \<Rightarrow> rstr \<Rightarrow> exec_error + rstr" where
  "host_without_port raw host =
     (case strip_prefix (str ''['') host of
        Some stripped \<Rightarrow>
          (case split_once (str '']'') stripped of
             None \<Rightarrow> Err (InvalidRule (str ''network_rule host has an invalid bracketed IPv6 literal''))
           | Some (inside, rest) \<Rightarrow>
               let port_ok = (case strip_prefix (str '':'') rest of None \<Rightarrow> False | Some port \<Rightarrow> port_ok port)
               in if rest \<noteq> [] \<and> \<not> port_ok
                  then Err (InvalidRule (str ''network_rule host contains an unsupported suffix: '' @ raw))
                  else Ok inside)
      | None \<Rightarrow>
          if count_list host (hd (str '':'')) = 1
          then case rsplit_once_char (hd (str '':'')) host of
            Some (candidate, port) \<Rightarrow> Ok (if candidate \<noteq> [] \<and> port_ok port then candidate else host)
          | None \<Rightarrow> Ok host
          else Ok host)"

definition normalize_network_rule_host :: "rstr \<Rightarrow> exec_error + rstr" where
  "normalize_network_rule_host raw =
     (let host = trim raw in
      if host = [] then Err (InvalidRule (str ''network_rule host cannot be empty''))
      else if contains (str ''://'') host \<or> contains (str ''/'') host \<or> contains (str ''?'') host \<or> contains (str ''#'') host
      then Err (InvalidRule (str ''network_rule host must be a hostname or IP literal (without scheme or path)''))
      else try_bind (host_without_port raw host) (\<lambda>host.
        let normalized = to_ascii_lowercase (trim (trim_end_matches (\<lambda>c. c = hd (str ''.'')) host)) in
        if normalized = [] then Err (InvalidRule (str ''network_rule host cannot be empty''))
        else if contains (str ''*'') normalized
        then Err (InvalidRule (str ''network_rule host must be a specific host; wildcards are not allowed''))
        else if list_ex is_whitespace normalized
        then Err (InvalidRule (str ''network_rule host cannot contain whitespace''))
        else Ok normalized))"

lemmas [policy_eval] =
  error_location_from_file_span_def matches_prefix_def rule_program_def rule_matches_def decision_parse_def
  protocol_parse_def port_ok_def host_without_port_def normalize_network_rule_host_def less_eq_decision_def
  less_decision_def

section \<open>Properties\<close>

lemma token_matches_alternatives: "token_matches t token \<longleftrightarrow> token \<in> set (alternatives t)"
  by (cases t) (auto simp: list_ex_iff)

lemma matches_prefix_Some_iff:
  "matches_prefix pat cmd = Some m \<longleftrightarrow>
   (\<exists>args more. cmd = pp_first pat # args @ more \<and> list_all2 token_matches (pp_rest pat) args \<and>
     m = pp_first pat # args)"
proof
  assume m: "matches_prefix pat cmd = Some m"
  then obtain c cs where cmd: "cmd = c # cs" by (cases cmd) (auto simp: matches_prefix_def)
  let ?n = "length (pp_rest pat)"
  from m cmd have "?n \<le> length cs" "c = pp_first pat" "m = c # take ?n cs"
    "list_all (\<lambda>(x, y). token_matches x y) (zip (pp_rest pat) (take ?n cs))"
    by (auto simp: matches_prefix_def Let_def split: if_splits)
  then show "\<exists>args more. cmd = pp_first pat # args @ more \<and> list_all2 token_matches (pp_rest pat) args \<and>
      m = pp_first pat # args"
    using cmd by (intro exI[of _ "take ?n cs"] exI[of _ "drop ?n cs"])
      (auto simp: list_all2_iff list_all_iff)
next
  assume "\<exists>args more. cmd = pp_first pat # args @ more \<and> list_all2 token_matches (pp_rest pat) args \<and>
    m = pp_first pat # args"
  then show "matches_prefix pat cmd = Some m"
    by (auto simp: matches_prefix_def Let_def list_all2_iff list_all_iff)
qed

lemma contains_char: "contains [c] s \<longleftrightarrow> c \<in> set s"
  by (induction s) (auto simp: contains_def)

lemma str_char: "str [c] = [of_char c]"
  by (simp add: str_def)

lemma ascii_lower_idem [simp]: "ascii_lower (ascii_lower c) = ascii_lower c"
  by (simp add: ascii_lower_def)

lemma to_ascii_lowercase_idem [simp]: "to_ascii_lowercase (to_ascii_lowercase s) = to_ascii_lowercase s"
  by (simp add: to_ascii_lowercase_def)

lemma set_trim_port_host:
  assumes "host_without_port raw host = Ok h"
  shows "set h \<subseteq> set host"
proof (cases "strip_prefix (str ''['') host")
  case None
  have "set (fst x) \<subseteq> set host" if "rsplit_once_char c host = Some x" for c x
  proof -
    have "set (butlast (rev (dropWhile (\<lambda>d. d \<noteq> c) (rev host)))) \<subseteq> set (dropWhile (\<lambda>d. d \<noteq> c) (rev host))"
      using in_set_butlastD[of _ "rev (dropWhile (\<lambda>d. d \<noteq> c) (rev host))"] by auto
    also have "\<dots> \<subseteq> set host" using set_dropWhileD[of _ "\<lambda>d. d \<noteq> c" "rev host"] by auto
    finally show ?thesis using that by (auto simp: rsplit_once_char_def split: if_splits)
  qed
  with None assms show ?thesis
    by (auto simp: host_without_port_def Let_def split: if_splits option.splits) fastforce+
next
  case (Some stripped)
  then have "set stripped \<subseteq> set host" by (auto simp: strip_prefix_Some_iff)
  moreover have "set h \<subseteq> set stripped"
    using assms Some by (auto simp: host_without_port_def Let_def split_once_def dest: in_set_takeD
        split: if_splits option.splits)
  ultimately show ?thesis by blast
qed

lemma ascii_lower_char: "ascii_lower c = d \<Longrightarrow> \<not> (97 \<le> d \<and> d \<le> 122) \<Longrightarrow> c = d"
  by (auto simp: ascii_lower_def split: if_splits)

definition host_chars_ok :: "rstr \<Rightarrow> bool" where
  "host_chars_ok h \<longleftrightarrow> h \<noteq> [] \<and> to_ascii_lowercase h = h \<and>
     list_all (\<lambda>c. \<not> is_whitespace c \<and> c \<notin> set (str ''*/?#'')) h"

definition host_settled :: "rstr \<Rightarrow> bool" where
  "host_settled h \<longleftrightarrow> hd h \<noteq> hd (str ''['') \<and> last h \<noteq> hd (str ''.'') \<and> count_list h (hd (str '':'')) \<noteq> 1"

lemma normalize_host_fixpoint:
  assumes "host_chars_ok h" "host_settled h"
  shows "normalize_network_rule_host h = Ok h"
proof -
  have h: "h \<noteq> []" "to_ascii_lowercase h = h" "\<forall>c \<in> set h. \<not> is_whitespace c"
    using assms(1) by (auto simp: host_chars_ok_def list_all_iff)
  have no: "\<not> contains (str ''/'') h" "\<not> contains (str ''?'') h" "\<not> contains (str ''#'') h" "\<not> contains (str ''*'') h"
    using assms(1) by (auto simp: host_chars_ok_def list_all_iff contains_char str_def)
  moreover have "\<not> contains (str ''://'') h"
  proof
    assume "contains (str ''://'') h"
    then obtain i where "prefix (str ''://'') (drop i h)" by (auto simp: contains_def find_sub_Some_iff)
    then have "set (str ''://'') \<subseteq> set h" by (meson order_trans set_drop_subset set_mono_prefix)
    then have "contains (str ''/'') h" by (simp add: contains_char str_def)
    with no(1) show False ..
  qed
  moreover have "trim h = h" using h by (intro trim_trimmed) (simp add: trimmed_def)
  moreover have "strip_prefix (str ''['') h = None"
    using assms(2) h(1) by (cases h) (auto simp: host_settled_def strip_prefix_None_iff str_def)
  moreover have "trim_end_matches (\<lambda>c. c = hd (str ''.'')) h = h"
    using assms(2) h(1) by (cases h rule: rev_cases) (auto simp: host_settled_def trim_end_matches_snoc)
  ultimately show ?thesis
    using h assms(2) by (simp add: normalize_network_rule_host_def host_without_port_def host_settled_def
        list_ex_iff Let_def)
qed

lemma normalize_host_chars:
  assumes "normalize_network_rule_host raw = Ok h"
  shows "host_chars_ok h"
proof -
  from assms obtain host where host: "host_without_port raw (trim raw) = Ok host"
    and no: "\<not> contains (str ''/'') (trim raw)" "\<not> contains (str ''?'') (trim raw)" "\<not> contains (str ''#'') (trim raw)"
    and h: "h = to_ascii_lowercase (trim (trim_end_matches (\<lambda>c. c = hd (str ''.'')) host))" "h \<noteq> []"
    "\<not> contains (str ''*'') h" "\<not> list_ex is_whitespace h"
    by (auto simp: normalize_network_rule_host_def Let_def try_bind_Inr_iff split: if_splits)
  have sub: "set (trim (trim_end_matches (\<lambda>c. c = hd (str ''.'')) host)) \<subseteq> set (trim raw)"
    using set_trim set_trim_end_matches set_trim_port_host[OF host] by (meson order_trans)
  have "c \<notin> set h" if "c \<notin> set (trim raw)" "\<not> (97 \<le> c \<and> c \<le> 122)" for c
  proof
    assume "c \<in> set h"
    then obtain b where "b \<in> set (trim (trim_end_matches (\<lambda>c. c = hd (str ''.'')) host))" "ascii_lower b = c"
      by (auto simp: h(1) to_ascii_lowercase_def)
    with ascii_lower_char[of b c] sub that show False by auto
  qed
  with no h(3) have "hd (str ''/'') \<notin> set h" "hd (str ''?'') \<notin> set h" "hd (str ''#'') \<notin> set h" "hd (str ''*'') \<notin> set h"
    by (auto simp: contains_char str_def)
  with h show ?thesis
    by (auto simp: host_chars_ok_def list_all_iff list_ex_iff str_def)
qed

text \<open>
  Every accepted network host is in normal form: non-empty, lower case, without white space,
  wildcard or URL characters.  Unless brackets, a trailing dot or a single colon is left, normalising
  it again changes nothing.
\<close>

lemma normalized_host_form:
  assumes "normalize_network_rule_host raw = Ok h"
  shows "host_chars_ok h \<and> (host_settled h \<longrightarrow> normalize_network_rule_host h = Ok h)"
  using normalize_host_chars[OF assms] normalize_host_fixpoint by blast

lemma normalized_host_form_example:
  "normalize_network_rule_host (str '' API.Example.com.:443 '') = Ok (str ''api.example.com'') \<and>
   host_chars_ok (str ''api.example.com'') \<and>
   normalize_network_rule_host (str ''api.example.com'') = Ok (str ''api.example.com'')"
proof -
  have "normalize_network_rule_host (str '' API.Example.com.:443 '') = Ok (str ''api.example.com'')"
    by (simp add: policy_eval str_eval)
  moreover have "host_settled (str ''api.example.com'')" by (simp add: host_settled_def str_def)
  ultimately show ?thesis using normalized_host_form by blast
qed

text \<open>
  Normalising is not idempotent: hosts written with a bracketed or dotted port, or with dots
  around white space, are accepted in a form that a second normalisation changes or refuses.
\<close>

lemma normalize_host_unstable:
  "normalize_network_rule_host (str ''[h:80]'') = Ok (str ''h:80'') \<and>
   normalize_network_rule_host (str ''h:80.'') = Ok (str ''h:80'') \<and>
   normalize_network_rule_host (str ''h:80'') = Ok (str ''h'') \<and>
   normalize_network_rule_host (str ''h. .'') = Ok (str ''h.'') \<and>
   normalize_network_rule_host (str ''h.'') = Ok (str ''h'') \<and>
   normalize_network_rule_host (str ''[[h]'') = Ok (str ''[h'') \<and>
   normalize_network_rule_host (str ''[h'') =
     Err (InvalidRule (str ''network_rule host has an invalid bracketed IPv6 literal''))"
  by (simp add: policy_eval str_eval)

end
