(* ===== verification/Exec_Policy.thy ===== *)
theory Exec_Policy
  imports Exec_Rule "HOL-Library.List_Lexorder"
begin

text \<open>
  \<open>execpolicy/src/policy.rs\<close> and \<open>executable_name.rs\<close> (as compiled for Unix): the policy, its rules
  and overlays, and the evaluation of commands.  The multimap of the \<open>multimap\<close> crate is an argument
  \<open>mm\<close> with the laws \<open>multimap_laws\<close> (values are kept per key in insertion order; the order of the
  keys is left open).  A failing \<open>expect\<close> is \<open>None\<close>.
\<close>

section \<open>The multimap\<close>

record ('k, 'v, 'm) multimap =
  mm_new :: 'm
  mm_insert :: "'m \<Rightarrow> 'k \<Rightarrow> 'v \<Rightarrow> 'm"
  mm_get_vec :: "'m \<Rightarrow> 'k \<Rightarrow> 'v list option"
  mm_iter_all :: "'m \<Rightarrow> ('k \<times> 'v list) list"

definition mm_values :: "('k, 'v, 'm) multimap \<Rightarrow> 'm \<Rightarrow> 'k \<Rightarrow> 'v list" where
  "mm_values mm m k = (case mm_get_vec mm m k of None \<Rightarrow> [] | Some vs \<Rightarrow> vs)"

definition multimap_laws :: "('k, 'v, 'm) multimap \<Rightarrow> bool" where
  "multimap_laws mm \<longleftrightarrow>
     (\<forall>k. mm_get_vec mm (mm_new mm) k = None) \<and>
     (\<forall>m k v k'. mm_get_vec mm (mm_insert mm m k v) k' =
        (if k' = k then Some (mm_values mm m k @ [v]) else mm_get_vec mm m k')) \<and>
     (\<forall>m. distinct (map fst (mm_iter_all mm m)) \<and> map_of (mm_iter_all mm m) = mm_get_vec mm m)"

text \<open>An association list satisfies the laws.\<close>

fun alist_insert :: "('k \<times> 'v list) list \<Rightarrow> 'k \<Rightarrow> 'v \<Rightarrow> ('k \<times> 'v list) list" where
  "alist_insert [] k v = [(k, [v])]"
| "alist_insert ((k', vs) # m) k v = (if k' = k then (k', vs @ [v]) # m else (k', vs) # alist_insert m k v)"

definition alist_multimap :: "('k, 'v, ('k \<times> 'v list) list) multimap" where
  "alist_multimap = \<lparr>mm_new = [], mm_insert = alist_insert, mm_get_vec = map_of,
     mm_iter_all = (\<lambda>m. map (\<lambda>k. (k, the (map_of m k))) (remdups (map fst m)))\<rparr>"

section \<open>Names of executables\<close>

definition executable_lookup_key :: "rstr \<Rightarrow> rstr" where
  "executable_lookup_key raw = raw"

definition executable_path_lookup_key :: "path_buf \<Rightarrow> rstr option" where
  "executable_path_lookup_key p = map_option executable_lookup_key (file_name_of p)"

section \<open>The policy\<close>

record match_options =
  resolve_host_executables :: bool

definition default_match_options :: match_options where
  "default_match_options = \<lparr>resolve_host_executables = False\<rparr>"

record 'm policy =
  rules_by_program :: 'm
  network_rules :: "network_rule list"
  host_executables_by_name :: "rstr \<rightharpoonup> path_buf list"

type_synonym 'm rule_map = "(rstr, prefix_rule, 'm) multimap"

definition policy_from_parts ::
    "'m \<Rightarrow> network_rule list \<Rightarrow> (rstr \<rightharpoonup> path_buf list) \<Rightarrow> 'm policy" where
  "policy_from_parts rules network hosts =
     \<lparr>rules_by_program = rules, network_rules = network, host_executables_by_name = hosts\<rparr>"

definition policy_new :: "'m \<Rightarrow> 'm policy" where
  "policy_new rules = policy_from_parts rules [] Map.empty"

definition policy_empty :: "'m rule_map \<Rightarrow> 'm policy" where
  "policy_empty mm = policy_new (mm_new mm)"

fun render_pattern_token :: "pattern_token \<Rightarrow> rstr" where
  "render_pattern_token (Single v) = v"
| "render_pattern_token (Alts alts) = str ''['' @ join (str ''|'') alts @ str '']''"

definition get_allowed_prefixes :: "'m rule_map \<Rightarrow> 'm policy \<Rightarrow> rstr list list" where
  "get_allowed_prefixes mm p =
     remdups_adj (sort (concat (map (\<lambda>(_, rules). map (\<lambda>rule.
         pp_first (pr_pattern rule) # map render_pattern_token (pp_rest (pr_pattern rule)))
       (filter (\<lambda>rule. pr_decision rule = Allow) rules)) (mm_iter_all mm (rules_by_program p)))))"

definition add_prefix_rule :: "'m rule_map \<Rightarrow> 'm policy \<Rightarrow> rstr list \<Rightarrow> decision \<Rightarrow> exec_error + 'm policy" where
  "add_prefix_rule mm p tokens dec =
     (case tokens of
        [] \<Rightarrow> Err (InvalidPattern (str ''prefix cannot be empty''))
      | first_token # rest \<Rightarrow>
          Ok (p\<lparr>rules_by_program := mm_insert mm (rules_by_program p) first_token
            \<lparr>pr_pattern = \<lparr>pp_first = first_token, pp_rest = map Single rest\<rparr>,
             pr_decision = dec, pr_justification = None\<rparr>\<rparr>))"

definition add_network_rule ::
    "'m policy \<Rightarrow> rstr \<Rightarrow> network_rule_protocol \<Rightarrow> decision \<Rightarrow> rstr option \<Rightarrow> exec_error + 'm policy" where
  "add_network_rule p host protocol dec justification =
     try_bind (normalize_network_rule_host host) (\<lambda>host.
       if (case justification of Some raw \<Rightarrow> trim raw = [] | None \<Rightarrow> False)
       then Err (InvalidRule (str ''justification cannot be empty''))
       else Ok (p\<lparr>network_rules := network_rules p @
         [\<lparr>nr_host = host, nr_protocol = protocol, nr_decision = dec, nr_justification = justification\<rparr>]\<rparr>))"

definition set_host_executable_paths :: "'m policy \<Rightarrow> rstr \<Rightarrow> path_buf list \<Rightarrow> 'm policy" where
  "set_host_executable_paths p name paths =
     p\<lparr>host_executables_by_name := (host_executables_by_name p)(name \<mapsto> paths)\<rparr>"

definition insert_rules :: "('k, 'v, 'm) multimap \<Rightarrow> 'm \<Rightarrow> ('k \<times> 'v list) list \<Rightarrow> 'm" where
  "insert_rules mm = foldl (\<lambda>m (program, rules). foldl (\<lambda>m rule. mm_insert mm m program rule) m rules)"

definition merge_overlay :: "'m rule_map \<Rightarrow> 'm policy \<Rightarrow> 'm policy \<Rightarrow> 'm policy" where
  "merge_overlay mm p overlay =
     policy_from_parts
       (insert_rules mm (rules_by_program p) (mm_iter_all mm (rules_by_program overlay)))
       (network_rules p @ network_rules overlay)
       (host_executables_by_name p ++ host_executables_by_name overlay)"

definition upsert_domain :: "rstr list \<Rightarrow> rstr \<Rightarrow> rstr list" where
  "upsert_domain entries host = filter (\<lambda>entry. entry \<noteq> host) entries @ [host]"

fun compile_domain :: "rstr list \<times> rstr list \<Rightarrow> network_rule \<Rightarrow> rstr list \<times> rstr list" where
  "compile_domain (allowed, denied) rule =
     (case nr_decision rule of
        Allow \<Rightarrow> (upsert_domain allowed (nr_host rule), filter (\<lambda>entry. entry \<noteq> nr_host rule) denied)
      | Forbidden \<Rightarrow> (filter (\<lambda>entry. entry \<noteq> nr_host rule) allowed, upsert_domain denied (nr_host rule))
      | Prompt \<Rightarrow> (allowed, denied))"

definition compiled_network_domains :: "'m policy \<Rightarrow> rstr list \<times> rstr list" where
  "compiled_network_domains p = foldl compile_domain ([], []) (network_rules p)"

section \<open>Evaluation\<close>

definition match_exact_rules :: "'m rule_map \<Rightarrow> 'm policy \<Rightarrow> rstr list \<Rightarrow> rule_match list option" where
  "match_exact_rules mm p cmd =
     (case cmd of
        [] \<Rightarrow> None
      | first # _ \<Rightarrow> Some (List.map_filter (\<lambda>rule. rule_matches rule cmd) (mm_values mm (rules_by_program p) first)))"

definition match_host_executable_rules ::
    "'m rule_map \<Rightarrow> process_dirs \<Rightarrow> 'm policy \<Rightarrow> rstr list \<Rightarrow> rule_match list" where
  "match_host_executable_rules mm env p cmd =
     (case cmd of
        [] \<Rightarrow> []
      | first # args \<Rightarrow>
          (case from_absolute_path env first of
             None \<Rightarrow> []
           | Some program \<Rightarrow>
               (case executable_path_lookup_key program of
                  None \<Rightarrow> []
                | Some basename \<Rightarrow>
                    (case mm_get_vec mm (rules_by_program p) basename of
                       None \<Rightarrow> []
                     | Some rules \<Rightarrow>
                         if (case host_executables_by_name p basename of
                               Some paths \<Rightarrow> \<not> list_ex (\<lambda>path. path = program) paths | None \<Rightarrow> False)
                         then []
                         else map (with_resolved_program program)
                                (List.map_filter (\<lambda>rule. rule_matches rule (basename # args)) rules)))))"

type_synonym heuristics_fallback = "(rstr list \<Rightarrow> decision) option"

definition matches_for_command_with_options ::
    "'m rule_map \<Rightarrow> process_dirs \<Rightarrow> 'm policy \<Rightarrow> rstr list \<Rightarrow> heuristics_fallback \<Rightarrow> match_options \<Rightarrow> rule_match list" where
  "matches_for_command_with_options mm env p cmd fallback options =
     (let exact = (case match_exact_rules mm p cmd of Some ms \<Rightarrow> ms | None \<Rightarrow> []);
          matched_rules =
            (if exact \<noteq> [] then exact
             else if resolve_host_executables options then match_host_executable_rules mm env p cmd
             else [])
      in if matched_rules = []
         then case fallback of Some f \<Rightarrow> [HeuristicsRuleMatch cmd (f cmd)] | None \<Rightarrow> matched_rules
         else matched_rules)"

definition matches_for_command ::
    "'m rule_map \<Rightarrow> process_dirs \<Rightarrow> 'm policy \<Rightarrow> rstr list \<Rightarrow> heuristics_fallback \<Rightarrow> rule_match list" where
  "matches_for_command mm env p cmd fallback =
     matches_for_command_with_options mm env p cmd fallback default_match_options"

record evaluation =
  ev_decision :: decision
  ev_matched_rules :: "rule_match list"

definition is_match :: "evaluation \<Rightarrow> bool" where
  "is_match ev \<longleftrightarrow>
     list_ex (\<lambda>m. case m of HeuristicsRuleMatch _ _ \<Rightarrow> False | _ \<Rightarrow> True) (ev_matched_rules ev)"

definition max_decision :: "rule_match list \<Rightarrow> decision option" where
  "max_decision ms = (case map match_decision ms of [] \<Rightarrow> None | d # ds \<Rightarrow> Some (foldl max d ds))"

definition evaluation_from_matches :: "rule_match list \<Rightarrow> evaluation option" where
  "evaluation_from_matches matched_rules =
     map_option (\<lambda>d. \<lparr>ev_decision = d, ev_matched_rules = matched_rules\<rparr>) (max_decision matched_rules)"

definition check_with_options ::
    "'m rule_map \<Rightarrow> process_dirs \<Rightarrow> 'm policy \<Rightarrow> rstr list \<Rightarrow> (rstr list \<Rightarrow> decision) \<Rightarrow> match_options \<Rightarrow> evaluation option" where
  "check_with_options mm env p cmd fallback options =
     evaluation_from_matches (matches_for_command_with_options mm env p cmd (Some fallback) options)"

definition policy_check ::
    "'m rule_map \<Rightarrow> process_dirs \<Rightarrow> 'm policy \<Rightarrow> rstr list \<Rightarrow> (rstr list \<Rightarrow> decision) \<Rightarrow> evaluation option" where
  "policy_check mm env p cmd fallback = check_with_options mm env p cmd fallback default_match_options"

definition check_multiple_with_options ::
    "'m rule_map \<Rightarrow> process_dirs \<Rightarrow> 'm policy \<Rightarrow> rstr list list \<Rightarrow> (rstr list \<Rightarrow> decision) \<Rightarrow> match_options \<Rightarrow> evaluation option" where
  "check_multiple_with_options mm env p commands fallback options =
     evaluation_from_matches
       (concat (map (\<lambda>cmd. matches_for_command_with_options mm env p cmd (Some fallback) options) commands))"

definition check_multiple ::
    "'m rule_map \<Rightarrow> process_dirs \<Rightarrow> 'm policy \<Rightarrow> rstr list list \<Rightarrow> (rstr list \<Rightarrow> decision) \<Rightarrow> evaluation option" where
  "check_multiple mm env p commands fallback =
     check_multiple_with_options mm env p commands fallback default_match_options"

lemmas [policy_eval] =
  mm_values_def alist_multimap_def executable_lookup_key_def executable_path_lookup_key_def
  default_match_options_def policy_from_parts_def policy_new_def policy_empty_def get_allowed_prefixes_def
  add_prefix_rule_def add_network_rule_def set_host_executable_paths_def insert_rules_def merge_overlay_def
  upsert_domain_def compiled_network_domains_def match_exact_rules_def match_host_executable_rules_def
  matches_for_command_with_options_def matches_for_command_def is_match_def max_decision_def
  evaluation_from_matches_def check_with_options_def policy_check_def check_multiple_with_options_def
  check_multiple_def map_filter_simps

section \<open>Multimap lemmas\<close>

lemma multimap_lawsD:
  assumes "multimap_laws mm"
  shows "mm_get_vec mm (mm_new mm) k = None"
    and "mm_get_vec mm (mm_insert mm m k v) k' =
      (if k' = k then Some (mm_values mm m k @ [v]) else mm_get_vec mm m k')"
    and "distinct (map fst (mm_iter_all mm m))"
    and "map_of (mm_iter_all mm m) = mm_get_vec mm m"
  using assms by (simp_all add: multimap_laws_def)

lemma mm_values_insert:
  "multimap_laws mm \<Longrightarrow>
   mm_values mm (mm_insert mm m k v) k' = mm_values mm m k' @ (if k' = k then [v] else [])"
  by (simp add: mm_values_def multimap_lawsD)

lemma mm_values_insert_all:
  "multimap_laws mm \<Longrightarrow>
   mm_values mm (foldl (\<lambda>m v. mm_insert mm m k v) m vs) k' = mm_values mm m k' @ (if k' = k then vs else [])"
  by (induction vs arbitrary: m) (auto simp: mm_values_insert)

lemma insert_rules_values:
  assumes "multimap_laws mm" "distinct (map fst xs)"
  shows "mm_values mm (insert_rules mm m xs) k =
    mm_values mm m k @ (case map_of xs k of None \<Rightarrow> [] | Some vs \<Rightarrow> vs)"
  using assms(2)
proof (induction xs arbitrary: m)
  case Nil
  then show ?case by (simp add: insert_rules_def)
next
  case (Cons x xs)
  then show ?case
    using mm_values_insert_all[OF assms(1)]
    by (cases x) (auto simp: insert_rules_def map_of_eq_None_iff image_iff split: option.split)
qed

lemma merge_overlay_values:
  "multimap_laws mm \<Longrightarrow>
   mm_values mm (rules_by_program (merge_overlay mm p q)) k =
     mm_values mm (rules_by_program p) k @ mm_values mm (rules_by_program q) k"
  by (simp add: merge_overlay_def policy_from_parts_def insert_rules_values multimap_lawsD)
    (simp add: mm_values_def)

lemma map_of_alist_insert:
  "map_of (alist_insert m k v) k' =
     (if k' = k then Some ((case map_of m k of None \<Rightarrow> [] | Some vs \<Rightarrow> vs) @ [v]) else map_of m k')"
  by (induction m k v rule: alist_insert.induct) auto

lemma alist_multimap_laws: "multimap_laws alist_multimap"
proof -
  have "map_of (map (\<lambda>k. (k, the (map_of m k))) (remdups (map fst m))) k = map_of m k" for m :: "('k \<times> 'v list) list" and k
  proof (cases "map_of m k")
    case None
    then have "k \<notin> set (remdups (map fst m))" by (simp add: map_of_eq_None_iff)
    with None show ?thesis by (simp add: map_of_map_restrict restrict_map_def)
  next
    case (Some vs)
    then have "k \<in> set (remdups (map fst m))" by (force dest: map_of_SomeD)
    with Some show ?thesis by (simp add: map_of_map_restrict restrict_map_def)
  qed
  then show ?thesis
    by (auto simp: multimap_laws_def alist_multimap_def map_of_alist_insert mm_values_def comp_def intro!: ext)
qed

section \<open>Decisions\<close>

lemma foldl_max: "foldl max d ds = Max (insert d (set ds))" for d :: "'a :: linorder"
proof -
  have "(\<lambda>x s :: 'a. max s x) = max" by (intro ext) (simp add: max.commute)
  then show ?thesis using Max.set_eq_fold[of d ds] by (simp add: foldl_conv_fold)
qed

lemma Max_UN:
  fixes f :: "'b \<Rightarrow> 'a :: linorder set"
  assumes "finite S" "S \<noteq> {}" "\<And>c. c \<in> S \<Longrightarrow> finite (f c) \<and> f c \<noteq> {}"
  shows "Max (\<Union>c \<in> S. f c) = Max ((\<lambda>c. Max (f c)) ` S)"
proof (rule Max_eqI)
  show "finite (\<Union>c \<in> S. f c)" using assms by simp
  show "y \<le> Max ((\<lambda>c. Max (f c)) ` S)" if y: "y \<in> (\<Union>c \<in> S. f c)" for y
  proof -
    from y obtain c where c: "c \<in> S" "y \<in> f c" by blast
    then have "y \<le> Max (f c)" using assms(3) by simp
    also have "\<dots> \<le> Max ((\<lambda>c. Max (f c)) ` S)" using c assms(1) by simp
    finally show ?thesis .
  qed
  have "Max ((\<lambda>c. Max (f c)) ` S) \<in> (\<lambda>c. Max (f c)) ` S" using assms by (intro Max_in) auto
  then show "Max ((\<lambda>c. Max (f c)) ` S) \<in> (\<Union>c \<in> S. f c)" using assms(3) Max_in by fastforce
qed

lemma max_decision_Some: "ms \<noteq> [] \<Longrightarrow> max_decision ms = Some (Max (match_decision ` set ms))"
  by (cases ms) (simp_all add: max_decision_def foldl_max)

lemma matches_nonempty: "matches_for_command_with_options mm env p cmd (Some f) options \<noteq> []"
  by (simp add: matches_for_command_with_options_def Let_def)

text \<open>The decision of the rules alone: the strictest matching rule of the command's program, else the heuristics.\<close>

definition spec_decision :: "'m rule_map \<Rightarrow> 'm policy \<Rightarrow> (rstr list \<Rightarrow> decision) \<Rightarrow> rstr list \<Rightarrow> decision" where
  "spec_decision mm p fallback cmd =
     (let ds = (case cmd of [] \<Rightarrow> [] | first # _ \<Rightarrow>
            [pr_decision rule. rule \<leftarrow> mm_values mm (rules_by_program p) first, matches_prefix (pr_pattern rule) cmd \<noteq> None])
      in if ds = [] then fallback cmd else Max (set ds))"

lemma map_filter_decisions:
  "map match_decision (List.map_filter (\<lambda>rule. rule_matches rule cmd) rules) =
     [pr_decision rule. rule \<leftarrow> rules, matches_prefix (pr_pattern rule) cmd \<noteq> None]"
  by (induction rules) (auto simp: map_filter_simps rule_matches_def split: option.split)

lemma matches_decision:
  "Max (match_decision ` set (matches_for_command mm env p cmd (Some f))) = spec_decision mm p f cmd"
proof (cases cmd)
  case Nil
  then show ?thesis
    by (simp add: matches_for_command_def matches_for_command_with_options_def match_exact_rules_def
        default_match_options_def spec_decision_def)
next
  case (Cons first args)
  let ?ms = "List.map_filter (\<lambda>rule. rule_matches rule cmd) (mm_values mm (rules_by_program p) first)"
  note ds = map_filter_decisions[of cmd "mm_values mm (rules_by_program p) first"]
  have "matches_for_command mm env p cmd (Some f) = (if ?ms = [] then [HeuristicsRuleMatch cmd (f cmd)] else ?ms)"
    using Cons by (simp add: matches_for_command_def matches_for_command_with_options_def match_exact_rules_def
        default_match_options_def)
  then show ?thesis
    using Cons ds[symmetric] by (simp add: spec_decision_def del: set_map flip: set_map)
qed



section \<open>Overlays and added rules\<close>

lemma exact_merge_overlay:
  assumes "multimap_laws mm"
  shows "match_exact_rules mm (merge_overlay mm p q) (c # cs) =
    Some (the (match_exact_rules mm p (c # cs)) @ the (match_exact_rules mm q (c # cs)))"
  by (simp add: match_exact_rules_def merge_overlay_values[OF assms] map_filter_def)



text \<open>The rule that a list of tokens makes.\<close>

definition token_rule :: "rstr list \<Rightarrow> decision \<Rightarrow> prefix_rule" where
  "token_rule tokens dec =
     \<lparr>pr_pattern = \<lparr>pp_first = hd tokens, pp_rest = map Single (tl tokens)\<rparr>, pr_decision = dec, pr_justification = None\<rparr>"

lemma token_rule_matches:
  assumes "tokens \<noteq> []"
  shows "rule_matches (token_rule tokens dec) cmd =
    (if prefix tokens cmd then Some (PrefixRuleMatch tokens dec None None) else None)"
proof -
  from assms obtain t ts where Cons: "tokens = t # ts" by (cases tokens) auto
  let ?rule = "token_rule tokens dec"
  have single: "list_all2 token_matches (map Single xs) ys \<longleftrightarrow> xs = ys" for xs ys
    by (induction xs arbitrary: ys) (auto simp: list_all2_Cons1)
  show ?thesis
  proof (cases "prefix tokens cmd")
    case True
    then obtain more where "cmd = tokens @ more" by (auto simp: prefix_def)
    then have "matches_prefix (pr_pattern ?rule) cmd = Some tokens"
      using Cons by (subst matches_prefix_Some_iff) (auto simp: single token_rule_def)
    with True show ?thesis by (simp add: rule_matches_def token_rule_def)
  next
    case False
    then have "matches_prefix (pr_pattern ?rule) cmd \<noteq> Some m" for m
      using Cons by (subst matches_prefix_Some_iff) (auto simp: single token_rule_def)
    then have "matches_prefix (pr_pattern ?rule) cmd = None" by (metis not_Some_eq)
    with False show ?thesis by (simp add: rule_matches_def)
  qed
qed

lemma add_prefix_rule_Ok:
  "add_prefix_rule mm p tokens dec = Inr p' \<longleftrightarrow> tokens \<noteq> [] \<and>
     p' = p\<lparr>rules_by_program := mm_insert mm (rules_by_program p) (hd tokens) (token_rule tokens dec)\<rparr>"
  by (cases tokens) (auto simp: add_prefix_rule_def token_rule_def)

text \<open>
  Adding a prefix rule adds exactly one rule, for the commands that start with the prefix:
  every other command keeps its matches, and an empty prefix is refused.
\<close>

lemma add_prefix_rule_matches:
  assumes "multimap_laws mm"
  shows "case add_prefix_rule mm p tokens dec of
      Err e \<Rightarrow> tokens = []
    | Ok p' \<Rightarrow> tokens \<noteq> [] \<and> (\<forall>cmd. match_exact_rules mm p' cmd =
        map_option (\<lambda>ms. ms @ (if prefix tokens cmd then [PrefixRuleMatch tokens dec None None] else []))
          (match_exact_rules mm p cmd))"
proof (cases tokens)
  case Nil
  then show ?thesis by (simp add: add_prefix_rule_def)
next
  case (Cons t ts)
  with token_rule_matches[of tokens dec] show ?thesis
    by (auto simp: add_prefix_rule_def token_rule_def match_exact_rules_def mm_values_insert[OF assms] map_filter_def
        split: list.split)
qed

lemma add_prefix_rule_matches_example:
  "multimap_laws (alist_multimap :: (rstr, prefix_rule, (rstr \<times> prefix_rule list) list) multimap) \<and>
   (case add_prefix_rule alist_multimap (policy_empty alist_multimap) [str ''git'', str ''log''] Allow of
      Err e \<Rightarrow> False
    | Ok p' \<Rightarrow> match_exact_rules alist_multimap p' [str ''git'', str ''log'', str ''-p''] =
        Some [PrefixRuleMatch [str ''git'', str ''log''] Allow None None])"
proof -
  let ?mm = "alist_multimap :: (rstr, prefix_rule, (rstr \<times> prefix_rule list) list) multimap"
  have "match_exact_rules ?mm (policy_empty ?mm) [str ''git'', str ''log'', str ''-p''] = Some []"
    by (simp add: policy_eval)
  then show ?thesis
    using add_prefix_rule_matches[OF alist_multimap_laws, where p = "policy_empty ?mm"
        and tokens = "[str ''git'', str ''log'']" and dec = Allow]
    by (auto simp: alist_multimap_laws str_def split: sum.splits)
qed

section \<open>Compiled network domains\<close>

definition last_verdict :: "network_rule list \<Rightarrow> rstr \<Rightarrow> decision option" where
  "last_verdict rules host = last_opt [nr_decision r. r \<leftarrow> rules, nr_host r = host, nr_decision r \<noteq> Prompt]"

lemma last_verdict_snoc:
  "last_verdict (rules @ [r]) host =
     (if nr_host r = host \<and> nr_decision r \<noteq> Prompt then Some (nr_decision r) else last_verdict rules host)"
  by (simp add: last_verdict_def)

text \<open>
  In the compiled domain lists the last decisive rule of a host wins: a host is allowed (denied)
  exactly when its last rule that is not a prompt allows (forbids) it; no host is in both lists or
  twice in one.
\<close>

lemma compiled_domains_last_rule_wins:
  "let (allowed, denied) = compiled_network_domains p
   in distinct allowed \<and> distinct denied \<and> set allowed \<inter> set denied = {} \<and>
      set allowed = {host. last_verdict (network_rules p) host = Some Allow} \<and>
      set denied = {host. last_verdict (network_rules p) host = Some Forbidden}"
proof -
  have "let (allowed, denied) = foldl compile_domain ([], []) rules
    in distinct allowed \<and> distinct denied \<and>
       set allowed = {host. last_verdict rules host = Some Allow} \<and>
       set denied = {host. last_verdict rules host = Some Forbidden}" for rules
  proof (induction rules rule: rev_induct)
    case Nil
    then show ?case by (simp add: last_verdict_def)
  next
    case (snoc r rules)
    then show ?case
      by (cases "nr_decision r") (auto simp: upsert_domain_def last_verdict_snoc split: prod.splits if_splits)
  qed
  from this[of "network_rules p"] show ?thesis
    by (auto simp: compiled_network_domains_def split: prod.splits)
qed

section \<open>Host executables\<close>

lemma host_executable_matchE:
  assumes "x \<in> set (match_host_executable_rules mm env p cmd)"
  obtains first args basename rules rule prog m where
    "cmd = first # args" "from_absolute_path env first = Some prog" "executable_path_lookup_key prog = Some basename"
    "mm_get_vec mm (rules_by_program p) basename = Some rules"
    "pred_option (\<lambda>paths. prog \<in> set paths) (host_executables_by_name p basename)"
    "rule \<in> set rules" "rule_matches rule (basename # args) = Some m" "x = with_resolved_program prog m"
proof -
  from assms obtain first args where cmd: "cmd = first # args"
    by (cases cmd) (simp_all add: match_host_executable_rules_def)
  from assms cmd obtain prog where prog: "from_absolute_path env first = Some prog"
    by (cases "from_absolute_path env first") (simp_all add: match_host_executable_rules_def)
  from assms cmd prog obtain basename where base: "executable_path_lookup_key prog = Some basename"
    by (cases "executable_path_lookup_key prog") (simp_all add: match_host_executable_rules_def)
  from assms cmd prog base obtain rules where rules: "mm_get_vec mm (rules_by_program p) basename = Some rules"
    by (cases "mm_get_vec mm (rules_by_program p) basename") (simp_all add: match_host_executable_rules_def)
  from assms cmd prog base rules have
    paths: "pred_option (\<lambda>paths. prog \<in> set paths) (host_executables_by_name p basename)"
    and "x \<in> with_resolved_program prog ` set (List.map_filter (\<lambda>rule. rule_matches rule (basename # args)) rules)"
    by (cases "host_executables_by_name p basename";
        simp add: match_host_executable_rules_def list_ex_iff split: if_splits)+
  then obtain rule m where "rule \<in> set rules" "rule_matches rule (basename # args) = Some m"
    "x = with_resolved_program prog m" by (auto simp: map_filter_def)
  with that cmd prog base rules paths show thesis by blast
qed

text \<open>
  C36. A rule that matched through the base name of a program path was entitled to: resolution was
  enabled, no rule matched the command as written, the resolved program is the command's own program
  made absolute, the rule is one for its base name, and if executables are listed for that name, the
  program is one of them.
\<close>

theorem resolved_program_entitled:
  assumes "PrefixRuleMatch matched d (Some program) j \<in>
    set (matches_for_command_with_options mm env p cmd fallback options)"
  shows "resolve_host_executables options \<and> from_absolute_path env (hd cmd) = Some program \<and>
    match_exact_rules mm p cmd = Some [] \<and>
    (\<exists>basename. file_name_of program = Some basename \<and>
      pred_option (\<lambda>paths. program \<in> set paths) (host_executables_by_name p basename) \<and>
      (\<exists>rule \<in> set (mm_values mm (rules_by_program p) basename).
        rule_matches rule (basename # tl cmd) = Some (PrefixRuleMatch matched d None j)))"
proof -
  have unresolved: "rule_matches rule c \<noteq> Some (PrefixRuleMatch matched d (Some program) j)" for rule c
    by (auto simp: rule_matches_def)
  have "match_exact_rules mm p cmd \<noteq> Some ms" if "PrefixRuleMatch matched d (Some program) j \<in> set ms" for ms
    using that unresolved by (auto simp: match_exact_rules_def map_filter_def split: list.splits)
  with assms have *: "resolve_host_executables options"
    "PrefixRuleMatch matched d (Some program) j \<in> set (match_host_executable_rules mm env p cmd)"
    "match_exact_rules mm p cmd = None \<or> match_exact_rules mm p cmd = Some []"
    by (auto simp: matches_for_command_with_options_def Let_def split: if_splits option.splits)
  from host_executable_matchE[OF *(2)] obtain first args basename rules rule prog m where r:
    "cmd = first # args" "from_absolute_path env first = Some prog" "executable_path_lookup_key prog = Some basename"
    "mm_get_vec mm (rules_by_program p) basename = Some rules"
    "pred_option (\<lambda>paths. prog \<in> set paths) (host_executables_by_name p basename)"
    "rule \<in> set rules" "rule_matches rule (basename # args) = Some m"
    "PrefixRuleMatch matched d (Some program) j = with_resolved_program prog m" .
  from r(7,8) have "m = PrefixRuleMatch matched d None j" "prog = program"
    by (cases m; auto simp: rule_matches_def)+
  with r *(1,3) show ?thesis
    by (auto simp: executable_path_lookup_key_def executable_lookup_key_def mm_values_def match_exact_rules_def
        simp del: file_name_of.simps)
qed

theorem resolved_program_entitled_witness:
  "let mm = alist_multimap :: (rstr, prefix_rule, (rstr \<times> prefix_rule list) list) multimap;
       git = [RootDir, NormalDir (str ''bin''), NormalDir (str ''git'')];
       p = set_host_executable_paths (policy_new
         [(str ''git'', [\<lparr>pr_pattern = \<lparr>pp_first = str ''git'', pp_rest = []\<rparr>, pr_decision = Allow, pr_justification = None\<rparr>])])
         (str ''git'') [git]
   in matches_for_command_with_options mm \<lparr>home_dir = None, current_dir = None\<rparr> p [str ''/bin/git''] None
        \<lparr>resolve_host_executables = True\<rparr> = [PrefixRuleMatch [str ''git''] Allow (Some git) None] \<and>
      match_exact_rules mm p [str ''/bin/git''] = Some []"
proof -
  let ?mm = "alist_multimap :: (rstr, prefix_rule, (rstr \<times> prefix_rule list) list) multimap"
  let ?git = "[RootDir, NormalDir (str ''bin''), NormalDir (str ''git'')]"
  let ?p = "set_host_executable_paths (policy_new
         [(str ''git'', [\<lparr>pr_pattern = \<lparr>pp_first = str ''git'', pp_rest = []\<rparr>, pr_decision = Allow, pr_justification = None\<rparr>])])
         (str ''git'') [?git]"
  have m: "matches_for_command_with_options ?mm \<lparr>home_dir = None, current_dir = None\<rparr> ?p [str ''/bin/git''] None
      \<lparr>resolve_host_executables = True\<rparr> = [PrefixRuleMatch [str ''git''] Allow (Some ?git) None]"
    by (simp add: policy_eval str_eval)
  then have "PrefixRuleMatch [str ''git''] Allow (Some ?git) None \<in> set (matches_for_command_with_options ?mm
      \<lparr>home_dir = None, current_dir = None\<rparr> ?p [str ''/bin/git''] None \<lparr>resolve_host_executables = True\<rparr>)"
    by simp
  from resolved_program_entitled[OF this] m show ?thesis by (simp add: Let_def)
qed

lemma relative_program_path:
  assumes "current_dir env = Some cwd" "is_absolute cwd" "name_ok name"
  shows "\<exists>program. from_absolute_path env (str ''./'' @ name) = Some program \<and> file_name_of program = Some name"
proof -
  let ?p = "str ''./'' @ name"
  have rel: "\<not> is_absolute ?p" by (simp add: is_absolute_def str_def)
  have "maybe_expand_home_directory env ?p = ?p"
    by (simp add: maybe_expand_home_directory_def strip_prefix_def str_def)
  with rel assms(1) have prog: "from_absolute_path env ?p = Some (normalize_path (cwd @ SLASH # ?p))"
    by (simp add: from_absolute_path_def absolutize_def absolutize_from_def path_with_base_def path_join_def)
  have "split_char SLASH ?p = [str ''.'', name]"
    using assms(3) split_char_append_sep[of SLASH "str ''.''" name]
    by (simp add: name_ok_def split_char_no_sep str_def)
  then have "split_char SLASH (cwd @ SLASH # ?p) = split_char SLASH cwd @ [str ''.'', name]"
    using split_char_append[of SLASH cwd ?p] by simp
  moreover have "is_absolute (cwd @ SLASH # ?p)" using assms(2) by (auto simp: is_absolute_def)
  ultimately have "path_components (cwd @ SLASH # ?p) =
      RootDir # concat (map part_component (split_char SLASH cwd)) @ [NormalDir name]"
    using assms(3) by (simp add: path_components_def name_ok_def)
  then have "\<exists>cs. normalize_path (cwd @ SLASH # ?p) = cs @ [NormalDir name]"
    by (simp add: normalize_path_def path_push_def Let_def)
  with prog show ?thesis by auto
qed

text \<open>
  Resolution is not limited to absolute program paths: a program given relative to the current
  directory, as in \<open>./git\<close>, falls back to the rules of its base name, allowing rules included, unless
  executables are listed for that name.
\<close>

lemma relative_program_resolves:
  assumes "current_dir env = Some cwd" "is_absolute cwd" "name_ok name"
    and "match_exact_rules mm p ((str ''./'' @ name) # args) = Some []"
    and "host_executables_by_name p name = None"
  shows "\<exists>program. matches_for_command_with_options mm env p ((str ''./'' @ name) # args) None
      \<lparr>resolve_host_executables = True\<rparr> =
    map (with_resolved_program program) (the (match_exact_rules mm p (name # args)))"
proof -
  from relative_program_path[OF assms(1-3)] obtain program where prog:
    "from_absolute_path env (str ''./'' @ name) = Some program" "file_name_of program = Some name" by blast
  have "match_host_executable_rules mm env p ((str ''./'' @ name) # args) =
      map (with_resolved_program program) (the (match_exact_rules mm p (name # args)))"
    using prog assms(5) by (simp add: match_host_executable_rules_def match_exact_rules_def mm_values_def
        executable_path_lookup_key_def executable_lookup_key_def map_filter_def del: file_name_of.simps split: option.split)
  with assms(4) show ?thesis
    by (intro exI[of _ program]) (simp add: matches_for_command_with_options_def Let_def)
qed

end
