(* ===== verification/Policy_Parser.thy ===== *)
theory Policy_Parser
  imports Exec_Policy
begin

text \<open>
  \<open>execpolicy/src/parser.rs\<close>, the example checks of \<open>rule.rs\<close> and \<open>load_policies\<close> of
  \<open>execpolicycheck.rs\<close>.  A policy file is a Starlark program that calls three builtins; the
  interpreter is the argument \<open>star\<close>, which for a file gives a syntax error or the calls the program
  makes, in order, and the error it ends with, if any (the builtins return nothing and their errors
  cannot be caught, so a program is the sequence of its calls up to the first that fails).  The
  shell splitting and joining of the \<open>shlex\<close> crate are the argument \<open>sx\<close>.
\<close>

section \<open>Values and interpreters\<close>

datatype star_value = StarStr rstr | StarList "star_value list" | StarOther rstr

fun star_type :: "star_value \<Rightarrow> rstr" where
  "star_type (StarStr _) = str ''string''"
| "star_type (StarList _) = str ''list''"
| "star_type (StarOther t) = t"

record shlex =
  shlex_split :: "rstr \<Rightarrow> rstr list option"
  shlex_join :: "rstr list \<Rightarrow> rstr option"

datatype builtin_call =
    PrefixRuleCall "star_value list" "rstr option" "star_value list option" "star_value list option" "rstr option"
      "file_span option"
  | NetworkRuleCall rstr rstr rstr "rstr option"
  | HostExecutableCall rstr "star_value list"

record starlark =
  star_run :: "rstr \<Rightarrow> rstr \<Rightarrow> starlark_error + builtin_call list \<times> starlark_error option"
  star_wrap :: "exec_error \<Rightarrow> starlark_error"

text \<open>\<open>collect::<Result<_>>\<close>: all results, or the first error.\<close>

fun collect_results :: "('a \<Rightarrow> 'e + 'b) \<Rightarrow> 'a list \<Rightarrow> 'e + 'b list" where
  "collect_results f [] = Ok []"
| "collect_results f (x # xs) = try_bind (f x) (\<lambda>y. try_bind (collect_results f xs) (\<lambda>ys. Ok (y # ys)))"

section \<open>The builder\<close>

record pending_example_validation =
  pv_rules :: "prefix_rule list"
  pv_matches :: "rstr list list"
  pv_not_matches :: "rstr list list"
  pv_location :: "error_location option"

record 'm policy_builder =
  pb_rules_by_program :: 'm
  pb_network_rules :: "network_rule list"
  pb_host_executables :: "rstr \<rightharpoonup> path_buf list"
  pb_pending :: "pending_example_validation list"

definition builder_new :: "'m rule_map \<Rightarrow> 'm policy_builder" where
  "builder_new mm =
     \<lparr>pb_rules_by_program = mm_new mm, pb_network_rules = [], pb_host_executables = Map.empty, pb_pending = []\<rparr>"

definition builder_add_rule :: "'m rule_map \<Rightarrow> 'm policy_builder \<Rightarrow> prefix_rule \<Rightarrow> 'm policy_builder" where
  "builder_add_rule mm b rule =
     b\<lparr>pb_rules_by_program := mm_insert mm (pb_rules_by_program b) (rule_program rule) rule\<rparr>"

definition builder_add_network_rule :: "'m policy_builder \<Rightarrow> network_rule \<Rightarrow> 'm policy_builder" where
  "builder_add_network_rule b rule = b\<lparr>pb_network_rules := pb_network_rules b @ [rule]\<rparr>"

definition builder_add_host_executable :: "'m policy_builder \<Rightarrow> rstr \<Rightarrow> path_buf list \<Rightarrow> 'm policy_builder" where
  "builder_add_host_executable b name paths =
     b\<lparr>pb_host_executables := (pb_host_executables b)(name \<mapsto> paths)\<rparr>"

definition add_pending_example_validation ::
    "'m policy_builder \<Rightarrow> prefix_rule list \<Rightarrow> rstr list list \<Rightarrow> rstr list list \<Rightarrow> error_location option \<Rightarrow>
     'm policy_builder" where
  "add_pending_example_validation b rules matches not_matches location =
     b\<lparr>pb_pending := pb_pending b @ [\<lparr>pv_rules = rules, pv_matches = matches, pv_not_matches = not_matches,
       pv_location = location\<rparr>]\<rparr>"

definition builder_build :: "'m policy_builder \<Rightarrow> 'm policy" where
  "builder_build b = policy_from_parts (pb_rules_by_program b) (pb_network_rules b) (pb_host_executables b)"

section \<open>Checking the examples\<close>

definition resolving :: match_options where
  "resolving = \<lparr>resolve_host_executables = True\<rparr>"

definition render_example :: "shlex \<Rightarrow> rstr list \<Rightarrow> rstr" where
  "render_example sx example =
     (case shlex_join sx example of Some s \<Rightarrow> s | None \<Rightarrow> str ''unable to render example'')"

definition validate_match_examples ::
    "'m rule_map \<Rightarrow> process_dirs \<Rightarrow> shlex \<Rightarrow> 'm policy \<Rightarrow> prefix_rule list \<Rightarrow> rstr list list \<Rightarrow> exec_error + unit" where
  "validate_match_examples mm env sx p rules matches =
     (let unmatched_examples = map (render_example sx)
            (filter (\<lambda>example. matches_for_command_with_options mm env p example None resolving = []) matches)
      in if unmatched_examples = [] then Ok () else Err (ExampleDidNotMatch rules unmatched_examples None))"

fun validate_not_match_examples ::
    "'m rule_map \<Rightarrow> process_dirs \<Rightarrow> shlex \<Rightarrow> 'm policy \<Rightarrow> rstr list list \<Rightarrow> exec_error + unit" where
  "validate_not_match_examples mm env sx p [] = Ok ()"
| "validate_not_match_examples mm env sx p (example # examples) =
     (case matches_for_command_with_options mm env p example None resolving of
        rule # _ \<Rightarrow> Err (ExampleDidMatch rule (render_example sx example) None)
      | [] \<Rightarrow> validate_not_match_examples mm env sx p examples)"

definition attach_validation_location :: "error_location option \<Rightarrow> exec_error \<Rightarrow> exec_error" where
  "attach_validation_location location e =
     (case location of Some location \<Rightarrow> with_location e location | None \<Rightarrow> e)"

definition map_err :: "('e \<Rightarrow> 'f) \<Rightarrow> 'e + 'a \<Rightarrow> 'f + 'a" where
  "map_err f r = (case r of Err e \<Rightarrow> Err (f e) | Ok x \<Rightarrow> Ok x)"

definition validation_policy :: "'m rule_map \<Rightarrow> 'm policy_builder \<Rightarrow> pending_example_validation \<Rightarrow> 'm policy" where
  "validation_policy mm b v =
     policy_from_parts (foldl (\<lambda>m rule. mm_insert mm m (rule_program rule) rule) (mm_new mm) (pv_rules v)) []
       (pb_host_executables b)"

definition validate_pending ::
    "'m rule_map \<Rightarrow> process_dirs \<Rightarrow> shlex \<Rightarrow> 'm policy_builder \<Rightarrow> pending_example_validation \<Rightarrow> exec_error + unit" where
  "validate_pending mm env sx b v =
     (let p = validation_policy mm b v in
      try_bind (map_err (attach_validation_location (pv_location v))
        (validate_not_match_examples mm env sx p (pv_not_matches v))) (\<lambda>_.
      map_err (attach_validation_location (pv_location v))
        (validate_match_examples mm env sx p (pv_rules v) (pv_matches v))))"

definition validate_pending_examples_from ::
    "'m rule_map \<Rightarrow> process_dirs \<Rightarrow> shlex \<Rightarrow> 'm policy_builder \<Rightarrow> nat \<Rightarrow> exec_error + unit" where
  "validate_pending_examples_from mm env sx b start =
     try_bind (collect_results (validate_pending mm env sx b) (drop start (pb_pending b))) (\<lambda>_. Ok ())"

section \<open>Arguments of the builtins\<close>

definition string_tokens :: "(rstr \<Rightarrow> exec_error) \<Rightarrow> star_value list \<Rightarrow> exec_error + rstr list" where
  "string_tokens err = collect_results (\<lambda>v. case v of StarStr s \<Rightarrow> Ok s | _ \<Rightarrow> Err (err (star_type v)))"

fun parse_pattern_token :: "star_value \<Rightarrow> exec_error + pattern_token" where
  "parse_pattern_token (StarStr s) = Ok (Single s)"
| "parse_pattern_token (StarList vs) =
     try_bind (string_tokens (\<lambda>t. InvalidPattern (str ''pattern alternative must be a string (got '' @ t @ str '')'')) vs)
       (\<lambda>tokens. case tokens of
          [] \<Rightarrow> Err (InvalidPattern (str ''pattern alternatives cannot be empty''))
        | [single] \<Rightarrow> Ok (Single single)
        | _ \<Rightarrow> Ok (Alts tokens))"
| "parse_pattern_token (StarOther t) =
     Err (InvalidPattern (str ''pattern element must be a string or list of strings (got '' @ t @ str '')''))"

definition parse_pattern :: "star_value list \<Rightarrow> exec_error + pattern_token list" where
  "parse_pattern items =
     try_bind (collect_results parse_pattern_token items) (\<lambda>tokens.
       if tokens = [] then Err (InvalidPattern (str ''pattern cannot be empty'')) else Ok tokens)"

definition parse_string_example :: "shlex \<Rightarrow> rstr \<Rightarrow> exec_error + rstr list" where
  "parse_string_example sx raw =
     (case shlex_split sx raw of
        None \<Rightarrow> Err (InvalidExample (str ''example string has invalid shell syntax''))
      | Some tokens \<Rightarrow>
          if tokens = [] then Err (InvalidExample (str ''example cannot be an empty string'')) else Ok tokens)"

definition parse_list_example :: "star_value list \<Rightarrow> exec_error + rstr list" where
  "parse_list_example vs =
     try_bind (string_tokens (\<lambda>t. InvalidExample (str ''example tokens must be strings (got '' @ t @ str '')'')) vs)
       (\<lambda>tokens. if tokens = [] then Err (InvalidExample (str ''example cannot be an empty list'')) else Ok tokens)"

fun parse_example :: "shlex \<Rightarrow> star_value \<Rightarrow> exec_error + rstr list" where
  "parse_example sx (StarStr raw) = parse_string_example sx raw"
| "parse_example sx (StarList vs) = parse_list_example vs"
| "parse_example sx (StarOther t) =
     Err (InvalidExample (str ''example must be a string or list of strings (got '' @ t @ str '')''))"

definition parse_examples :: "shlex \<Rightarrow> star_value list \<Rightarrow> exec_error + rstr list list" where
  "parse_examples sx = collect_results (parse_example sx)"

definition optional_examples :: "shlex \<Rightarrow> star_value list option \<Rightarrow> exec_error + rstr list list" where
  "optional_examples sx vs = (case vs of None \<Rightarrow> Ok [] | Some vs \<Rightarrow> parse_examples sx vs)"

text \<open>
  An absolute text always resolves (lemma \<open>parse_literal_absolute_path_Ok\<close>), so the second error,
  whose text would end with that of an I/O error, is never raised.
\<close>

definition parse_literal_absolute_path :: "process_dirs \<Rightarrow> rstr \<Rightarrow> exec_error + path_buf" where
  "parse_literal_absolute_path env raw =
     (if \<not> is_absolute raw then Err (InvalidRule (str ''host_executable paths must be absolute (got '' @ raw @ str '')''))
      else case from_absolute_path env raw of
        Some p \<Rightarrow> Ok p
      | None \<Rightarrow> Err (InvalidRule (str ''invalid absolute path `'' @ raw @ str ''`: '')))"

definition validate_host_executable_name :: "rstr \<Rightarrow> exec_error + unit" where
  "validate_host_executable_name name =
     (if name = [] then Err (InvalidRule (str ''host_executable name cannot be empty''))
      else if length (path_components name) \<noteq> 1 \<or> file_name_of (path_components name) \<noteq> Some name
      then Err (InvalidRule (str ''host_executable name must be a bare executable name (got '' @ name @ str '')''))
      else Ok ())"

definition parse_network_rule_decision :: "rstr \<Rightarrow> exec_error + decision" where
  "parse_network_rule_decision raw = (if raw = str ''deny'' then Ok Forbidden else decision_parse raw)"

definition check_justification :: "rstr option \<Rightarrow> exec_error + rstr option" where
  "check_justification justification =
     (case justification of
        Some raw \<Rightarrow> if trim raw = [] then Err (InvalidRule (str ''justification cannot be empty'')) else Ok (Some raw)
      | None \<Rightarrow> Ok None)"

section \<open>The builtins\<close>

definition head_rules :: "pattern_token \<Rightarrow> pattern_token list \<Rightarrow> decision \<Rightarrow> rstr option \<Rightarrow> prefix_rule list" where
  "head_rules first rest dec justification =
     map (\<lambda>head. \<lparr>pr_pattern = \<lparr>pp_first = head, pp_rest = rest\<rparr>, pr_decision = dec, pr_justification = justification\<rparr>)
       (alternatives first)"

definition builtin_prefix_rule ::
    "'m rule_map \<Rightarrow> shlex \<Rightarrow> star_value list \<Rightarrow> rstr option \<Rightarrow> star_value list option \<Rightarrow> star_value list option \<Rightarrow>
     rstr option \<Rightarrow> file_span option \<Rightarrow> 'm policy_builder \<Rightarrow> exec_error + 'm policy_builder" where
  "builtin_prefix_rule mm sx pattern dec match_ex not_match_ex justification span b =
     try_bind (case dec of Some raw \<Rightarrow> decision_parse raw | None \<Rightarrow> Ok Allow) (\<lambda>dec.
     try_bind (check_justification justification) (\<lambda>justification.
     try_bind (parse_pattern pattern) (\<lambda>pattern_tokens.
     try_bind (optional_examples sx match_ex) (\<lambda>matches.
     try_bind (optional_examples sx not_match_ex) (\<lambda>not_matches.
       let location = map_option error_location_from_file_span span in
       case pattern_tokens of
         [] \<Rightarrow> Err (InvalidPattern (str ''pattern cannot be empty''))
       | first_token # rest \<Rightarrow>
           let rules = head_rules first_token rest dec justification
           in Ok (foldl (builder_add_rule mm) (add_pending_example_validation b rules matches not_matches location) rules))))))"

definition builtin_network_rule ::
    "rstr \<Rightarrow> rstr \<Rightarrow> rstr \<Rightarrow> rstr option \<Rightarrow> 'm policy_builder \<Rightarrow> exec_error + 'm policy_builder" where
  "builtin_network_rule host protocol dec justification b =
     try_bind (protocol_parse protocol) (\<lambda>protocol.
     try_bind (parse_network_rule_decision dec) (\<lambda>dec.
     try_bind (check_justification justification) (\<lambda>justification.
     try_bind (normalize_network_rule_host host) (\<lambda>host.
       Ok (builder_add_network_rule b
         \<lparr>nr_host = host, nr_protocol = protocol, nr_decision = dec, nr_justification = justification\<rparr>)))))"

text \<open>One path of a \<open>host_executable\<close> call, added to those parsed so far.\<close>

definition host_path_step :: "process_dirs \<Rightarrow> rstr \<Rightarrow> path_buf list \<Rightarrow> star_value \<Rightarrow> exec_error + path_buf list" where
  "host_path_step env name parsed v =
     (case v of
        StarStr raw \<Rightarrow>
          try_bind (parse_literal_absolute_path env raw) (\<lambda>path.
            case executable_path_lookup_key path of
              None \<Rightarrow> Err (InvalidRule (str ''host_executable path `'' @ raw @ str ''` must have basename `'' @ name @ str ''`''))
            | Some path_name \<Rightarrow>
                if path_name \<noteq> executable_lookup_key name
                then Err (InvalidRule (str ''host_executable path `'' @ raw @ str ''` must have basename `'' @ name @ str ''`''))
                else Ok (if list_ex (\<lambda>existing. existing = path) parsed then parsed else parsed @ [path]))
      | _ \<Rightarrow> Err (InvalidRule (str ''host_executable paths must be strings (got '' @ star_type v @ str '')'')))"

fun host_paths :: "process_dirs \<Rightarrow> rstr \<Rightarrow> path_buf list \<Rightarrow> star_value list \<Rightarrow> exec_error + path_buf list" where
  "host_paths env name parsed [] = Ok parsed"
| "host_paths env name parsed (v # vs) =
     try_bind (host_path_step env name parsed v) (\<lambda>parsed. host_paths env name parsed vs)"

definition builtin_host_executable ::
    "process_dirs \<Rightarrow> rstr \<Rightarrow> star_value list \<Rightarrow> 'm policy_builder \<Rightarrow> exec_error + 'm policy_builder" where
  "builtin_host_executable env name paths b =
     try_bind (validate_host_executable_name name) (\<lambda>_.
     try_bind (host_paths env name [] paths) (\<lambda>parsed_paths.
       Ok (builder_add_host_executable b (executable_lookup_key name) parsed_paths)))"

fun builtin :: "'m rule_map \<Rightarrow> process_dirs \<Rightarrow> shlex \<Rightarrow> builtin_call \<Rightarrow> 'm policy_builder \<Rightarrow> exec_error + 'm policy_builder" where
  "builtin mm env sx (PrefixRuleCall pattern dec match_ex not_match_ex justification span) b =
     builtin_prefix_rule mm sx pattern dec match_ex not_match_ex justification span b"
| "builtin mm env sx (NetworkRuleCall host protocol dec justification) b =
     builtin_network_rule host protocol dec justification b"
| "builtin mm env sx (HostExecutableCall name paths) b = builtin_host_executable env name paths b"

definition builtin_step ::
    "'m rule_map \<Rightarrow> process_dirs \<Rightarrow> shlex \<Rightarrow> builtin_call \<Rightarrow> 'm policy_builder \<Rightarrow> 'm policy_builder \<times> (unit, exec_error) result" where
  "builtin_step mm env sx call b = (case builtin mm env sx call b of Err e \<Rightarrow> (b, Err e) | Ok b' \<Rightarrow> (b', Ok ()))"

section \<open>Parsing files\<close>

definition policy_parse ::
    "'m rule_map \<Rightarrow> process_dirs \<Rightarrow> shlex \<Rightarrow> starlark \<Rightarrow> rstr \<Rightarrow> rstr \<Rightarrow> 'm policy_builder \<Rightarrow>
     'm policy_builder \<times> (unit, exec_error) result" where
  "policy_parse mm env sx star policy_identifier policy_file_contents b =
     (let pending_validation_count = length (pb_pending b)
      in case star_run star policy_identifier policy_file_contents of
           Inl e \<Rightarrow> (b, Err (Starlark e))
         | Inr (calls, final) \<Rightarrow>
             (case run_steps (builtin_step mm env sx) calls b of
                (b, Inl e) \<Rightarrow> (b, Err (Starlark (star_wrap star e)))
              | (b, Inr _) \<Rightarrow>
                  (case final of
                     Some e \<Rightarrow> (b, Err (Starlark e))
                   | None \<Rightarrow> (b, validate_pending_examples_from mm env sx b pending_validation_count))))"

datatype load_error = FailedToRead rstr | FailedToParse rstr exec_error

definition load_policy ::
    "'m rule_map \<Rightarrow> process_dirs \<Rightarrow> shlex \<Rightarrow> starlark \<Rightarrow> (rstr \<Rightarrow> rstr option) \<Rightarrow> rstr \<Rightarrow> 'm policy_builder \<Rightarrow>
     'm policy_builder \<times> (unit, load_error) result" where
  "load_policy mm env sx star read policy_path b =
     (case read policy_path of
        None \<Rightarrow> (b, Err (FailedToRead policy_path))
      | Some contents \<Rightarrow>
          (case policy_parse mm env sx star policy_path contents b of
             (b, Inl e) \<Rightarrow> (b, Err (FailedToParse policy_path e))
           | (b, Inr _) \<Rightarrow> (b, Ok ())))"

definition load_policies ::
    "'m rule_map \<Rightarrow> process_dirs \<Rightarrow> shlex \<Rightarrow> starlark \<Rightarrow> (rstr \<Rightarrow> rstr option) \<Rightarrow> rstr list \<Rightarrow> load_error + 'm policy" where
  "load_policies mm env sx star read policy_paths =
     (case run_steps (load_policy mm env sx star read) policy_paths (builder_new mm) of
        (b, Inl e) \<Rightarrow> Err e
      | (b, Inr _) \<Rightarrow> Ok (builder_build b))"

lemmas [policy_eval] =
  builder_new_def builder_add_rule_def builder_add_network_rule_def builder_add_host_executable_def
  add_pending_example_validation_def builder_build_def resolving_def render_example_def
  validate_match_examples_def attach_validation_location_def map_err_def validation_policy_def
  validate_pending_def validate_pending_examples_from_def string_tokens_def parse_pattern_def
  parse_string_example_def parse_list_example_def parse_examples_def optional_examples_def
  parse_literal_absolute_path_def validate_host_executable_name_def parse_network_rule_decision_def
  check_justification_def head_rules_def builtin_prefix_rule_def builtin_network_rule_def host_path_step_def
  builtin_host_executable_def builtin_step_def policy_parse_def load_policy_def load_policies_def

section \<open>The invariant of the builder\<close>

definition builder_inv :: "'m rule_map \<Rightarrow> 'm policy_builder \<Rightarrow> bool" where
  "builder_inv mm b \<longleftrightarrow>
     (\<forall>k. \<forall>rule \<in> set (mm_values mm (pb_rules_by_program b) k). rule_program rule = k) \<and>
     (\<forall>v \<in> set (pb_pending b). \<forall>rule \<in> set (pv_rules v).
        rule \<in> set (mm_values mm (pb_rules_by_program b) (rule_program rule))) \<and>
     (\<forall>r \<in> set (pb_network_rules b). host_chars_ok (nr_host r)) \<and>
     (\<forall>name paths. pb_host_executables b name = Some paths \<longrightarrow>
        distinct paths \<and> (\<forall>p \<in> set paths. normalized p \<and> executable_path_lookup_key p = Some name))"

lemma parse_literal_absolute_path_Ok:
  "is_absolute raw \<Longrightarrow> parse_literal_absolute_path env raw = Ok (normalize_path raw)"
proof -
  assume a: "is_absolute raw"
  then have "maybe_expand_home_directory env raw = raw"
    by (auto simp: is_absolute_def maybe_expand_home_directory_def prefix_def strip_prefix_def str_def)
  with a show ?thesis by (simp add: parse_literal_absolute_path_def from_absolute_path_def absolutize_def)
qed

lemma host_path_step_OkD:
  assumes "host_path_step env name parsed v = Ok parsed'"
  shows "\<exists>path. normalized path \<and> executable_path_lookup_key path = Some (executable_lookup_key name) \<and>
    parsed' = (if path \<in> set parsed then parsed else parsed @ [path])"
proof -
  from assms obtain raw where v: "v = StarStr raw" by (cases v) (simp_all add: host_path_step_def)
  have a: "is_absolute raw"
  proof (rule ccontr)
    assume "\<not> is_absolute raw"
    with assms v show False by (simp add: host_path_step_def parse_literal_absolute_path_def)
  qed
  from assms v show ?thesis
    by (intro exI[of _ "normalize_path raw"])
      (auto simp: host_path_step_def parse_literal_absolute_path_Ok[OF a] normalize_absolute[OF a] list_ex_iff
        split: option.splits if_splits)
qed

lemma host_paths_ok:
  assumes "host_paths env name parsed vs = Ok paths"
    and "distinct parsed \<and> (\<forall>p \<in> set parsed. normalized p \<and> executable_path_lookup_key p = Some (executable_lookup_key name))"
  shows "distinct paths \<and> (\<forall>p \<in> set paths. normalized p \<and> executable_path_lookup_key p = Some (executable_lookup_key name))"
  using assms
proof (induction vs arbitrary: parsed)
  case (Cons v vs)
  then obtain parsed' where p: "host_path_step env name parsed v = Ok parsed'" "host_paths env name parsed' vs = Ok paths"
    by (auto simp: try_bind_Inr_iff)
  from host_path_step_OkD[OF p(1)] Cons.prems(2)
  have "distinct parsed' \<and> (\<forall>p \<in> set parsed'. normalized p \<and> executable_path_lookup_key p = Some (executable_lookup_key name))"
    by (auto split: if_splits)
  with Cons.IH p(2) show ?case by blast
qed simp

lemma add_rules_values:
  "multimap_laws mm \<Longrightarrow>
   mm_values mm (pb_rules_by_program (foldl (builder_add_rule mm) b rules)) k =
     mm_values mm (pb_rules_by_program b) k @ filter (\<lambda>rule. rule_program rule = k) rules"
  by (induction rules arbitrary: b) (auto simp: builder_add_rule_def mm_values_insert)

lemma add_rules_simps [simp]:
  "pb_pending (foldl (builder_add_rule mm) b rules) = pb_pending b"
  "pb_network_rules (foldl (builder_add_rule mm) b rules) = pb_network_rules b"
  "pb_host_executables (foldl (builder_add_rule mm) b rules) = pb_host_executables b"
  by (induction rules arbitrary: b) (simp_all add: builder_add_rule_def)

lemma builtin_prefix_rule_OkE:
  assumes "builtin_prefix_rule mm sx pattern dec me ne j span b = Ok b'"
  obtains d tokens first rest ms ns where
    "(case dec of Some raw \<Rightarrow> decision_parse raw | None \<Rightarrow> Ok Allow) = Ok d" "check_justification j = Ok j"
    "parse_pattern pattern = Ok (first # rest)"
    "optional_examples sx me = Ok ms" "optional_examples sx ne = Ok ns"
    "b' = foldl (builder_add_rule mm) (add_pending_example_validation b (head_rules first rest d j) ms ns
        (map_option error_location_from_file_span span)) (head_rules first rest d j)"
proof -
  from assms obtain d j' tokens ms ns where r:
    "(case dec of Some raw \<Rightarrow> decision_parse raw | None \<Rightarrow> Ok Allow) = Ok d" "check_justification j = Ok j'"
    "parse_pattern pattern = Ok tokens" "optional_examples sx me = Ok ms" "optional_examples sx ne = Ok ns"
    "(case tokens of [] \<Rightarrow> Err (InvalidPattern (str ''pattern cannot be empty''))
      | first # rest \<Rightarrow> Ok (foldl (builder_add_rule mm) (add_pending_example_validation b (head_rules first rest d j') ms ns
          (map_option error_location_from_file_span span)) (head_rules first rest d j'))) = Ok b'"
    unfolding builtin_prefix_rule_def Let_def try_bind_Inr_iff by blast
  moreover from r(2) have "j' = j" by (auto simp: check_justification_def split: option.splits if_splits)
  ultimately show thesis using that by (cases tokens) auto
qed

lemma builtin_inv:
  assumes laws: "multimap_laws mm" and inv: "builder_inv mm b" and ok: "builtin mm env sx call b = Ok b'"
  shows "builder_inv mm b'"
proof (cases call)
  case (PrefixRuleCall pattern dec me ne j span)
  with ok have "builtin_prefix_rule mm sx pattern dec me ne j span b = Ok b'" by simp
  then obtain d first rest ms ns where b': "b' = foldl (builder_add_rule mm)
      (add_pending_example_validation b (head_rules first rest d j) ms ns
        (map_option error_location_from_file_span span)) (head_rules first rest d j)"
    by (elim builtin_prefix_rule_OkE) blast
  show ?thesis
    using inv unfolding b' builder_inv_def
    by (auto simp: add_rules_values[OF laws] add_pending_example_validation_def)
next
  case (NetworkRuleCall host protocol dec j)
  with ok obtain r h where b': "b' = builder_add_network_rule b r" "nr_host r = h"
    and h: "normalize_network_rule_host host = Ok h"
    by (auto simp: builtin_network_rule_def try_bind_Inr_iff)
  have "host_chars_ok h" using h by (rule normalize_host_chars)
  with inv b' show ?thesis by (auto simp: builder_inv_def builder_add_network_rule_def)
next
  case (HostExecutableCall name paths)
  with ok obtain parsed where b': "b' = builder_add_host_executable b (executable_lookup_key name) parsed"
    and parsed: "host_paths env name [] paths = Ok parsed"
    by (auto simp: builtin_host_executable_def try_bind_Inr_iff)
  from host_paths_ok[OF parsed] inv b' show ?thesis
    by (auto simp: builder_inv_def builder_add_host_executable_def)
qed

lemma builtin_step_inv:
  assumes "multimap_laws mm" "builder_inv mm b"
  shows "builder_inv mm (fst (builtin_step mm env sx call b))"
proof (cases "builtin mm env sx call b")
  case (Inl e)
  with assms show ?thesis by (simp add: builtin_step_def)
next
  case (Inr b')
  with builtin_inv[OF assms this] show ?thesis by (simp add: builtin_step_def)
qed

interpretation building: fallible_machine "builtin_step mm env sx"
    "\<lambda>b. multimap_laws mm \<longrightarrow> builder_inv mm b" "\<lambda>_. True" "\<lambda>_. True"
  for mm :: "'m rule_map" and env sx
  by unfold_locales (simp_all add: builtin_step_inv)

lemma policy_parse_fst:
  "fst (policy_parse mm env sx star ident contents b) =
     (case star_run star ident contents of
        Inl e \<Rightarrow> b
      | Inr (calls, _) \<Rightarrow> fst (run_steps (builtin_step mm env sx) calls b))"
  by (simp add: policy_parse_def Let_def split: sum.split prod.split option.split)

lemma policy_parse_inv:
  assumes "multimap_laws mm" "builder_inv mm b"
  shows "builder_inv mm (fst (policy_parse mm env sx star ident contents b))"
proof -
  have "builder_inv mm (fst (run_steps (builtin_step mm env sx) calls b))" for calls
    using building.run_inv[of mm b calls env sx] assms by (simp add: list_all_iff)
  with assms(2) show ?thesis by (simp add: policy_parse_fst split: sum.split)
qed

lemma load_policy_fst:
  "fst (load_policy mm env sx star read path b) =
     (case read path of
        None \<Rightarrow> b
      | Some contents \<Rightarrow> fst (policy_parse mm env sx star path contents b))"
  by (simp add: load_policy_def split: option.split prod.split sum.split)

interpretation loading: fallible_machine "load_policy mm env sx star read"
    "\<lambda>b. multimap_laws mm \<longrightarrow> builder_inv mm b" "\<lambda>_. True" "\<lambda>_. True"
  for mm :: "'m rule_map" and env sx star read
  by unfold_locales (simp_all add: load_policy_fst policy_parse_inv split: option.split)

section \<open>Properties\<close>

definition policy_wf :: "'m rule_map \<Rightarrow> 'm policy \<Rightarrow> bool" where
  "policy_wf mm p \<longleftrightarrow>
     (\<forall>k. \<forall>rule \<in> set (mm_values mm (rules_by_program p) k). rule_program rule = k) \<and>
     (\<forall>r \<in> set (network_rules p). host_chars_ok (nr_host r)) \<and>
     (\<forall>name paths. host_executables_by_name p name = Some paths \<longrightarrow>
        distinct paths \<and> (\<forall>path \<in> set paths. normalized path \<and> executable_path_lookup_key path = Some name))"

lemma builder_new_inv: "multimap_laws mm \<Longrightarrow> builder_inv mm (builder_new mm)"
  by (simp add: builder_inv_def builder_new_def mm_values_def multimap_lawsD)

lemma builder_build_wf: "builder_inv mm b \<Longrightarrow> policy_wf mm (builder_build b)"
  by (simp add: builder_inv_def policy_wf_def builder_build_def policy_from_parts_def)

text \<open>
  C37. Every policy loaded from files is well formed, whatever the files contain: each rule is stored
  under its own program, network hosts are in normal form, and the executables listed for a name are
  distinct absolute normalised paths with that base name.
\<close>

theorem loaded_policy_wf:
  assumes "multimap_laws mm" "load_policies mm env sx star read paths = Ok p"
  shows "policy_wf mm p"
proof -
  let ?b = "fst (run_steps (load_policy mm env sx star read) paths (builder_new mm))"
  have "builder_inv mm ?b"
    using loading.run_inv[of mm "builder_new mm" paths env sx star read] assms(1)
    by (simp add: builder_new_inv list_all_iff)
  moreover have "p = builder_build ?b"
    using assms(2) by (simp add: load_policies_def split: prod.splits sum.splits)
  ultimately show ?thesis by (simp add: builder_build_wf)
qed

theorem loaded_policy_wf_witness:
  "let mm = alist_multimap :: (rstr, prefix_rule, (rstr \<times> prefix_rule list) list) multimap;
       env = \<lparr>home_dir = None, current_dir = None\<rparr>;
       sx = \<lparr>shlex_split = (\<lambda>s. Some [s]), shlex_join = (\<lambda>_. None)\<rparr>;
       star = \<lparr>star_run = (\<lambda>_ _. Inr ([PrefixRuleCall [StarStr (str ''git'')] None None None None None,
           HostExecutableCall (str ''git'') [StarStr (str ''/bin/git'')]], None)),
         star_wrap = (\<lambda>_. \<lparr>se_message = [], se_span = None\<rparr>)\<rparr>
   in \<exists>p. load_policies mm env sx star (\<lambda>_. Some []) [str ''a.rules''] = Ok p \<and> policy_wf mm p"
proof -
  let ?mm = "alist_multimap :: (rstr, prefix_rule, (rstr \<times> prefix_rule list) list) multimap"
  let ?env = "\<lparr>home_dir = None, current_dir = None\<rparr>"
  let ?sx = "\<lparr>shlex_split = (\<lambda>s. Some [s]), shlex_join = (\<lambda>_. None)\<rparr>"
  let ?star = "\<lparr>star_run = (\<lambda>_ _. Inr ([PrefixRuleCall [StarStr (str ''git'')] None None None None None,
           HostExecutableCall (str ''git'') [StarStr (str ''/bin/git'')]], None)),
         star_wrap = (\<lambda>_. \<lparr>se_message = [], se_span = None\<rparr>)\<rparr>"
  have "\<exists>p. load_policies ?mm ?env ?sx ?star (\<lambda>_. Some []) [str ''a.rules''] = Ok p"
    by (simp add: policy_eval str_eval)
  then show ?thesis
    using loaded_policy_wf[OF alist_multimap_laws, of ?env ?sx ?star "\<lambda>_. Some []" "[str ''a.rules'']"]
    by (simp add: Let_def) blast
qed

lemma set_map_filter: "set (List.map_filter f xs) = {y. \<exists>x \<in> set xs. f x = Some y}"
  by (force simp: map_filter_def)

lemma exact_set:
  "set (the (match_exact_rules mm p (c # cs))) =
     {m. \<exists>rule \<in> set (mm_values mm (rules_by_program p) c). rule_matches rule (c # cs) = Some m}"
  by (simp add: match_exact_rules_def set_map_filter)

lemma head_rules_matches:
  "{m. \<exists>rule \<in> set (head_rules first rest d j). rule_program rule = c \<and> rule_matches rule (c # cs) = Some m} =
   (if length rest \<le> length cs \<and> list_all2 token_matches (first # rest) (take (Suc (length rest)) (c # cs))
    then {PrefixRuleMatch (take (Suc (length rest)) (c # cs)) d None j} else {})"
proof -
  have "(\<exists>rule \<in> set (head_rules first rest d j). rule_program rule = c \<and> rule_matches rule (c # cs) = Some m) \<longleftrightarrow>
      c \<in> set (alternatives first) \<and> length rest \<le> length cs \<and>
      list_all2 token_matches rest (take (length rest) cs) \<and> m = PrefixRuleMatch (c # take (length rest) cs) d None j"
    (is "?l \<longleftrightarrow> ?r") for m
  proof
    assume ?l
    then obtain args more where "c \<in> set (alternatives first)" "cs = args @ more"
      and args: "list_all2 token_matches rest args" and "m = PrefixRuleMatch (c # args) d None j"
      by (auto simp: head_rules_def rule_program_def rule_matches_def matches_prefix_Some_iff)
    with list_all2_lengthD[OF args] show ?r by simp
  next
    assume r: ?r
    let ?rule = "\<lparr>pr_pattern = \<lparr>pp_first = c, pp_rest = rest\<rparr>, pr_decision = d, pr_justification = j\<rparr>"
    have "matches_prefix (pr_pattern ?rule) (c # cs) = Some (c # take (length rest) cs)"
      using r by (subst matches_prefix_Some_iff)
        (auto intro!: exI[of _ "take (length rest) cs"] exI[of _ "drop (length rest) cs"])
    then have "rule_matches ?rule (c # cs) = Some m" using r by (simp add: rule_matches_def)
    moreover have "?rule \<in> set (head_rules first rest d j)" "rule_program ?rule = c"
      using r by (simp_all add: head_rules_def rule_program_def)
    ultimately show ?l by blast
  qed
  then show ?thesis by (auto simp: token_matches_alternatives)
qed

text \<open>
  C38. A \<open>prefix_rule\<close> call means what its pattern says: it adds a match, with the call's decision and
  justification, for exactly the commands whose leading tokens are, position by position, among the
  alternatives of the pattern, the first token included; nothing else changes.
\<close>

theorem prefix_rule_semantics:
  assumes "multimap_laws mm"
    and "builtin mm env sx (PrefixRuleCall pattern dec match_ex not_match_ex j span) b = Ok b'"
  shows "\<exists>tokens d. parse_pattern pattern = Ok tokens \<and>
    (case dec of Some raw \<Rightarrow> decision_parse raw | None \<Rightarrow> Ok Allow) = Ok d \<and>
    (\<forall>c cs. set (the (match_exact_rules mm (builder_build b') (c # cs))) =
      set (the (match_exact_rules mm (builder_build b) (c # cs))) \<union>
      (if length tokens \<le> length (c # cs) \<and> list_all2 token_matches tokens (take (length tokens) (c # cs))
       then {PrefixRuleMatch (take (length tokens) (c # cs)) d None j} else {}))"
proof -
  from assms(2) have "builtin_prefix_rule mm sx pattern dec match_ex not_match_ex j span b = Ok b'" by simp
  then obtain d first rest ms ns where r:
    "(case dec of Some raw \<Rightarrow> decision_parse raw | None \<Rightarrow> Ok Allow) = Ok d" "parse_pattern pattern = Ok (first # rest)"
    "b' = foldl (builder_add_rule mm) (add_pending_example_validation b (head_rules first rest d j) ms ns
        (map_option error_location_from_file_span span)) (head_rules first rest d j)"
    by (elim builtin_prefix_rule_OkE) blast
  let ?new = "head_rules first rest d j"
  have vals: "mm_values mm (rules_by_program (builder_build b')) k =
      mm_values mm (rules_by_program (builder_build b)) k @ filter (\<lambda>rule. rule_program rule = k) ?new" for k
    by (simp add: builder_build_def policy_from_parts_def r(3) add_rules_values[OF assms(1)]
        add_pending_example_validation_def)
  have "set (the (match_exact_rules mm (builder_build b') (c # cs))) =
      set (the (match_exact_rules mm (builder_build b) (c # cs))) \<union>
      {m. \<exists>rule \<in> set ?new. rule_program rule = c \<and> rule_matches rule (c # cs) = Some m}" for c cs
    unfolding exact_set vals by auto
  then show ?thesis
    using r(1,2) by (intro exI[of _ "first # rest"] exI[of _ d]) (simp add: head_rules_matches)
qed

theorem prefix_rule_semantics_witness:
  "let mm = alist_multimap :: (rstr, prefix_rule, (rstr \<times> prefix_rule list) list) multimap;
       env = \<lparr>home_dir = None, current_dir = None\<rparr>;
       sx = \<lparr>shlex_split = (\<lambda>s. Some [s]), shlex_join = (\<lambda>_. None)\<rparr>;
       pattern = [StarList [StarStr (str ''npm''), StarStr (str ''yarn'')], StarStr (str ''test'')]
   in \<exists>b'. builtin mm env sx (PrefixRuleCall pattern (Some (str ''prompt'')) None None None None) (builder_new mm) = Ok b' \<and>
      set (the (match_exact_rules mm (builder_build b') [str ''yarn'', str ''test'', str ''x''])) =
        {PrefixRuleMatch [str ''yarn'', str ''test''] Prompt None None}"
proof -
  let ?mm = "alist_multimap :: (rstr, prefix_rule, (rstr \<times> prefix_rule list) list) multimap"
  let ?env = "\<lparr>home_dir = None, current_dir = None\<rparr>"
  let ?sx = "\<lparr>shlex_split = (\<lambda>s. Some [s]), shlex_join = (\<lambda>_. None)\<rparr>"
  let ?pattern = "[StarList [StarStr (str ''npm''), StarStr (str ''yarn'')], StarStr (str ''test'')]"
  let ?call = "PrefixRuleCall ?pattern (Some (str ''prompt'')) None None None None"
  obtain b' where b': "builtin ?mm ?env ?sx ?call (builder_new ?mm) = Ok b'"
    by (simp add: policy_eval str_eval)
  have "set (the (match_exact_rules ?mm (builder_build (builder_new ?mm)) (c # cs))) = {}" for c cs
    by (simp add: policy_eval)
  moreover have "parse_pattern ?pattern = Ok [Alts [str ''npm'', str ''yarn''], Single (str ''test'')]"
    "decision_parse (str ''prompt'') = Ok Prompt"
    by (simp_all add: policy_eval str_def)
  ultimately show ?thesis
    using prefix_rule_semantics[OF alist_multimap_laws b'] b'
    by (simp add: Let_def numeral_2_eq_2 del: builtin.simps)
qed

lemma resolving_matches_iff:
  "matches_for_command_with_options mm env p cmd None resolving \<noteq> [] \<longleftrightarrow>
     cmd \<noteq> [] \<and> (the (match_exact_rules mm p cmd) \<noteq> [] \<or> match_host_executable_rules mm env p cmd \<noteq> [])"
  by (cases cmd) (auto simp: matches_for_command_with_options_def match_exact_rules_def resolving_def Let_def
      match_host_executable_rules_def)

lemma more_rules_match:
  assumes sub: "\<And>k. set (mm_values mm (rules_by_program p) k) \<subseteq> set (mm_values mm (rules_by_program q) k)"
    and hosts: "host_executables_by_name q = host_executables_by_name p"
    and match: "matches_for_command_with_options mm env p cmd None resolving \<noteq> []"
  shows "matches_for_command_with_options mm env q cmd None resolving \<noteq> []"
proof -
  from match obtain c cs where cmd: "cmd = c # cs" by (cases cmd) (auto simp: resolving_matches_iff)
  from match consider "the (match_exact_rules mm p cmd) \<noteq> []" | "match_host_executable_rules mm env p cmd \<noteq> []"
    by (auto simp: resolving_matches_iff)
  then show ?thesis
  proof cases
    case 1
    then have "set (the (match_exact_rules mm q cmd)) \<noteq> {}"
      using sub[of c] unfolding cmd exact_set set_empty[symmetric] by blast
    then show ?thesis by (simp add: resolving_matches_iff cmd)
  next
    case 2
    then obtain x where "x \<in> set (match_host_executable_rules mm env p cmd)" by (meson list.set_sel(1))
    then obtain first args basename rules rule prog m where r:
      "cmd = first # args" "from_absolute_path env first = Some prog" "executable_path_lookup_key prog = Some basename"
      "mm_get_vec mm (rules_by_program p) basename = Some rules"
      "pred_option (\<lambda>paths. prog \<in> set paths) (host_executables_by_name p basename)"
      "rule \<in> set rules" "rule_matches rule (basename # args) = Some m" "x = with_resolved_program prog m"
      by (rule host_executable_matchE)
    from sub[of basename] r(4,6) have rule: "rule \<in> set (mm_values mm (rules_by_program q) basename)"
      by (auto simp: mm_values_def)
    then obtain qs where qs: "mm_get_vec mm (rules_by_program q) basename = Some qs" "rule \<in> set qs"
      by (cases "mm_get_vec mm (rules_by_program q) basename") (simp_all add: mm_values_def)
    have "m \<in> set (List.map_filter (\<lambda>rule. rule_matches rule (basename # args)) qs)"
      using qs(2) r(7) by (auto simp: set_map_filter)
    then have "match_host_executable_rules mm env q cmd \<noteq> []"
      using r qs hosts
      by (auto simp: match_host_executable_rules_def list_ex_iff split: option.split)
    then show ?thesis by (simp add: resolving_matches_iff cmd)
  qed
qed

lemma validation_policy_values:
  "multimap_laws mm \<Longrightarrow>
   mm_values mm (rules_by_program (validation_policy mm b v)) k = filter (\<lambda>rule. rule_program rule = k) (pv_rules v)"
proof -
  assume laws: "multimap_laws mm"
  have "mm_values mm (foldl (\<lambda>m rule. mm_insert mm m (rule_program rule) rule) m rules) k =
      mm_values mm m k @ filter (\<lambda>rule. rule_program rule = k) rules" for m rules
    by (induction rules arbitrary: m) (auto simp: mm_values_insert[OF laws])
  then show ?thesis
    by (simp add: validation_policy_def policy_from_parts_def) (simp add: mm_values_def multimap_lawsD[OF laws])
qed

lemma collect_results_OkD: "collect_results f xs = Ok ys \<Longrightarrow> x \<in> set xs \<Longrightarrow> \<exists>y. f x = Ok y"
  by (induction xs arbitrary: ys) (auto simp: try_bind_Inr_iff)

lemma validate_not_match_OkD:
  "validate_not_match_examples mm env sx p exs = Ok () \<Longrightarrow> ex \<in> set exs \<Longrightarrow>
   matches_for_command_with_options mm env p ex None resolving = []"
  by (induction exs) (auto split: list.splits)

lemma validate_pending_OkD:
  assumes "validate_pending mm env sx b v = Ok u"
  shows "\<forall>ex \<in> set (pv_not_matches v). matches_for_command_with_options mm env (validation_policy mm b v) ex None resolving = []"
    and "\<forall>ex \<in> set (pv_matches v). matches_for_command_with_options mm env (validation_policy mm b v) ex None resolving \<noteq> []"
  using assms
  by (auto simp: validate_pending_def map_err_def try_bind_Inr_iff validate_match_examples_def Let_def filter_empty_conv
      split: sum.splits if_splits dest: validate_not_match_OkD)

lemma policy_parse_OkD:
  assumes "policy_parse mm env sx star ident contents b = (b', Ok ())"
  shows "validate_pending_examples_from mm env sx b' (length (pb_pending b)) = Ok ()"
proof -
  from assms obtain calls final where run: "star_run star ident contents = Inr (calls, final)"
    by (cases "star_run star ident contents") (auto simp: policy_parse_def)
  obtain b1 r where b1: "run_steps (builtin_step mm env sx) calls b = (b1, r)" by fastforce
  from assms run b1 show ?thesis
    by (cases r; cases final) (simp_all add: policy_parse_def Let_def)
qed

lemma builder_inv_pending:
  "builder_inv mm b \<Longrightarrow> v \<in> set (pb_pending b) \<Longrightarrow> rule \<in> set (pv_rules v) \<Longrightarrow>
   rule \<in> set (mm_values mm (pb_rules_by_program b) (rule_program rule))"
  by (simp add: builder_inv_def)



end
