(* ===== verification/Policy_Amend.thy ===== *)
theory Policy_Amend
  imports Exec_Rule File_Update
begin

text \<open>
  \<open>execpolicy/src/amend.rs\<close>, which appends rules to a policy file, and the text transformation of
  \<open>sandbox_migration.rs\<close>, which removes saved allow rules again.  The JSON strings of \<open>serde_json\<close> are
  the argument \<open>js\<close> with the round trip \<open>json_laws\<close>; the file operations are the argument \<open>io\<close> on a
  state of the file system, with the laws \<open>amend_laws\<close> of files opened for appending.
\<close>

section \<open>JSON and files\<close>

record json =
  to_json :: "rstr \<Rightarrow> rstr option"
  strings_from_json :: "rstr \<Rightarrow> rstr list option"

record 'w amend_io =
  ai_parent :: "rstr \<Rightarrow> rstr option"
  ai_create_dir :: "'w \<Rightarrow> rstr \<Rightarrow> 'w \<times> (unit, io_error) result"
  ai_open :: "'w \<Rightarrow> rstr \<Rightarrow> 'w \<times> (unit, io_error) result"
  ai_lock :: "'w \<Rightarrow> rstr \<Rightarrow> (unit, io_error) result"
  ai_seek_start :: "'w \<Rightarrow> rstr \<Rightarrow> (unit, io_error) result"
  ai_read_to_string :: "'w \<Rightarrow> rstr \<Rightarrow> (rstr, io_error) result"
  ai_write_all :: "'w \<Rightarrow> rstr \<Rightarrow> rstr \<Rightarrow> 'w \<times> (unit, io_error) result"

datatype amend_error =
    EmptyPrefix
  | InvalidNetworkRule exec_error
  | MissingParent rstr
  | CreatePolicyDir rstr io_error
  | SerializePrefix
  | SerializeNetworkRule
  | OpenPolicyFile rstr io_error
  | WritePolicyFile rstr io_error
  | LockPolicyFile rstr io_error
  | SeekPolicyFile rstr io_error
  | ReadPolicyFile rstr io_error

section \<open>Appending a line\<close>

definition append_locked_line :: "'w amend_io \<Rightarrow> rstr \<Rightarrow> rstr \<Rightarrow> 'w \<Rightarrow> 'w \<times> (unit, amend_error) result" where
  "append_locked_line io policy_path line w =
     (case ai_open io w policy_path of
        (w, Inl e) \<Rightarrow> (w, Err (OpenPolicyFile policy_path e))
      | (w, Inr _) \<Rightarrow>
          (case ai_lock io w policy_path of
             Err e \<Rightarrow> (w, Err (LockPolicyFile policy_path e))
           | Ok _ \<Rightarrow>
          (case ai_seek_start io w policy_path of
             Err e \<Rightarrow> (w, Err (SeekPolicyFile policy_path e))
           | Ok _ \<Rightarrow>
          (case ai_read_to_string io w policy_path of
             Err e \<Rightarrow> (w, Err (ReadPolicyFile policy_path e))
           | Ok contents \<Rightarrow>
               if list_ex (\<lambda>existing. existing = line) (lines contents) then (w, Ok ())
               else
                 (case (if contents \<noteq> [] \<and> last contents \<noteq> LF then ai_write_all io w policy_path [LF] else (w, Ok ())) of
                    (w, Inl e) \<Rightarrow> (w, Err (WritePolicyFile policy_path e))
                  | (w, Inr _) \<Rightarrow>
                      (case ai_write_all io w policy_path (line @ [LF]) of
                         (w, Inl e) \<Rightarrow> (w, Err (WritePolicyFile policy_path e))
                       | (w, Inr _) \<Rightarrow> (w, Ok ())))))))"

definition append_rule_line :: "'w amend_io \<Rightarrow> rstr \<Rightarrow> rstr \<Rightarrow> 'w \<Rightarrow> 'w \<times> (unit, amend_error) result" where
  "append_rule_line io policy_path rule w =
     (case ai_parent io policy_path of
        None \<Rightarrow> (w, Err (MissingParent policy_path))
      | Some dir \<Rightarrow>
          (case ai_create_dir io w dir of
             (w, Inr _) \<Rightarrow> append_locked_line io policy_path rule w
           | (w, Inl e) \<Rightarrow>
               if io_kind e = AlreadyExists then append_locked_line io policy_path rule w
               else (w, Err (CreatePolicyDir dir e))))"

section \<open>The rules\<close>

fun all_some :: "'a option list \<Rightarrow> 'a list option" where
  "all_some [] = Some []"
| "all_some (None # xs) = None"
| "all_some (Some x # xs) = map_option (\<lambda>ys. x # ys) (all_some xs)"

definition prefix_pattern_text :: "json \<Rightarrow> rstr list \<Rightarrow> rstr option" where
  "prefix_pattern_text js tokens =
     map_option (\<lambda>ts. str ''['' @ join (str '', '') ts @ str '']'') (all_some (map (to_json js) tokens))"

definition allow_rule_text :: "rstr \<Rightarrow> rstr" where
  "allow_rule_text pattern =
     str ''prefix_rule(pattern='' @ pattern @ str '', decision=\"allow\")''"

definition blocking_append_allow_prefix_rule ::
    "json \<Rightarrow> 'w amend_io \<Rightarrow> rstr \<Rightarrow> rstr list \<Rightarrow> 'w \<Rightarrow> 'w \<times> (unit, amend_error) result" where
  "blocking_append_allow_prefix_rule js io policy_path tokens w =
     (if tokens = [] then (w, Err EmptyPrefix)
      else case prefix_pattern_text js tokens of
        None \<Rightarrow> (w, Err SerializePrefix)
      | Some pattern \<Rightarrow> append_rule_line io policy_path (allow_rule_text pattern) w)"

fun decision_text :: "decision \<Rightarrow> rstr" where
  "decision_text Allow = str ''allow''"
| "decision_text Prompt = str ''prompt''"
| "decision_text Forbidden = str ''deny''"

definition network_rule_text ::
    "json \<Rightarrow> rstr \<Rightarrow> network_rule_protocol \<Rightarrow> decision \<Rightarrow> rstr option \<Rightarrow> rstr option" where
  "network_rule_text js host protocol dec justification =
     Option.bind (to_json js host) (\<lambda>host.
     Option.bind (to_json js (as_policy_string protocol)) (\<lambda>protocol.
     Option.bind (to_json js (decision_text dec)) (\<lambda>dec.
       let args = [str ''host='' @ host, str ''protocol='' @ protocol, str ''decision='' @ dec] in
       map_option (\<lambda>args. str ''network_rule('' @ join (str '', '') args @ str '')'')
         (case justification of
            None \<Rightarrow> Some args
          | Some j \<Rightarrow> map_option (\<lambda>j. args @ [str ''justification='' @ j]) (to_json js j)))))"

definition blocking_append_network_rule ::
    "json \<Rightarrow> 'w amend_io \<Rightarrow> rstr \<Rightarrow> rstr \<Rightarrow> network_rule_protocol \<Rightarrow> decision \<Rightarrow> rstr option \<Rightarrow> 'w \<Rightarrow>
     'w \<times> (unit, amend_error) result" where
  "blocking_append_network_rule js io policy_path host protocol dec justification w =
     (case normalize_network_rule_host host of
        Err e \<Rightarrow> (w, Err (InvalidNetworkRule e))
      | Ok host \<Rightarrow>
          if (case justification of Some raw \<Rightarrow> trim raw = [] | None \<Rightarrow> False)
          then (w, Err (InvalidNetworkRule (InvalidRule (str ''justification cannot be empty''))))
          else case network_rule_text js host protocol dec justification of
            None \<Rightarrow> (w, Err SerializeNetworkRule)
          | Some rule \<Rightarrow> append_rule_line io policy_path rule w)"

section \<open>Removing saved rules\<close>

definition should_remove_rule :: "json \<Rightarrow> rstr list list \<Rightarrow> rstr \<Rightarrow> bool" where
  "should_remove_rule js banned_prefixes line =
     (let line = (case strip_suffix [LF] line of Some l \<Rightarrow> l | None \<Rightarrow> line);
          line = (case strip_suffix [CR] line of Some l \<Rightarrow> l | None \<Rightarrow> line)
      in case Option.bind (strip_prefix (str ''prefix_rule(pattern='') line)
                (strip_suffix (str '', decision=\"allow\")'')) of
           None \<Rightarrow> False
         | Some pattern \<Rightarrow>
             (case strings_from_json js pattern of
                None \<Rightarrow> False
              | Some tokens \<Rightarrow> map to_ascii_lowercase tokens \<in> set banned_prefixes))"

definition strip_banned_allow_rules :: "json \<Rightarrow> rstr \<Rightarrow> rstr list list \<Rightarrow> rstr" where
  "strip_banned_allow_rules js contents banned_prefixes =
     (let banned_prefixes = map (map to_ascii_lowercase) banned_prefixes
      in concat (filter (\<lambda>line. \<not> should_remove_rule js banned_prefixes line) (split_incl contents)))"

section \<open>Laws\<close>

text \<open>JSON text of strings has no line breaks, and a list of rendered strings reads back as the list.\<close>

definition json_laws :: "json \<Rightarrow> bool" where
  "json_laws js \<longleftrightarrow>
     (\<forall>s t. to_json js s = Some t \<longrightarrow> LF \<notin> set t) \<and>
     (\<forall>tokens pattern. prefix_pattern_text js tokens = Some pattern \<longrightarrow> strings_from_json js pattern = Some tokens)"

text \<open>A file opened with \<open>create\<close> and \<open>append\<close>: writing adds at the end, nothing else changes its text.\<close>

definition file_of :: "'w amend_io \<Rightarrow> rstr \<Rightarrow> 'w \<Rightarrow> rstr option" where
  "file_of io path w = (case ai_read_to_string io w path of Ok s \<Rightarrow> Some s | Err _ \<Rightarrow> None)"

definition old_text :: "'w amend_io \<Rightarrow> rstr \<Rightarrow> 'w \<Rightarrow> rstr" where
  "old_text io path w = (case file_of io path w of Some s \<Rightarrow> s | None \<Rightarrow> [])"

definition amend_laws :: "'w amend_io \<Rightarrow> rstr \<Rightarrow> bool" where
  "amend_laws io path \<longleftrightarrow>
     (\<forall>w w' dir r. ai_create_dir io w dir = (w', r) \<longrightarrow> file_of io path w' = file_of io path w) \<and>
     (\<forall>w w'. ai_open io w path = (w', Ok ()) \<longrightarrow> file_of io path w' \<in> {None, Some (old_text io path w)}) \<and>
     (\<forall>w w' s. ai_write_all io w path s = (w', Ok ()) \<longrightarrow>
        file_of io path w' = map_option (\<lambda>t. t @ s) (file_of io path w))"

lemma amend_lawsD:
  assumes "amend_laws io path"
  shows "ai_create_dir io w dir = (w', r) \<Longrightarrow> file_of io path w' = file_of io path w"
    and "ai_open io w path = (w', Ok ()) \<Longrightarrow> file_of io path w' = Some s \<Longrightarrow> s = old_text io path w"
    and "ai_write_all io w path t = (w', Ok ()) \<Longrightarrow> file_of io path w' = map_option (\<lambda>u. u @ t) (file_of io path w)"
proof -
  show "ai_create_dir io w dir = (w', r) \<Longrightarrow> file_of io path w' = file_of io path w"
    using assms unfolding amend_laws_def by blast
  show "s = old_text io path w" if "ai_open io w path = (w', Ok ())" "file_of io path w' = Some s"
  proof -
    from assms that(1) have "file_of io path w' \<in> {None, Some (old_text io path w)}"
      unfolding amend_laws_def by blast
    with that(2) show ?thesis by simp
  qed
  show "ai_write_all io w path t = (w', Ok ()) \<Longrightarrow> file_of io path w' = map_option (\<lambda>u. u @ t) (file_of io path w)"
    using assms unfolding amend_laws_def by blast
qed

section \<open>Properties\<close>

text \<open>The reference: the text of the file after a line was appended.\<close>

definition with_line :: "rstr \<Rightarrow> rstr \<Rightarrow> rstr" where
  "with_line contents line =
     (if line \<in> set (lines contents) then contents
      else (if contents \<noteq> [] \<and> last contents \<noteq> LF then contents @ [LF] else contents) @ line @ [LF])"

lemma append_locked_line_Ok:
  assumes laws: "amend_laws io path" and ok: "append_locked_line io path line w = (w', Ok ())"
  shows "file_of io path w' = Some (with_line (old_text io path w) line)"
proof -
  from ok obtain w1 where w1: "ai_open io w path = (w1, Ok ())"
    by (auto simp: append_locked_line_def split: prod.splits sum.splits)
  from ok w1 obtain contents where c: "ai_read_to_string io w1 path = Ok contents"
    by (auto simp: append_locked_line_def split: sum.splits)
  then have f1: "file_of io path w1 = Some contents" by (simp add: file_of_def)
  with amend_lawsD(2)[OF laws w1] have old: "contents = old_text io path w" by simp
  have wr: "file_of io path w3 = Some (t @ s)"
    if "ai_write_all io w2 path s = (w3, Ok ())" "file_of io path w2 = Some t" for w2 w3 s t
    using amend_lawsD(3)[OF laws that(1)] that(2) by simp
  show ?thesis
  proof (cases "line \<in> set (lines contents)")
    case True
    with ok w1 c f1 old show ?thesis
      by (auto simp: append_locked_line_def with_line_def list_ex_iff split: sum.splits)
  next
    case False
    let ?pre = "if contents \<noteq> [] \<and> last contents \<noteq> LF then ai_write_all io w1 path [LF] else (w1, Ok ())"
    from ok w1 c False obtain w2 where w2: "?pre = (w2, Ok ())" "ai_write_all io w2 path (line @ [LF]) = (w', Ok ())"
      by (auto simp: append_locked_line_def list_ex_iff split: prod.splits sum.splits)
    have "file_of io path w2 = Some (if contents \<noteq> [] \<and> last contents \<noteq> LF then contents @ [LF] else contents)"
      using w2(1) f1 wr[of w1 "[LF]" w2 contents] by (auto split: if_splits)
    from wr[OF w2(2) this] False old show ?thesis by (simp add: with_line_def)
  qed
qed

lemma append_rule_line_Ok:
  assumes laws: "amend_laws io path" and ok: "append_rule_line io path line w = (w', Ok ())"
  shows "file_of io path w' = Some (with_line (old_text io path w) line)"
proof -
  from ok obtain dir where "ai_parent io path = Some dir" by (auto simp: append_rule_line_def split: option.splits)
  moreover obtain w1 r where w1: "ai_create_dir io w dir = (w1, r)" by fastforce
  ultimately have "append_locked_line io path line w1 = (w', Ok ())"
    using ok by (auto simp: append_rule_line_def split: sum.splits if_splits)
  moreover have "old_text io path w1 = old_text io path w"
    using amend_lawsD(1)[OF laws w1] by (simp add: old_text_def)
  ultimately show ?thesis using append_locked_line_Ok[OF laws] by metis
qed

lemma lines_with_line:
  assumes "LF \<notin> set line" "last line \<noteq> CR" "contents = [] \<or> last contents \<noteq> CR"
  shows "lines (with_line contents line) = lines contents @ (if line \<in> set (lines contents) then [] else [line])"
proof (cases "line \<in> set (lines contents)")
  case False
  have l: "strip_cr line = line" using assms(2) by (intro strip_cr_id) simp
  consider "contents = []" | c where "contents = c @ [LF]" | "contents \<noteq> []" "last contents \<noteq> LF"
    by (metis append_butlast_last_id)
  then show ?thesis
  proof cases
    case 1
    with False l assms(1) show ?thesis by (simp add: with_line_def lines_single) (simp add: lines_def)
  next
    case (2 c)
    with False l lines_append_line[OF assms(1), of c] show ?thesis by (simp add: with_line_def)
  next
    case 3
    with False l assms(3) lines_append_line[OF assms(1), of contents] lines_terminate[of contents]
    show ?thesis by (simp add: with_line_def)
  qed
qed (simp add: with_line_def)

lemma all_some_SomeD: "all_some xs = Some ys \<Longrightarrow> xs = map Some ys"
  by (induction xs arbitrary: ys rule: all_some.induct) auto

lemma set_join: "set (join sep ls) \<subseteq> set sep \<union> \<Union> (set ` set ls)"
proof (induction ls)
  case (Cons l ls)
  then show ?case by (cases ls) auto
qed simp

lemma prefix_pattern_text_no_LF:
  assumes "json_laws js" "prefix_pattern_text js tokens = Some pattern"
  shows "LF \<notin> set pattern"
proof -
  from assms(2) obtain ts where ts: "map (to_json js) tokens = map Some ts"
    "pattern = str ''['' @ join (str '', '') ts @ str '']''"
    by (auto simp: prefix_pattern_text_def dest: all_some_SomeD)
  have "LF \<notin> set t" if "t \<in> set ts" for t
  proof -
    from that have "Some t \<in> set (map (to_json js) tokens)" unfolding ts(1) by simp
    then obtain s where "to_json js s = Some t" by auto
    with assms(1) show ?thesis by (auto simp: json_laws_def)
  qed
  then show ?thesis using set_join[of "str '', ''" ts] by (auto simp: ts(2) str_def)
qed

lemma allow_rule_text_ok:
  assumes "LF \<notin> set pattern"
  shows "LF \<notin> set (allow_rule_text pattern)" "last (allow_rule_text pattern) \<noteq> CR" "allow_rule_text pattern \<noteq> []"
  using assms by (simp_all add: allow_rule_text_def str_def)

lemma with_line_idem:
  assumes "LF \<notin> set line" "last line \<noteq> CR" "line \<noteq> []"
  shows "with_line (with_line contents line) line = with_line contents line"
proof (cases "line \<in> set (lines contents)")
  case False
  have "strip_cr line = line" using assms(2) by (intro strip_cr_id) simp
  moreover have "lines (c @ line @ [LF]) = lines c @ [strip_cr line]" if "c = [] \<or> last c = LF" for c
  proof (cases "c = []")
    case True
    with lines_single[OF assms(1)] show ?thesis by (simp add: lines_def)
  next
    case False
    with that obtain c' where "c = c' @ [LF]" by (metis append_butlast_last_id)
    with lines_append_line[OF assms(1), of c'] show ?thesis by simp
  qed
  ultimately have "line \<in> set (lines (with_line contents line))"
    using False by (simp add: with_line_def)
  then show ?thesis by (simp add: with_line_def[of "with_line contents line"])
qed (simp add: with_line_def)

text \<open>
  C40. Saving an allowed prefix adds exactly its rule as a line of the policy file, once: the old text
  is kept, a missing final line break is supplied first, a rule that is already there is not added
  again, and saving the same prefix a second time leaves the file as it is.
\<close>

theorem append_allow_rule_once:
  assumes "amend_laws io path" "json_laws js"
    and "blocking_append_allow_prefix_rule js io path tokens w = (w', Ok ())"
  shows "\<exists>pattern. prefix_pattern_text js tokens = Some pattern \<and>
    file_of io path w' = Some (with_line (old_text io path w) (allow_rule_text pattern)) \<and>
    (last (old_text io path w) \<noteq> CR \<longrightarrow> lines (old_text io path w') =
      lines (old_text io path w) @
      (if allow_rule_text pattern \<in> set (lines (old_text io path w)) then [] else [allow_rule_text pattern])) \<and>
    (\<forall>w''. blocking_append_allow_prefix_rule js io path tokens w' = (w'', Ok ()) \<longrightarrow>
      file_of io path w'' = file_of io path w')"
proof -
  from assms(3) obtain pattern where p: "tokens \<noteq> []" "prefix_pattern_text js tokens = Some pattern"
    by (auto simp: blocking_append_allow_prefix_rule_def split: if_splits option.splits)
  have "file_of io path v' = Some (with_line (old_text io path v) (allow_rule_text pattern))"
    if "blocking_append_allow_prefix_rule js io path tokens v = (v', Ok ())" for v v'
    using that p append_rule_line_Ok[OF assms(1)] by (simp add: blocking_append_allow_prefix_rule_def)
  note save = this this[OF assms(3)]
  note rule = allow_rule_text_ok[OF prefix_pattern_text_no_LF[OF assms(2) p(2)]]
  have "old_text io path w' = with_line (old_text io path w) (allow_rule_text pattern)"
    using save(2) by (simp add: old_text_def)
  with p save lines_with_line[OF rule(1,2), of "old_text io path w"]
    with_line_idem[OF rule, of "old_text io path w"] show ?thesis by auto
qed

text \<open>A file system with one appendable file, and JSON strings in the form of the standard for plain text.\<close>

definition memory_io :: "rstr option amend_io" where
  "memory_io = \<lparr>ai_parent = (\<lambda>_. Some []), ai_create_dir = (\<lambda>w _. (w, Ok ())),
     ai_open = (\<lambda>w _. (Some (case w of Some s \<Rightarrow> s | None \<Rightarrow> []), Ok ())),
     ai_lock = (\<lambda>_ _. Ok ()), ai_seek_start = (\<lambda>_ _. Ok ()),
     ai_read_to_string = (\<lambda>w _. case w of Some s \<Rightarrow> Ok s | None \<Rightarrow> Err \<lparr>io_kind = NotFound, io_message = []\<rparr>),
     ai_write_all = (\<lambda>w _ s. (map_option (\<lambda>t. t @ s) w, Ok ()))\<rparr>"

lemma memory_io_laws: "amend_laws memory_io path"
  by (auto simp: amend_laws_def memory_io_def file_of_def old_text_def split: option.split)

definition bare_word :: "rstr \<Rightarrow> bool" where
  "bare_word s \<longleftrightarrow> s \<noteq> [] \<and> list_all (\<lambda>c. 97 \<le> c \<and> c \<le> 122) s"

definition word_json :: json where
  "word_json = \<lparr>to_json = (\<lambda>s. if bare_word s then Some (34 # s @ [34]) else None),
     strings_from_json = (\<lambda>t. Some (filter bare_word (split_char 34 t)))\<rparr>"

lemma bare_word_no_quote: "bare_word s \<Longrightarrow> 34 \<notin> set s \<and> LF \<notin> set s"
  by (auto simp: bare_word_def list_all_iff)

lemma split_quoted_words:
  assumes "list_all bare_word ts" "34 \<notin> set post" "\<not> bare_word post" "34 \<notin> set pre" "\<not> bare_word pre" "ts \<noteq> []"
  shows "filter bare_word (split_char 34 (pre @ join (str '', '') (map (\<lambda>s. 34 # s @ [34]) ts) @ post)) = ts"
  using assms
proof (induction ts arbitrary: pre)
  case (Cons t ts)
  have t: "bare_word t" "34 \<notin> set t" using Cons.prems bare_word_no_quote by auto
  have split: "split_char 34 (pre @ 34 # t @ 34 # rest) = pre # t # split_char 34 rest" for rest
    using Cons.prems(4) t by (simp add: split_char_append_sep)
  show ?case
  proof (cases ts)
    case Nil
    then show ?thesis using split[of post] Cons.prems t by (simp add: split_char_no_sep)
  next
    case (Cons u us)
    have "34 \<notin> set (str '', '')" "\<not> bare_word (str '', '')" by (simp_all add: str_def bare_word_def)
    with Cons.IH[of "str '', ''"] Cons.prems Cons
    have "filter bare_word (split_char 34 (str '', '' @ join (str '', '') (map (\<lambda>s. 34 # s @ [34]) ts) @ post)) = ts"
      by simp
    with split t Cons.prems(5) Cons show ?thesis by simp
  qed
qed simp

lemma word_json_laws: "json_laws word_json"
proof -
  have "strings_from_json word_json pattern = Some tokens" if "prefix_pattern_text word_json tokens = Some pattern" for tokens pattern
  proof -
    from that obtain ts where ts: "map (to_json word_json) tokens = map Some ts"
      "pattern = str ''['' @ join (str '', '') ts @ str '']''"
      by (auto simp: prefix_pattern_text_def dest: all_some_SomeD)
    from ts(1) have "list_all bare_word tokens \<and> ts = map (\<lambda>s. 34 # s @ [34]) tokens"
      by (induction tokens arbitrary: ts) (auto simp: word_json_def Cons_eq_map_conv split: if_splits)
    moreover have "34 \<notin> set (str ''['')" "\<not> bare_word (str ''['')" "34 \<notin> set (str '']'')" "\<not> bare_word (str '']'')"
      by (simp_all add: str_def bare_word_def)
    ultimately show ?thesis
      using split_quoted_words[of tokens "str '']''" "str ''[''"] ts(2)
      by (cases "tokens = []") (auto simp: word_json_def split_char_no_sep str_def bare_word_def)
  qed
  moreover have "LF \<notin> set t" if "to_json word_json s = Some t" for s t
    using that bare_word_no_quote[of s] by (auto simp: word_json_def split: if_splits)
  ultimately show ?thesis unfolding json_laws_def by blast
qed

theorem append_allow_rule_once_witness:
  "let w = Some (str ''# x''); tokens = [str ''git'', str ''log''];
       w' = Some (str ''# x'' @ [LF] @ allow_rule_text (str ''[\"git\", \"log\"]'') @ [LF])
   in amend_laws memory_io [] \<and> json_laws word_json \<and>
      blocking_append_allow_prefix_rule word_json memory_io [] tokens w = (w', Ok ()) \<and>
      (\<forall>w''. blocking_append_allow_prefix_rule word_json memory_io [] tokens w' = (w'', Ok ()) \<longrightarrow>
         file_of memory_io [] w'' = file_of memory_io [] w')"
proof -
  let ?w = "Some (str ''# x'')" and ?tokens = "[str ''git'', str ''log'']"
  let ?w' = "Some (str ''# x'' @ [LF] @ allow_rule_text (str ''[\"git\", \"log\"]'') @ [LF])"
  have "prefix_pattern_text word_json ?tokens = Some (str ''[\"git\", \"log\"]'')"
    by (simp add: prefix_pattern_text_def word_json_def bare_word_def str_def)
  then have "blocking_append_allow_prefix_rule word_json memory_io [] ?tokens ?w = (?w', Ok ())"
    by (simp add: blocking_append_allow_prefix_rule_def append_rule_line_def append_locked_line_def memory_io_def
        allow_rule_text_def str_eval)
  with append_allow_rule_once[OF memory_io_laws word_json_laws this] memory_io_laws word_json_laws show ?thesis
    unfolding Let_def by blast
qed

section \<open>Migration\<close>

lemma strip_banned_append:
  "s = [] \<or> last s = LF \<Longrightarrow>
   strip_banned_allow_rules js (s @ t) banned = strip_banned_allow_rules js s banned @ strip_banned_allow_rules js t banned"
  by (simp add: strip_banned_allow_rules_def split_incl_append Let_def)

lemma should_remove_allow_rule:
  assumes "json_laws js" "prefix_pattern_text js tokens = Some pattern"
  shows "should_remove_rule js banned (allow_rule_text pattern @ [LF]) \<longleftrightarrow> map to_ascii_lowercase tokens \<in> set banned"
proof -
  have "strip_suffix [CR] (allow_rule_text pattern) = None"
    by (simp add: allow_rule_text_def strip_suffix_None_iff str_def suffix_def)
  moreover have "strings_from_json js pattern = Some tokens" using assms by (simp add: json_laws_def)
  moreover have "Option.bind (strip_prefix (str ''prefix_rule(pattern='') (allow_rule_text pattern))
      (strip_suffix (str '', decision=\"allow\")'')) = Some pattern"
    by (simp only: allow_rule_text_def strip_prefix_append Option.bind.simps append_assoc[symmetric] strip_suffix_append)
      (simp only: append_assoc strip_prefix_append Option.bind.simps strip_suffix_append)
  ultimately show ?thesis by (simp add: should_remove_rule_def Let_def)
qed

text \<open>
  The migration removes exactly the saved rules it bans: a rule line written for an allowed prefix
  disappears if and only if the prefix, ignoring the case of letters, is banned, and the text before
  and after it is treated as if the line were not there.
\<close>

lemma migration_removes_saved_rule:
  assumes "json_laws js" "prefix_pattern_text js tokens = Some pattern"
    and "before = [] \<or> last before = LF"
  shows "strip_banned_allow_rules js (before @ (allow_rule_text pattern @ [LF]) @ after) banned =
    strip_banned_allow_rules js before banned @
    (if map to_ascii_lowercase tokens \<in> set (map (map to_ascii_lowercase) banned) then []
     else allow_rule_text pattern @ [LF]) @
    strip_banned_allow_rules js after banned"
proof -
  have "split_incl (allow_rule_text pattern @ [LF]) = [allow_rule_text pattern @ [LF]]"
    using split_incl_line[of "allow_rule_text pattern" "[]"] prefix_pattern_text_no_LF[OF assms(1,2)]
      allow_rule_text_ok(1) by simp
  then have "strip_banned_allow_rules js (allow_rule_text pattern @ [LF]) banned =
      (if map to_ascii_lowercase tokens \<in> set (map (map to_ascii_lowercase) banned) then []
       else allow_rule_text pattern @ [LF])"
    by (simp add: strip_banned_allow_rules_def should_remove_allow_rule[OF assms(1,2)])
  then show ?thesis
    using strip_banned_append[OF assms(3)] strip_banned_append[of "allow_rule_text pattern @ [LF]" js after banned]
    by simp
qed

lemma migration_removes_saved_rule_example:
  "strip_banned_allow_rules word_json
     (str ''# x'' @ [LF] @ (allow_rule_text (str ''[\"bash\"]'') @ [LF]) @ str ''# y'') [[str ''BASH'']] =
   str ''# x'' @ [LF] @ str ''# y''"
proof -
  have "prefix_pattern_text word_json [str ''bash''] = Some (str ''[\"bash\"]'')"
    by (simp add: prefix_pattern_text_def word_json_def bare_word_def str_def)
  note removed = migration_removes_saved_rule[OF word_json_laws this, of "str ''# x'' @ [LF]" "str ''# y''" "[[str ''BASH'']]"]
  have "\<not> should_remove_rule word_json b (str ''# y'')" "\<not> should_remove_rule word_json b (str ''# x'' @ [LF])" for b
    by (simp_all add: should_remove_rule_def strip_suffix_def suffix_to_prefix strip_prefix_def str_def)
  then have "strip_banned_allow_rules word_json (str ''# x'' @ [LF]) b = str ''# x'' @ [LF]"
    "strip_banned_allow_rules word_json (str ''# y'') b = str ''# y''" for b
    by (simp_all add: strip_banned_allow_rules_def str_def)
  moreover have "map to_ascii_lowercase [str ''bash''] = map to_ascii_lowercase [str ''BASH'']"
    by (simp add: to_ascii_lowercase_def ascii_lower_def str_def)
  ultimately show ?thesis using removed by simp
qed

end
