(* ===== verification/Head_Tail_Buffer.thy ===== *)
theory Head_Tail_Buffer
  imports Utf8_Stream
begin

text \<open>
  \<open>core/src/unified_exec/head_tail_buffer.rs\<close>: the capped buffer behind a running command, which
  keeps a stable head and the newest tail of the output and counts what it drops between them.  The
  const generic \<open>MAX_BYTES\<close> is the first argument \<open>n\<close> of the operations that use a budget.  The
  capacity hints of \<open>with_capacity\<close> have no value and are left out.  None of the slices can
  panic: \<open>drain\<close> is reached with fewer bytes than the tail has, and the skip never
  exceeds the chunk.

  The specification is \<open>summary n s\<close>, the buffer of the whole stream \<open>s\<close>; both ways of appending,
  by bytes and by a later buffer, are shown to compute it.
\<close>

section \<open>The buffer\<close>

record head_tail_buffer =
  head :: bytes
  tail :: bytes
  omitted_bytes :: nat

definition default_buffer :: head_tail_buffer where
  "default_buffer = \<lparr>head = [], tail = [], omitted_bytes = 0\<rparr>"

definition head_budget :: "nat \<Rightarrow> nat" where
  "head_budget n = n div 2"

definition tail_budget :: "nat \<Rightarrow> nat" where
  "tail_budget n = n - head_budget n"

definition retained_bytes :: "head_tail_buffer \<Rightarrow> nat" where
  "retained_bytes b = saturating_add (length (head b)) (length (tail b))"

definition total_bytes :: "head_tail_buffer \<Rightarrow> nat" where
  "total_bytes b = saturating_add (retained_bytes b) (omitted_bytes b)"

text \<open>\<open>split_at_checked\<close> is \<open>None\<close> when the chunk is shorter than the room; then all of it fits.\<close>

definition fill_head :: "nat \<Rightarrow> head_tail_buffer \<Rightarrow> bytes \<Rightarrow> head_tail_buffer \<times> bytes" where
  "fill_head n b chunk =
     (let remaining_head = head_budget n - length (head b);
          (chunk_head, chunk_tail) =
            (if remaining_head \<le> length chunk then (take remaining_head chunk, drop remaining_head chunk)
             else (chunk, []))
      in (b\<lparr>head := head b @ chunk_head\<rparr>, chunk_tail))"

definition push_tail :: "nat \<Rightarrow> head_tail_buffer \<Rightarrow> bytes \<Rightarrow> head_tail_buffer" where
  "push_tail n b chunk =
     (let remaining_tail = tail_budget n - length (tail b);
          excess_tail = length chunk - remaining_tail;
          omitted = saturating_add (omitted_bytes b) excess_tail;
          (kept, fresh) =
            (if excess_tail < length (tail b) then (drop excess_tail (tail b), chunk)
             else ([], drop (excess_tail - length (tail b)) chunk))
      in b\<lparr>tail := kept @ fresh, omitted_bytes := omitted\<rparr>)"

definition push_chunk :: "nat \<Rightarrow> head_tail_buffer \<Rightarrow> bytes \<Rightarrow> head_tail_buffer" where
  "push_chunk n b chunk = (let (b', rest) = fill_head n b chunk in push_tail n b' rest)"

definition to_bytes :: "head_tail_buffer \<Rightarrow> bytes" where
  "to_bytes b = head b @ tail b"

definition format_output_omission_marker :: "nat \<Rightarrow> rstr" where
  "format_output_omission_marker k = str ''... '' @ show_nat k @ str '' bytes omitted ...''"

definition to_bytes_with_omission_marker :: "head_tail_buffer \<Rightarrow> bytes" where
  "to_bytes_with_omission_marker b =
     (if omitted_bytes b = 0 then to_bytes b
      else head b @ [LF] @ encode (format_output_omission_marker (omitted_bytes b)) @ [LF] @ tail b)"

text \<open>
  The ring buffer hands out its tail as two slices; where it is cut depends on its history, so the
  position \<open>k\<close> is an argument.
\<close>

definition push_buffer :: "nat \<Rightarrow> nat \<Rightarrow> head_tail_buffer \<Rightarrow> head_tail_buffer \<Rightarrow> head_tail_buffer" where
  "push_buffer n k b buffer =
     (let b1 = b\<lparr>omitted_bytes := saturating_add (omitted_bytes b) (omitted_bytes buffer)\<rparr>;
          (b2, overflow) =
            (if head b1 = [] then (b1\<lparr>head := head buffer\<rparr>, []) else fill_head n b1 (head buffer))
      in if length (tail buffer) = tail_budget n
         then b2\<lparr>omitted_bytes := saturating_add (saturating_add (omitted_bytes b2) (length (tail b2))) (length overflow),
                 tail := tail buffer\<rparr>
         else let b3 = push_tail n b2 overflow
              in if tail b3 = [] then b3\<lparr>tail := tail buffer\<rparr>
                 else push_tail n (push_tail n b3 (take k (tail buffer))) (drop k (tail buffer)))"

section \<open>The specification\<close>

definition last_n :: "nat \<Rightarrow> 'a list \<Rightarrow> 'a list" where
  "last_n k xs = drop (length xs - k) xs"

definition summary :: "nat \<Rightarrow> bytes \<Rightarrow> head_tail_buffer" where
  "summary n s =
     \<lparr>head = take (head_budget n) s,
      tail = last_n (tail_budget n) (drop (head_budget n) s),
      omitted_bytes = min (length s - n) usize_max\<rparr>"

text \<open>Every buffer the operations can build, with the stream it has been given.\<close>

inductive buffer_of :: "nat \<Rightarrow> bytes \<Rightarrow> head_tail_buffer \<Rightarrow> bool" for n where
  default: "buffer_of n [] default_buffer"
| chunk: "buffer_of n s b \<Longrightarrow> buffer_of n (s @ c) (push_chunk n b c)"
| merge: "buffer_of n s b \<Longrightarrow> buffer_of n t b' \<Longrightarrow> buffer_of n (s @ t) (push_buffer n k b b')"

section \<open>Appending computes the summary\<close>

lemma budgets: "head_budget n + tail_budget n = n"
  by (simp add: tail_budget_def head_budget_def)

lemma length_last_n [simp]: "length (last_n k xs) = min (length xs) k"
  by (simp add: last_n_def)

lemma last_n_all: "length xs \<le> k \<Longrightarrow> last_n k xs = xs"
  by (simp add: last_n_def)

lemma last_n_append: "last_n k (xs @ ys) = last_n (k - length ys) xs @ last_n k ys"
  by (cases "k \<le> length ys") (simp_all add: last_n_def)

lemma last_n_last_n [simp]: "last_n k (last_n l xs) = last_n (min k l) xs"
proof (cases "k \<le> l")
  case True
  then have "length xs - (length xs - l) - k + (length xs - l) = length xs - k"
    by linarith
  with True show ?thesis by (simp add: last_n_def)
qed (simp add: last_n_def min_def)

lemma last_n_0 [simp]: "last_n 0 xs = []"
  by (simp add: last_n_def)

lemma push_tail_eq:
  assumes "length (tail b) \<le> tail_budget n"
  shows "push_tail n b c =
    b\<lparr>tail := last_n (tail_budget n) (tail b @ c),
      omitted_bytes := saturating_add (omitted_bytes b) (length c + length (tail b) - tail_budget n)\<rparr>"
  using assms by (auto simp: push_tail_def Let_def last_n_def add.commute[of "length (tail b)"])

lemma fill_head_eq:
  "fill_head n b c =
    (b\<lparr>head := head b @ take (head_budget n - length (head b)) c\<rparr>, drop (head_budget n - length (head b)) c)"
  by (simp add: fill_head_def Let_def)

lemma last_n_snoc: "last_n k (last_n k xs @ ys) = last_n k (xs @ ys)"
  by (simp add: last_n_append min_def)

lemma push_chunk_summary: "push_chunk n (summary n s) c = summary n (s @ c)"
proof -
  let ?h = "head_budget n" and ?t = "tail_budget n"
  let ?o = "length c - (?h - length s) + min (length s - ?h) ?t - ?t"
  have "?h - min (length s) ?h = ?h - length s"
    by simp
  then have "push_chunk n (summary n s) c =
    \<lparr>head = take ?h s @ take (?h - length s) c,
     tail = last_n ?t (last_n ?t (drop ?h s) @ drop (?h - length s) c),
     omitted_bytes = min (length s - n + ?o) usize_max\<rparr>"
    by (simp add: push_chunk_def fill_head_eq push_tail_eq summary_def saturating_add_min)
  moreover have "length s - n + ?o = length s + length c - n"
    using budgets[of n] by linarith
  ultimately show ?thesis
    by (simp add: summary_def last_n_snoc)
qed

lemma summary_Nil: "summary n [] = default_buffer"
  by (simp add: summary_def default_buffer_def last_n_def)

text \<open>
  The shortcuts of \<open>push_buffer\<close> (taking over the head, replacing the tail, taking over a partial
  tail) all agree with filling the head and pushing the rest.
\<close>

definition buffer_wf :: "nat \<Rightarrow> head_tail_buffer \<Rightarrow> bool" where
  "buffer_wf n b \<longleftrightarrow>
     length (head b) \<le> head_budget n \<and> length (tail b) \<le> tail_budget n \<and> omitted_bytes b \<le> usize_max"

lemma push_tail_wf: "length (tail b) \<le> tail_budget n \<Longrightarrow> length (tail (push_tail n b c)) \<le> tail_budget n"
  by (simp add: push_tail_eq)

lemma push_tail_append:
  assumes "length (tail b) \<le> tail_budget n"
  shows "push_tail n (push_tail n b c) d = push_tail n b (c @ d)"
proof -
  have "length c + length (tail b) - tail_budget n + (length d + min (length (tail b) + length c) (tail_budget n) - tail_budget n)
      = length c + length d + length (tail b) - tail_budget n"
    by linarith
  with assms show ?thesis
    by (simp add: push_tail_eq saturating_add_assoc last_n_snoc flip: append_assoc)
qed

lemma push_tail_into_empty:
  assumes "tail b = []" "length c \<le> tail_budget n" "omitted_bytes b \<le> usize_max"
  shows "push_tail n b c = b\<lparr>tail := c\<rparr>"
  using assms by (simp add: push_tail_eq last_n_all)

lemma push_tail_full:
  assumes "length c = tail_budget n" "length (tail b) \<le> tail_budget n"
  shows "push_tail n b (v @ c) =
    b\<lparr>omitted_bytes := saturating_add (saturating_add (omitted_bytes b) (length (tail b))) (length v), tail := c\<rparr>"
  using assms by (simp add: push_tail_eq last_n_append last_n_all saturating_add_assoc add.commute)

lemma push_tail_omitted: "length (tail b) \<le> tail_budget n \<Longrightarrow> omitted_bytes (push_tail n b c) \<le> usize_max"
  by (simp add: push_tail_eq saturating_add_def)

lemma push_buffer_eq:
  assumes b: "length (tail b) \<le> tail_budget n" and c: "buffer_wf n c"
  shows "push_buffer n k b c =
    (let (b', rest) = fill_head n (b\<lparr>omitted_bytes := saturating_add (omitted_bytes b) (omitted_bytes c)\<rparr>) (head c)
     in push_tail n b' (rest @ tail c))"
proof -
  define b1 where "b1 = b\<lparr>omitted_bytes := saturating_add (omitted_bytes b) (omitted_bytes c)\<rparr>"
  obtain b2 v where fill: "fill_head n b1 (head c) = (b2, v)"
    by (metis surj_pair)
  have "(if head b1 = [] then (b1\<lparr>head := head c\<rparr>, []) else fill_head n b1 (head c)) = (b2, v)"
    using fill c by (auto simp: fill_head_eq buffer_wf_def)
  moreover have t: "length (tail b2) \<le> tail_budget n"
    using fill b by (auto simp: fill_head_eq b1_def)
  let ?b3 = "push_tail n b2 v"
  have "push_tail n (push_tail n ?b3 (take k (tail c))) (drop k (tail c)) = push_tail n b2 (v @ tail c)"
    using t by (simp add: push_tail_append push_tail_wf)
  moreover have "?b3\<lparr>tail := tail c\<rparr> = push_tail n b2 (v @ tail c)" if "tail ?b3 = []"
    using that c t push_tail_into_empty[of ?b3 "tail c" n]
    by (simp add: push_tail_append push_tail_omitted buffer_wf_def)
  moreover note push_tail_full[OF _ t, of "tail c" v]
  ultimately show ?thesis
    by (simp add: push_buffer_def Let_def fill flip: b1_def)
qed

lemma summary_wf: "buffer_wf n (summary n s)"
  by (simp add: buffer_wf_def summary_def)

lemma drop_take_drop:
  assumes "a \<le> h"
  shows "drop a (take h xs) @ drop h xs = drop a xs"
proof -
  have "drop a xs = take (h - a) (drop a xs) @ drop (h - a) (drop a xs)"
    by (simp only: append_take_drop_id)
  with assms show ?thesis by (simp add: drop_take)
qed

lemma last_n_merge: "last_n k (last_n k xs @ v @ last_n k ys) = last_n k (xs @ v @ ys)"
  by (simp add: last_n_append min_def)

lemma merged_omitted:
  fixes a b h t :: nat
  shows "a - (h + t) + (b - (h + t)) + (min b h - (h - a) + min (b - h) t + min (a - h) t - t) = a + b - (h + t)"
proof (cases "a \<le> h"; cases "b \<le> h"; cases "a \<le> h + t"; cases "b \<le> h + t")
qed simp_all

lemma push_buffer_summary: "push_buffer n k (summary n s) (summary n t) = summary n (s @ t)"
proof -
  let ?h = "head_budget n" and ?t = "tail_budget n"
  let ?v = "drop (?h - length s) (take ?h t)" and ?w = "last_n ?t (drop ?h t)"
  have h: "?h - min (length s) ?h = ?h - length s"
    by simp
  have head: "take ?h s @ take (?h - length s) (take ?h t) = take ?h (s @ t)"
    by (simp add: min_def)
  have tail: "last_n ?t (last_n ?t (drop ?h s) @ ?v @ ?w) = last_n ?t (drop ?h (s @ t))"
    by (simp add: last_n_merge drop_take_drop)
  have "push_buffer n k (summary n s) (summary n t) =
    \<lparr>head = take ?h s @ take (?h - length s) (take ?h t),
     tail = last_n ?t (last_n ?t (drop ?h s) @ ?v @ ?w),
     omitted_bytes = min (length s - n + (length t - n) + (length (?v @ ?w) + min (length (drop ?h s)) ?t - ?t)) usize_max\<rparr>"
  proof (subst push_buffer_eq)
    show "length (tail (summary n s)) \<le> tail_budget n" "buffer_wf n (summary n t)"
      using summary_wf by (auto simp: buffer_wf_def)
  qed (simp add: summary_def fill_head_eq h push_tail_eq saturating_add_min min_add_min del: length_drop)
  moreover have "length s - n + (length t - n) + (length (?v @ ?w) + min (length (drop ?h s)) ?t - ?t) = length (s @ t) - n"
    using merged_omitted[of "length s" ?h ?t "length t"]
    by (simp only: budgets length_append length_drop length_take length_last_n min.commute)
  ultimately show ?thesis
    by (simp only: head tail summary_def)
qed

lemma buffer_of_summary: "buffer_of n s b \<Longrightarrow> b = summary n s"
  by (induction rule: buffer_of.induct) (simp_all add: summary_Nil push_chunk_summary push_buffer_summary)

text \<open>
  C23. Refinement: however a buffer was built, by chunks of any size and by appending later buffers
  whose ring is cut anywhere, it is the summary of the whole stream: the first half of the budget, the
  newest bytes of the other half, and the number of bytes between them (up to saturation).
\<close>

theorem head_tail_refines: "buffer_of n s b \<Longrightarrow> b = summary n s"
  by (rule buffer_of_summary)

theorem head_tail_refines_witness:
  "push_buffer 5 1 (push_chunk 5 default_buffer [1, 2, 3]) (push_chunk 5 default_buffer [4, 5, 6, 7])
     = summary 5 [1, 2, 3, 4, 5, 6, 7]
   \<and> summary 5 [1, 2, 3, 4, 5, 6, 7] = \<lparr>head = [1, 2], tail = [5, 6, 7], omitted_bytes = 2\<rparr>"
proof
  have "buffer_of 5 ([] @ [1, 2, 3]) (push_chunk 5 default_buffer [1, 2, 3])"
       "buffer_of 5 ([] @ [4, 5, 6, 7]) (push_chunk 5 default_buffer [4, 5, 6, 7])"
    by (intro buffer_of.intros)+
  from head_tail_refines[OF buffer_of.merge[OF this]]
  show "push_buffer 5 1 (push_chunk 5 default_buffer [1, 2, 3]) (push_chunk 5 default_buffer [4, 5, 6, 7])
     = summary 5 [1, 2, 3, 4, 5, 6, 7]"
    by simp
qed (simp add: summary_def head_budget_def tail_budget_def last_n_def usize_max_def)

section \<open>Bounds\<close>

lemma suffix_last_n: "suffix (last_n k xs) xs"
  by (simp add: last_n_def suffix_drop)

lemma length_to_bytes_summary: "length (to_bytes (summary n s)) = min (length s) n"
proof -
  have "min (length s) h + min (length s - h) t = min (length s) (h + t)" for h t
    by linarith
  then show ?thesis
    by (simp add: to_bytes_def summary_def budgets min.commute)
qed

lemma to_bytes_summary_short:
  assumes "length s \<le> n"
  shows "to_bytes (summary n s) = s"
proof -
  have "length s - head_budget n \<le> tail_budget n"
    using assms budgets[of n] by linarith
  then show ?thesis
    by (simp add: to_bytes_def summary_def last_n_all)
qed

lemma retained_bytes_summary: "n \<le> usize_max \<Longrightarrow> retained_bytes (summary n s) = min (length s) n"
  using length_to_bytes_summary[of n s] by (simp add: retained_bytes_def to_bytes_def saturating_add_def)

text \<open>
  C24. Bounds: the buffer never retains more than its budget and, once the stream is longer, exactly its
  budget; the head is a prefix and the tail a suffix of the stream; head, omitted and tail add up
  to the length of the stream; and a stream within the budget is reproduced unchanged, with no
  marker.
\<close>

theorem head_tail_bounds:
  assumes "buffer_of n s b" "n \<le> usize_max"
  shows "retained_bytes b = min (length s) n \<and> total_bytes b = min (length s) usize_max
    \<and> prefix (head b) s \<and> suffix (tail b) s
    \<and> (length s \<le> n \<longrightarrow> to_bytes_with_omission_marker b = s)"
proof (intro conjI impI)
  note b = buffer_of_summary[OF assms(1)]
  show "retained_bytes b = min (length s) n"
    unfolding b using assms(2) by (rule retained_bytes_summary)
  show "total_bytes b = min (length s) usize_max"
    unfolding b total_bytes_def retained_bytes_summary[OF assms(2)]
    by (simp add: summary_def saturating_add_def)
  show "prefix (head b) s"
    by (simp add: b summary_def take_is_prefix)
  show "suffix (tail b) s"
    unfolding b summary_def using suffix_last_n suffix_drop suffix_order.trans by force
  show "to_bytes_with_omission_marker b = s" if "length s \<le> n"
    using that to_bytes_summary_short[OF that]
    by (simp add: b to_bytes_with_omission_marker_def summary_def)
qed

theorem head_tail_bounds_witness:
  "retained_bytes (push_chunk 4 default_buffer [1, 2, 3, 4, 5, 6]) = 4
   \<and> total_bytes (push_chunk 4 default_buffer [1, 2, 3, 4, 5, 6]) = 6
   \<and> to_bytes_with_omission_marker (push_chunk 4 default_buffer [1, 2, 3]) = [1, 2, 3]"
  using head_tail_bounds[OF buffer_of.chunk[OF buffer_of.default, of 4 "[1, 2, 3, 4, 5, 6]"]]
    head_tail_bounds[OF buffer_of.chunk[OF buffer_of.default, of 4 "[1, 2, 3]"]]
  by (simp add: usize_max_def)

end
