(* ===== verification/Response_Item.thy ===== *)
theory Response_Item
  imports Rust_Str
begin

text \<open>
  The conversation items of \<open>protocol/src/models.rs\<close>, with the constructors and fields of the source
  in its order, and the accessors the history code uses.  The constructors of the enums that repeat
  a name are prefixed (\<open>Fn\<close> for the content of a tool output, \<open>Agent\<close> for that of an
  inter-agent message).  JSON values are those of a third-party library: their type is the
  parameter \<open>'j\<close>.  Annotated content, which pairs a content item with its classification, is that of
  \<open>context-fragments/src/annotated_content.rs\<close>.
\<close>

section \<open>Items\<close>

type_synonym response_item_id = rstr
type_synonym content_item_kind = rstr

datatype image_detail = Auto | Low | High | Original

datatype content_item =
    InputText rstr
  | InputImage rstr "image_detail option"
  | InputAudio rstr
  | OutputText rstr

datatype agent_message_input_content = AgentInputText rstr | AgentEncryptedContent rstr

datatype message_phase = Commentary | FinalAnswer

record executed_tool_call_truncation =
  original_bytes :: nat
  truncation_max_bytes :: nat
  omitted_calls :: "nat option"
  original_name_bytes :: "nat option"

datatype 'j executed_tool_call_arguments = RawArguments 'j | Truncated executed_tool_call_truncation

record 'j executed_tool_call =
  tool_name :: rstr
  tool_arguments :: "'j executed_tool_call_arguments"

record 'j passthrough =
  metadata_turn_id :: "rstr option"
  create_time :: "'j option"
  content_item_kinds :: "content_item_kind list option"
  executed_tool_calls :: "'j executed_tool_call list option"

definition default_passthrough :: "'j passthrough" where
  "default_passthrough =
     \<lparr>metadata_turn_id = None, create_time = None, content_item_kinds = None, executed_tool_calls = None\<rparr>"

datatype reasoning_summary = SummaryText rstr
datatype reasoning_content = ReasoningText rstr | ReasoningPlain rstr

datatype local_shell_status = Completed | InProgress | Incomplete_status

record local_shell_exec_action =
  exec_command :: "rstr list"
  timeout_ms :: "nat option"
  working_directory :: "rstr option"
  exec_env :: "(rstr \<rightharpoonup> rstr) option"
  exec_user :: "rstr option"

datatype local_shell_action = Exec local_shell_exec_action

datatype web_search_action =
    Search "rstr option" "rstr list option"
  | OpenPage "rstr option"
  | FindInPage "rstr option" "rstr option"
  | OtherAction

datatype fn_content_item =
    FnInputText rstr
  | FnInputImage rstr "image_detail option"
  | FnInputAudio rstr
  | FnEncryptedContent rstr

datatype function_call_output_body = Text rstr | ContentItems "fn_content_item list"

record function_call_output_payload =
  payload_body :: function_call_output_body
  payload_success :: "bool option"

definition payload_from_text :: "rstr \<Rightarrow> function_call_output_payload" where
  "payload_from_text content = \<lparr>payload_body = Text content, payload_success = None\<rparr>"

text \<open>
  The arguments of each constructor are the fields of the source; the last one is
  \<open>internal_chat_message_metadata_passthrough\<close> where the source has it.
\<close>

datatype 'j response_item =
    AdditionalTools "response_item_id option" rstr "'j list"
  | Message "response_item_id option" rstr "content_item list" "message_phase option" "'j passthrough option"
  | AgentMessage "response_item_id option" rstr rstr "agent_message_input_content list" "'j passthrough option"
  | Reasoning "response_item_id option" "reasoning_summary list" "reasoning_content list option" "rstr option"
      "'j passthrough option"
  | LocalShellCall "response_item_id option" "rstr option" local_shell_status local_shell_action
      "'j passthrough option"
  | FunctionCall "response_item_id option" rstr "rstr option" rstr "rstr list option" rstr "'j passthrough option"
  | ToolSearchCall "response_item_id option" "rstr option" "rstr option" rstr 'j "'j passthrough option"
  | FunctionCallOutput "response_item_id option" "rstr option" "rstr option" "rstr option"
      function_call_output_payload "'j passthrough option"
  | CustomToolCall "response_item_id option" "rstr option" rstr rstr "rstr option" rstr "'j passthrough option"
  | CustomToolCallOutput "response_item_id option" rstr "rstr option" function_call_output_payload
      "'j passthrough option"
  | ToolSearchOutput "response_item_id option" "rstr option" rstr rstr "'j list" "'j passthrough option"
  | WebSearchCall "response_item_id option" "rstr option" "web_search_action option" "'j passthrough option"
  | ImageGenerationCall "response_item_id option" rstr "rstr option" rstr "'j passthrough option"
  | Compaction "response_item_id option" rstr "'j passthrough option"
  | CompactionTrigger
  | ContextCompaction "response_item_id option" "rstr option" "'j passthrough option"
  | OtherItem

text \<open>\<open>internal_chat_message_metadata_passthrough()\<close> and \<open>turn_id()\<close>.\<close>

fun item_passthrough :: "'j response_item \<Rightarrow> 'j passthrough option" where
  "item_passthrough (Message _ _ _ _ m) = m"
| "item_passthrough (AgentMessage _ _ _ _ m) = m"
| "item_passthrough (Reasoning _ _ _ _ m) = m"
| "item_passthrough (LocalShellCall _ _ _ _ m) = m"
| "item_passthrough (FunctionCall _ _ _ _ _ _ m) = m"
| "item_passthrough (ToolSearchCall _ _ _ _ _ m) = m"
| "item_passthrough (FunctionCallOutput _ _ _ _ _ m) = m"
| "item_passthrough (CustomToolCall _ _ _ _ _ _ m) = m"
| "item_passthrough (CustomToolCallOutput _ _ _ _ m) = m"
| "item_passthrough (ToolSearchOutput _ _ _ _ _ m) = m"
| "item_passthrough (WebSearchCall _ _ _ m) = m"
| "item_passthrough (ImageGenerationCall _ _ _ _ m) = m"
| "item_passthrough (Compaction _ _ m) = m"
| "item_passthrough (ContextCompaction _ _ m) = m"
| "item_passthrough CompactionTrigger = None"
| "item_passthrough (AdditionalTools _ _ _) = None"
| "item_passthrough OtherItem = None"

definition turn_id :: "'j response_item \<Rightarrow> rstr option" where
  "turn_id item =
     (case Option.bind (item_passthrough item) metadata_turn_id of
        Some t \<Rightarrow> if t = [] then None else Some t
      | None \<Rightarrow> None)"

section \<open>Envelopes\<close>

record harness_metadata =
  client_authored :: bool

record 'j envelope =
  envelope_item :: "'j response_item"
  envelope_metadata :: "harness_metadata option"

definition envelope_new :: "'j response_item \<Rightarrow> 'j envelope" where
  "envelope_new item = \<lparr>envelope_item = item, envelope_metadata = None\<rparr>"

section \<open>Annotated content\<close>

record annotated_content =
  annotated_item :: content_item
  annotated_kind :: content_item_kind

definition annotated_input_text :: "rstr \<Rightarrow> content_item_kind \<Rightarrow> annotated_content" where
  "annotated_input_text t kind = \<lparr>annotated_item = InputText t, annotated_kind = kind\<rparr>"

text \<open>
  \<open>zip\<close> with the kinds followed by \<open>"unknown"\<close> forever.
\<close>

fun zip_kinds :: "content_item list \<Rightarrow> content_item_kind list \<Rightarrow> annotated_content list" where
  "zip_kinds [] ks = []"
| "zip_kinds (c # cs) [] = \<lparr>annotated_item = c, annotated_kind = str ''unknown''\<rparr> # zip_kinds cs []"
| "zip_kinds (c # cs) (k # ks) = \<lparr>annotated_item = c, annotated_kind = k\<rparr> # zip_kinds cs ks"

text \<open>\<open>to_annotated_content\<close> takes the content and the kinds out of the message.\<close>

fun to_annotated_content :: "'j response_item \<Rightarrow> 'j response_item \<times> annotated_content list option" where
  "to_annotated_content (Message i role content phase metadata) =
     (let kinds = (case Option.bind metadata content_item_kinds of Some ks \<Rightarrow> ks | None \<Rightarrow> [])
      in (Message i role [] phase (map_option (\<lambda>m. m\<lparr>content_item_kinds := None\<rparr>) metadata),
          Some (zip_kinds content kinds)))"
| "to_annotated_content item = (item, None)"

fun set_annotated_content ::
  "'j response_item \<Rightarrow> annotated_content list \<Rightarrow> 'j response_item \<times> unit option" where
  "set_annotated_content (Message i role content phase metadata) annotated =
     (let m = (case metadata of Some m \<Rightarrow> m | None \<Rightarrow> default_passthrough)
      in (Message i role (map annotated_item annotated) phase
            (Some (m\<lparr>content_item_kinds := Some (map annotated_kind annotated)\<rparr>)), Some ()))"
| "set_annotated_content item annotated = (item, None)"

lemma map_annotated_item_zip_kinds [simp]: "map annotated_item (zip_kinds cs ks) = cs"
  by (induction cs ks rule: zip_kinds.induct) simp_all

lemma annotated_kinds_prefix: "length ks \<le> length cs \<Longrightarrow> prefix ks (map annotated_kind (zip_kinds cs ks))"
  by (induction cs ks rule: zip_kinds.induct) simp_all

text \<open>Taking the content out and putting it back keeps it, whatever classifications were missing.\<close>

lemma annotated_content_roundtrip:
  assumes "to_annotated_content (Message i role content phase metadata) = (item, Some annotated)"
  shows "\<exists>m. set_annotated_content item annotated = (Message i role content phase (Some m), Some ())"
  using assms by (auto simp: Let_def)

end
