(* ===== verification/Truncation.thy ===== *)
theory Truncation
  imports Response_Item
begin

text \<open>
  \<open>utils/string/src/truncate.rs\<close> and \<open>utils/output-truncation/src/lib.rs\<close>: cutting the middle out
  of long output at character boundaries, by a budget in bytes or in approximate tokens, for a
  text and for the content items of a tool output.  \<open>TruncationPolicy\<close> is that of
  \<open>protocol/src/protocol.rs\<close>; the estimate of the tokens of an audio clip is the argument the
  source has for it.
\<close>

section \<open>Truncating a string\<close>

text \<open>
  The slices \<open>&s[..k]\<close> and \<open>&s[k..]\<close> at a byte offset.  In the source they panic off a character
  boundary; \<open>split_string_spec\<close> below shows that the offsets of \<open>split_string\<close> are boundaries.
\<close>

fun str_upto :: "nat \<Rightarrow> rstr \<Rightarrow> rstr" where
  "str_upto k [] = []"
| "str_upto k (c # s) = (if len_utf8 c \<le> k then c # str_upto (k - len_utf8 c) s else [])"

definition str_from :: "nat \<Rightarrow> rstr \<Rightarrow> rstr" where
  "str_from k s = drop (length (str_upto k s)) s"

definition is_char_boundary :: "rstr \<Rightarrow> nat \<Rightarrow> bool" where
  "is_char_boundary s k \<longleftrightarrow> str_len (str_upto k s) = k"

definition approx_token_count :: "rstr \<Rightarrow> nat" where
  "approx_token_count t = saturating_add (str_len t) 3 div 4"

definition approx_bytes_for_tokens :: "nat \<Rightarrow> nat" where
  "approx_bytes_for_tokens tokens = saturating_mul tokens 4"

definition approx_tokens_from_byte_count :: "nat \<Rightarrow> nat" where
  "approx_tokens_from_byte_count k = saturating_add k 3 div 4"

text \<open>The loop over \<open>char_indices\<close>; the state is the four variables of the source.\<close>

record split_state =
  prefix_end :: nat
  suffix_start :: nat
  removed_chars :: nat
  suffix_started :: bool

fun split_loop :: "nat \<Rightarrow> nat \<Rightarrow> nat \<Rightarrow> rstr \<Rightarrow> split_state \<Rightarrow> split_state" where
  "split_loop beginning_bytes tail_start_target idx [] st = st"
| "split_loop beginning_bytes tail_start_target idx (ch # s) st =
     split_loop beginning_bytes tail_start_target (idx + len_utf8 ch) s
       (if idx + len_utf8 ch \<le> beginning_bytes then st\<lparr>prefix_end := idx + len_utf8 ch\<rparr>
        else if tail_start_target \<le> idx
             then (if suffix_started st then st else st\<lparr>suffix_start := idx, suffix_started := True\<rparr>)
        else st\<lparr>removed_chars := saturating_add (removed_chars st) 1\<rparr>)"

definition split_string :: "rstr \<Rightarrow> nat \<Rightarrow> nat \<Rightarrow> nat \<times> rstr \<times> rstr" where
  "split_string s beginning_bytes end_bytes =
     (if s = [] then (0, [], [])
      else let tail_start_target = str_len s - end_bytes;
               st = split_loop beginning_bytes tail_start_target 0 s
                      \<lparr>prefix_end = 0, suffix_start = str_len s, removed_chars = 0, suffix_started = False\<rparr>;
               suffix = (if suffix_start st < prefix_end st then prefix_end st else suffix_start st)
           in (removed_chars st, str_upto (prefix_end st) s, str_from suffix s))"

definition split_budget :: "nat \<Rightarrow> nat \<times> nat" where
  "split_budget budget = (let left = budget div 2 in (left, budget - left))"

abbreviation ELLIPSIS :: rchar where "ELLIPSIS \<equiv> 0x2026"

definition format_truncation_marker :: "bool \<Rightarrow> nat \<Rightarrow> rstr" where
  "format_truncation_marker use_tokens removed_count =
     (if use_tokens then ELLIPSIS # show_nat removed_count @ str '' tokens truncated'' @ [ELLIPSIS]
      else ELLIPSIS # show_nat removed_count @ str '' chars truncated'' @ [ELLIPSIS])"

definition removed_units :: "bool \<Rightarrow> nat \<Rightarrow> nat \<Rightarrow> nat" where
  "removed_units use_tokens removed_bytes removed =
     (if use_tokens then approx_tokens_from_byte_count removed_bytes else removed)"

definition assemble_truncated_output :: "rstr \<Rightarrow> rstr \<Rightarrow> rstr \<Rightarrow> rstr" where
  "assemble_truncated_output pre suf marker = pre @ marker @ suf"

definition truncate_with_byte_estimate :: "rstr \<Rightarrow> nat \<Rightarrow> bool \<Rightarrow> rstr" where
  "truncate_with_byte_estimate s max_bytes use_tokens =
     (if s = [] then []
      else if max_bytes = 0
      then format_truncation_marker use_tokens (removed_units use_tokens (str_len s) (length s))
      else if str_len s \<le> max_bytes then s
      else let total_bytes = str_len s;
               (left_budget, right_budget) = split_budget max_bytes;
               (removed, left, right) = split_string s left_budget right_budget;
               marker = format_truncation_marker use_tokens
                          (removed_units use_tokens (total_bytes - max_bytes) removed)
           in assemble_truncated_output left right marker)"

definition truncate_middle_chars :: "rstr \<Rightarrow> nat \<Rightarrow> rstr" where
  "truncate_middle_chars s max_bytes = truncate_with_byte_estimate s max_bytes False"

definition truncate_middle_with_token_budget :: "rstr \<Rightarrow> nat \<Rightarrow> rstr \<times> nat option" where
  "truncate_middle_with_token_budget s max_tokens =
     (if s = [] then ([], None)
      else if 0 < max_tokens \<and> str_len s \<le> approx_bytes_for_tokens max_tokens then (s, None)
      else let truncated = truncate_with_byte_estimate s (approx_bytes_for_tokens max_tokens) True;
               total_tokens = approx_token_count s
           in if truncated = s then (truncated, None) else (truncated, Some total_tokens))"

section \<open>Policies\<close>

datatype truncation_policy = Bytes nat | Tokens nat

fun token_budget :: "truncation_policy \<Rightarrow> nat" where
  "token_budget (Bytes n) = approx_tokens_from_byte_count n"
| "token_budget (Tokens n) = n"

fun byte_budget :: "truncation_policy \<Rightarrow> nat" where
  "byte_budget (Bytes n) = n"
| "byte_budget (Tokens n) = approx_bytes_for_tokens n"

fun truncate_text :: "rstr \<Rightarrow> truncation_policy \<Rightarrow> rstr" where
  "truncate_text content (Bytes n) = truncate_middle_chars content n"
| "truncate_text content (Tokens n) = fst (truncate_middle_with_token_budget content n)"

definition formatted_truncate_text :: "rstr \<Rightarrow> truncation_policy \<Rightarrow> rstr" where
  "formatted_truncate_text content policy =
     (if str_len content \<le> byte_budget policy then content
      else let original_token_count = approx_token_count content;
               total_lines = length (lines content);
               result = truncate_text content policy
           in str ''Warning: truncated output (original token count: '' @ show_nat original_token_count @ str '')''
              @ [LF] @ str ''Total output lines: '' @ show_nat total_lines @ [LF, LF] @ result)"

text \<open>
  The \<open>1.2\<close> of the serialization slack is the double \<open>5404319552844595 / 2 ^ 52\<close>.  \<open>n as f64\<close> and the
  product are rounded to 53 bits, to the even neighbour on a tie; with a budget of at least one no
  subnormal occurs.  \<open>ceil\<close> is exact and \<open>as usize\<close> saturates.
\<close>

fun bit_length :: "nat \<Rightarrow> nat" where
  "bit_length n = (if n = 0 then 0 else Suc (bit_length (n div 2)))"

declare bit_length.simps [simp del]

definition round53 :: "nat \<Rightarrow> nat" where
  "round53 m =
     (let k = bit_length m - 53; q = m div 2 ^ k; r = m mod 2 ^ k
      in if 2 * r > 2 ^ k \<or> (2 * r = 2 ^ k \<and> odd q) then (q + 1) * 2 ^ k else q * 2 ^ k)"

definition mul_1_2 :: "nat \<Rightarrow> nat" where
  "mul_1_2 n = min ((round53 (round53 n * 5404319552844595) + 2 ^ 52 - 1) div 2 ^ 52) usize_max"

fun mul_policy_1_2 :: "truncation_policy \<Rightarrow> truncation_policy" where
  "mul_policy_1_2 (Bytes n) = Bytes (mul_1_2 n)"
| "mul_policy_1_2 (Tokens n) = Tokens (mul_1_2 n)"

section \<open>Content items\<close>

fun text_segment :: "fn_content_item \<Rightarrow> rstr option" where
  "text_segment (FnInputText t) = Some t"
| "text_segment _ = None"

definition text_segments :: "fn_content_item list \<Rightarrow> rstr list" where
  "text_segments items = List.map_filter text_segment items"

definition combine_text :: "rstr list \<Rightarrow> rstr" where
  "combine_text segments = foldl (\<lambda>combined t. (if combined = [] then [] else combined @ [LF]) @ t) [] segments"

definition formatted_truncate_text_content_items_with_policy ::
  "fn_content_item list \<Rightarrow> truncation_policy \<Rightarrow> fn_content_item list \<times> nat option" where
  "formatted_truncate_text_content_items_with_policy items policy =
     (let segments = text_segments items
      in if segments = [] then (items, None)
         else let combined = combine_text segments
              in if str_len combined \<le> byte_budget policy then (items, None)
                 else (FnInputText (formatted_truncate_text combined policy)
                         # filter (\<lambda>item. text_segment item = None) items,
                       Some (approx_token_count combined)))"

record items_state =
  items_out :: "fn_content_item list"
  remaining_budget :: nat
  omitted_text_items :: nat
  omitted_audio_items :: nat

definition initial_budget :: "truncation_policy \<Rightarrow> nat" where
  "initial_budget policy = (case policy of Bytes _ \<Rightarrow> byte_budget policy | Tokens _ \<Rightarrow> token_budget policy)"

definition text_cost :: "truncation_policy \<Rightarrow> rstr \<Rightarrow> nat" where
  "text_cost policy t = (case policy of Bytes _ \<Rightarrow> str_len t | Tokens _ \<Rightarrow> approx_token_count t)"

definition audio_cost :: "truncation_policy \<Rightarrow> nat \<Rightarrow> nat" where
  "audio_cost policy token_cost =
     (case policy of Bytes _ \<Rightarrow> approx_bytes_for_tokens token_cost | Tokens _ \<Rightarrow> token_cost)"

definition snippet_policy :: "truncation_policy \<Rightarrow> nat \<Rightarrow> truncation_policy" where
  "snippet_policy policy remaining = (case policy of Bytes _ \<Rightarrow> Bytes remaining | Tokens _ \<Rightarrow> Tokens remaining)"

fun truncate_item ::
  "truncation_policy \<Rightarrow> (rstr \<Rightarrow> nat) \<Rightarrow> items_state \<Rightarrow> fn_content_item \<Rightarrow> items_state" where
  "truncate_item policy audio_tokens st (FnInputText t) =
     (if t = [] then st
      else if remaining_budget st = 0 then st\<lparr>omitted_text_items := omitted_text_items st + 1\<rparr>
      else let cost = text_cost policy t
           in if cost \<le> remaining_budget st
              then st\<lparr>items_out := items_out st @ [FnInputText t], remaining_budget := remaining_budget st - cost\<rparr>
              else let snippet = truncate_text t (snippet_policy policy (remaining_budget st))
                   in (if snippet = [] then st\<lparr>omitted_text_items := omitted_text_items st + 1\<rparr>
                       else st\<lparr>items_out := items_out st @ [FnInputText snippet]\<rparr>)\<lparr>remaining_budget := 0\<rparr>)"
| "truncate_item policy audio_tokens st (FnInputImage url detail) =
     st\<lparr>items_out := items_out st @ [FnInputImage url detail]\<rparr>"
| "truncate_item policy audio_tokens st (FnInputAudio url) =
     (let cost = audio_cost policy (audio_tokens url)
      in if cost \<le> remaining_budget st
         then st\<lparr>items_out := items_out st @ [FnInputAudio url], remaining_budget := remaining_budget st - cost\<rparr>
         else st\<lparr>omitted_audio_items := omitted_audio_items st + 1\<rparr>)"
| "truncate_item policy audio_tokens st (FnEncryptedContent e) =
     st\<lparr>items_out := items_out st @ [FnEncryptedContent e]\<rparr>"

definition omitted_text_note :: "nat \<Rightarrow> fn_content_item list" where
  "omitted_text_note k =
     (if 0 < k then [FnInputText (str ''[omitted '' @ show_nat k @ str '' text items ...]'')] else [])"

definition omitted_audio_note :: "nat \<Rightarrow> fn_content_item list" where
  "omitted_audio_note k =
     (if 0 < k then [FnInputText (str ''[omitted '' @ show_nat k @ str '' audio items ...]'')] else [])"

definition truncate_function_output_items_with_policy ::
  "fn_content_item list \<Rightarrow> truncation_policy \<Rightarrow> (rstr \<Rightarrow> nat) \<Rightarrow> fn_content_item list" where
  "truncate_function_output_items_with_policy items policy audio_tokens =
     (let st = foldl (truncate_item policy audio_tokens)
                 \<lparr>items_out = [], remaining_budget = initial_budget policy, omitted_text_items = 0,
                  omitted_audio_items = 0\<rparr> items
      in items_out st @ omitted_text_note (omitted_text_items st) @ omitted_audio_note (omitted_audio_items st))"

text \<open>\<open>approx_tokens_from_byte_count_i64\<close>: \<open>i64\<close> values are integers of the range of the type.\<close>

definition i64_max :: int where
  "i64_max = 2 ^ 63 - 1"

definition approx_tokens_from_byte_count_i64 :: "int \<Rightarrow> int" where
  "approx_tokens_from_byte_count_i64 k =
     (if k \<le> 0 then 0 else min (int (approx_tokens_from_byte_count (nat k))) i64_max)"

section \<open>What the split keeps\<close>

lemma str_upto_append: "str_upto (str_len p) (p @ s) = p"
proof (induction p)
  case Nil
  show ?case by (cases s) (simp_all add: not_le)
qed simp

lemma str_from_append: "str_from (str_len p) (p @ s) = s"
  by (simp add: str_from_def str_upto_append)

lemma is_char_boundary_append: "is_char_boundary (p @ s) (str_len p)"
  by (simp add: is_char_boundary_def str_upto_append)

text \<open>The three phases of the loop: the prefix, the removed middle, the suffix.\<close>

lemma split_loop_prefix:
  "idx + str_len p \<le> b \<Longrightarrow> prefix_end st = idx \<Longrightarrow>
   split_loop b t idx (p @ s) st = split_loop b t (idx + str_len p) s (st\<lparr>prefix_end := idx + str_len p\<rparr>)"
  by (induction p arbitrary: idx st) (auto simp: add.assoc)

lemma split_loop_middle:
  "b < idx + len_utf8 (hd m) \<or> m = [] \<Longrightarrow> m = [] \<or> idx + str_len (butlast m) < t \<Longrightarrow>
   split_loop b t idx (m @ s) st =
     split_loop b t (idx + str_len m) s
       (if m = [] then st else st\<lparr>removed_chars := saturating_add (removed_chars st) (length m)\<rparr>)"
proof (induction m arbitrary: idx st)
  case (Cons c m)
  then have "b < idx + len_utf8 c"
    by simp
  then have first: "b < idx + len_utf8 c + len_utf8 (hd m) \<or> m = []"
    by simp
  have low: "idx < t" and last: "m = [] \<or> idx + len_utf8 c + str_len (butlast m) < t"
    using Cons.prems(2) by (cases "m = []"; simp)+
  from \<open>b < idx + len_utf8 c\<close> low Cons.IH[OF first last] show ?case
    by (simp add: add.assoc saturating_add_assoc)
qed simp

lemma split_loop_suffix:
  "t \<le> idx \<Longrightarrow> b < idx + len_utf8 (hd s) \<or> s = [] \<Longrightarrow>
   split_loop b t idx s st =
     (if s = [] \<or> suffix_started st then st else st\<lparr>suffix_start := idx, suffix_started := True\<rparr>)"
proof (induction s arbitrary: idx st)
  case (Cons c s)
  then have "b < idx + len_utf8 c"
    by simp
  then have "b < idx + len_utf8 c + len_utf8 (hd s) \<or> s = []"
    by simp
  with Cons.IH[of "idx + len_utf8 c"] \<open>b < idx + len_utf8 c\<close> Cons.prems(1) show ?case
    by simp
qed simp

text \<open>Where the three phases meet.\<close>

lemma str_upto_cut:
  obtains r where "s = str_upto b s @ r" "str_len (str_upto b s) \<le> b"
    "r = [] \<or> b < str_len (str_upto b s) + len_utf8 (hd r)"
proof -
  have "\<exists>r. s = str_upto b s @ r \<and> str_len (str_upto b s) \<le> b \<and>
      (r = [] \<or> b < str_len (str_upto b s) + len_utf8 (hd r))"
  proof (induction s arbitrary: b)
    case (Cons c s)
    show ?case
    proof (cases "len_utf8 c \<le> b")
      case True
      with Cons[of "b - len_utf8 c"] show ?thesis by (auto simp: le_diff_conv2 add.assoc)
    qed simp
  qed simp
  with that show thesis by blast
qed

lemma middle_cut:
  "\<exists>m r. s = m @ r \<and> (m = [] \<or> idx + str_len (butlast m) < t) \<and> (r = [] \<or> t \<le> idx + str_len m)"
proof (induction s arbitrary: idx)
  case (Cons c s)
  show ?case
  proof (cases "t \<le> idx")
    case False
    from Cons obtain m r where "s = m @ r" "m = [] \<or> idx + len_utf8 c + str_len (butlast m) < t"
      "r = [] \<or> t \<le> idx + len_utf8 c + str_len m"
      by blast
    with False have "c # s = (c # m) @ r \<and> (c # m = [] \<or> idx + str_len (butlast (c # m)) < t)
        \<and> (r = [] \<or> t \<le> idx + str_len (c # m))"
      by (auto simp: add.assoc)
    then show ?thesis by blast
  qed (rule exI[of _ "[]"], simp)
qed simp

lemma split_string_spec:
  assumes "s \<noteq> []"
  obtains l m r where "s = l @ m @ r" "split_string s b e = (min (length m) usize_max, l, r)"
    "str_len l \<le> b" "str_len r \<le> e"
    "m = [] \<or> b < str_len l + len_utf8 (hd m)" "m = [] \<or> e < len_utf8 (last m) + str_len r"
proof -
  define l where "l = str_upto b s"
  obtain u where u: "s = l @ u" "str_len l \<le> b" "u = [] \<or> b < str_len l + len_utf8 (hd u)"
    unfolding l_def by (rule str_upto_cut)
  let ?t = "str_len s - e"
  obtain m r where cut: "u = m @ r" "m = [] \<or> str_len l + str_len (butlast m) < ?t"
    "r = [] \<or> ?t \<le> str_len l + str_len m"
    using middle_cut[of u "str_len l" ?t] by blast
  let ?st = "\<lparr>prefix_end = 0, suffix_start = str_len s, removed_chars = 0, suffix_started = False\<rparr>"
  have first_m: "b < str_len l + len_utf8 (hd m) \<or> m = []"
    using u(3) cut(1) by (cases m) auto
  have first_r: "b < str_len l + str_len m + len_utf8 (hd r) \<or> r = []"
    using u(3) cut(1) by (cases m) auto
  have run: "split_loop b ?t 0 s ?st = \<lparr>prefix_end = str_len l, suffix_start = str_len l + str_len m,
      removed_chars = min (length m) usize_max, suffix_started = (r \<noteq> [])\<rparr>"
  proof (cases "r = []")
    case True
    then show ?thesis
      using u(2) split_loop_prefix[of 0 l b ?st ?t u] split_loop_middle[OF first_m cut(2), of "[]"]
      by (auto simp: u(1) cut(1) saturating_add_def)
  next
    case False
    then have "?t \<le> str_len l + str_len m"
      using cut(3) by simp
    note suffix = split_loop_suffix[OF this first_r]
    show ?thesis
      using False u(2) split_loop_prefix[of 0 l b ?st ?t u] split_loop_middle[OF first_m cut(2), of r] suffix
      by (auto simp: u(1) cut(1) saturating_add_def)
  qed
  have split: "split_string s b e = (min (length m) usize_max, l, r)"
    using assms str_upto_append[of l "m @ r"] str_from_append[of "l @ m" r]
    by (simp add: split_string_def Let_def run) (simp add: u(1) cut(1))
  have "str_len r \<le> e"
    using cut(3) by (auto simp: u(1) cut(1))
  moreover have "m = [] \<or> e < len_utf8 (last m) + str_len r"
  proof (cases m rule: rev_cases)
    case (snoc m' c)
    then show ?thesis using cut(2) by (auto simp: u(1) cut(1))
  qed simp
  ultimately show thesis
    using that[of l m r] u(1,2) cut(1) split first_m by auto
qed

section \<open>Properties of the truncation\<close>

definition is_tokens :: "truncation_policy \<Rightarrow> bool" where
  "is_tokens policy = (case policy of Bytes _ \<Rightarrow> False | Tokens _ \<Rightarrow> True)"

lemma truncate_text_eq:
  "truncate_text s policy = truncate_with_byte_estimate s (byte_budget policy) (is_tokens policy)"
proof (cases policy)
  case (Tokens n)
  then show ?thesis
    by (auto simp: truncate_middle_with_token_budget_def truncate_with_byte_estimate_def is_tokens_def Let_def
        approx_bytes_for_tokens_def saturating_mul_def usize_max_def)
qed (simp add: truncate_middle_chars_def is_tokens_def)

lemma truncate_short: "str_len s \<le> n \<Longrightarrow> truncate_with_byte_estimate s n use_tokens = s"
  by (auto simp: truncate_with_byte_estimate_def)

lemma truncate_long:
  assumes "n < str_len s" "str_len s \<le> usize_max"
  obtains l m r where "s = l @ m @ r" "m \<noteq> []"
    "truncate_with_byte_estimate s n use_tokens = l @ format_truncation_marker use_tokens
       (removed_units use_tokens (str_len s - n) (length m)) @ r"
    "str_len l \<le> n div 2" "str_len r \<le> n - n div 2"
    "n div 2 < str_len l + len_utf8 (hd m)" "n - n div 2 < len_utf8 (last m) + str_len r"
proof -
  have "s \<noteq> []"
    using assms by auto
  then obtain l m r where cut: "s = l @ m @ r" "split_string s (n div 2) (n - n div 2) = (min (length m) usize_max, l, r)"
    "str_len l \<le> n div 2" "str_len r \<le> n - n div 2"
    "m = [] \<or> n div 2 < str_len l + len_utf8 (hd m)" "m = [] \<or> n - n div 2 < len_utf8 (last m) + str_len r"
    by (rule split_string_spec)
  from assms(1) cut(1,3,4) have "m \<noteq> []"
    by auto
  have "length m \<le> usize_max"
    using length_le_str_len[of m] assms(2) by (simp add: cut(1))
  then have "truncate_with_byte_estimate s n use_tokens = l @ format_truncation_marker use_tokens
       (removed_units use_tokens (str_len s - n) (length m)) @ r"
  proof (cases "n = 0")
    case True
    then have "l = []" "r = []"
      using cut(3,4) by auto
    with True \<open>s \<noteq> []\<close> show ?thesis
      by (simp add: truncate_with_byte_estimate_def cut(1))
  qed (use \<open>s \<noteq> []\<close> assms(1) in \<open>simp add: truncate_with_byte_estimate_def split_budget_def Let_def cut(2)
        assemble_truncated_output_def not_le\<close>)
  with that cut \<open>m \<noteq> []\<close> show thesis by blast
qed



text \<open>
  A truncated text is not within the budget: the marker comes on top.  With one token the result of
  eight bytes is longer than the text itself.
\<close>

lemma token_budget_exceeded:
  "truncate_middle_with_token_budget (str ''abcdefgh'') 1
     = (str ''ab'' @ format_truncation_marker True 1 @ str ''gh'', Some 2)
   \<and> approx_token_count (str ''ab'' @ format_truncation_marker True 1 @ str ''gh'') = 7"
proof
  have "approx_bytes_for_tokens 1 = 4"
    by (simp add: approx_bytes_for_tokens_def saturating_mul_def usize_max_def)
  moreover have "split_string (str ''abcdefgh'') 2 2 = (4, str ''ab'', str ''gh'')"
  proof -
    have "split_loop 2 6 0 (str ''abcdefgh'')
        \<lparr>prefix_end = 0, suffix_start = 8, removed_chars = 0, suffix_started = False\<rparr>
      = \<lparr>prefix_end = 2, suffix_start = 6, removed_chars = 4, suffix_started = True\<rparr>"
      by (simp add: str_def len_utf8_def saturating_add_def usize_max_def)
    moreover have "str_len (str ''abcdefgh'') = 8"
      by (simp add: str_def len_utf8_def)
    moreover have "str_upto 2 (str ''abcdefgh'') = str ''ab''" "str_from 6 (str ''abcdefgh'') = str ''gh''"
      by (simp_all add: str_from_def str_def len_utf8_def)
    moreover have "str ''abcdefgh'' \<noteq> []"
      by (simp add: str_def)
    ultimately show ?thesis
      by (simp add: split_string_def Let_def)
  qed
  moreover have "str_len (str ''abcdefgh'') = 8"
    by (simp add: str_def len_utf8_def)
  moreover have "approx_token_count (str ''abcdefgh'') = 2"
    by (simp add: approx_token_count_def str_def len_utf8_def saturating_add_def usize_max_def)
  moreover have "str ''ab'' @ format_truncation_marker True 1 @ str ''gh'' \<noteq> str ''abcdefgh''"
    by (simp add: str_def format_truncation_marker_def)
  ultimately show "truncate_middle_with_token_budget (str ''abcdefgh'') 1
     = (str ''ab'' @ format_truncation_marker True 1 @ str ''gh'', Some 2)"
    by (simp add: truncate_middle_with_token_budget_def truncate_with_byte_estimate_def split_budget_def
        assemble_truncated_output_def removed_units_def approx_tokens_from_byte_count_def
        saturating_add_def usize_max_def str_def)
  have "show_nat 1 = [49]"
    by (simp add: show_nat.simps)
  then show "approx_token_count (str ''ab'' @ format_truncation_marker True 1 @ str ''gh'') = 7"
    by (simp add: approx_token_count_def format_truncation_marker_def str_def len_utf8_def saturating_add_def
        usize_max_def)
qed

section \<open>Properties of the truncated items\<close>

fun is_text_item :: "fn_content_item \<Rightarrow> bool" where
  "is_text_item (FnInputText _) = True"
| "is_text_item _ = False"

fun is_audio_item :: "fn_content_item \<Rightarrow> bool" where
  "is_audio_item (FnInputAudio _) = True"
| "is_audio_item _ = False"

definition is_attachment :: "fn_content_item \<Rightarrow> bool" where
  "is_attachment item \<longleftrightarrow> \<not> is_text_item item \<and> \<not> is_audio_item item"

fun item_cost :: "truncation_policy \<Rightarrow> (rstr \<Rightarrow> nat) \<Rightarrow> fn_content_item \<Rightarrow> nat" where
  "item_cost policy audio_tokens (FnInputText t) = text_cost policy t"
| "item_cost policy audio_tokens (FnInputAudio url) = audio_cost policy (audio_tokens url)"
| "item_cost policy audio_tokens _ = 0"

text \<open>
  What the loop has done with the items it has seen: whole items of bounded cost, with at most one
  snippet among them, and every other text or audio item counted.
\<close>

definition whole_items ::
  "truncation_policy \<Rightarrow> (rstr \<Rightarrow> nat) \<Rightarrow> fn_content_item list \<Rightarrow> fn_content_item list \<Rightarrow> nat \<Rightarrow> bool" where
  "whole_items policy audio_tokens seen out left \<longleftrightarrow>
     (\<exists>xs snip ys. out = xs @ snip @ ys \<and> subseq (xs @ ys) seen
        \<and> sum_list (map (item_cost policy audio_tokens) (xs @ ys)) + left \<le> initial_budget policy
        \<and> (snip = [] \<or> left = 0 \<and> (\<exists>t b. FnInputText t \<in> set seen \<and> b \<le> initial_budget policy
             \<and> snip = [FnInputText (truncate_text t (snippet_policy policy b))])))"

definition items_inv ::
  "truncation_policy \<Rightarrow> (rstr \<Rightarrow> nat) \<Rightarrow> fn_content_item list \<Rightarrow> items_state \<Rightarrow> bool" where
  "items_inv policy audio_tokens seen st \<longleftrightarrow>
     whole_items policy audio_tokens seen (items_out st) (remaining_budget st)
     \<and> filter is_attachment (items_out st) = filter is_attachment seen
     \<and> length (filter is_text_item (items_out st)) + omitted_text_items st
         = length (filter (\<lambda>i. is_text_item i \<and> i \<noteq> FnInputText []) seen)
     \<and> length (filter is_audio_item (items_out st)) + omitted_audio_items st = length (filter is_audio_item seen)"

lemma whole_items_skip:
  assumes "whole_items p a seen out left" "left' \<le> left"
  shows "whole_items p a (seen @ zs) out left'"
proof -
  from assms(1) obtain xs snip ys where w: "out = xs @ snip @ ys" "subseq (xs @ ys) seen"
    "sum_list (map (item_cost p a) (xs @ ys)) + left \<le> initial_budget p"
    "snip = [] \<or> left = 0 \<and> (\<exists>t b. FnInputText t \<in> set seen \<and> b \<le> initial_budget p
       \<and> snip = [FnInputText (truncate_text t (snippet_policy p b))])"
    unfolding whole_items_def by blast
  from w(2) have "subseq (xs @ ys) (seen @ zs)"
    by (rule list_emb_prefix)
  moreover have "sum_list (map (item_cost p a) (xs @ ys)) + left' \<le> initial_budget p"
    using w(3) assms(2) by linarith
  moreover have "snip = [] \<or> left' = 0 \<and> (\<exists>t b. FnInputText t \<in> set (seen @ zs) \<and> b \<le> initial_budget p
       \<and> snip = [FnInputText (truncate_text t (snippet_policy p b))])"
    using w(4) assms(2) by auto
  ultimately show ?thesis
    unfolding whole_items_def using w(1) by blast
qed

lemma whole_items_keep:
  assumes "whole_items p a seen out left" "item_cost p a i \<le> left"
  shows "whole_items p a (seen @ [i]) (out @ [i]) (left - item_cost p a i)"
proof -
  from assms(1) obtain xs snip ys where w: "out = xs @ snip @ ys" "subseq (xs @ ys) seen"
    "sum_list (map (item_cost p a) (xs @ ys)) + left \<le> initial_budget p"
    "snip = [] \<or> left = 0 \<and> (\<exists>t b. FnInputText t \<in> set seen \<and> b \<le> initial_budget p
       \<and> snip = [FnInputText (truncate_text t (snippet_policy p b))])"
    unfolding whole_items_def by blast
  have "out @ [i] = xs @ snip @ (ys @ [i])"
    by (simp add: w(1))
  moreover have "subseq (xs @ (ys @ [i])) (seen @ [i])"
    using list_emb_append_mono[OF w(2), of "[i]" "[i]"] by simp
  moreover have "sum_list (map (item_cost p a) (xs @ (ys @ [i]))) + (left - item_cost p a i) \<le> initial_budget p"
    using w(3) assms(2) by simp
  moreover have "snip = [] \<or> left - item_cost p a i = 0 \<and> (\<exists>t b. FnInputText t \<in> set (seen @ [i])
       \<and> b \<le> initial_budget p \<and> snip = [FnInputText (truncate_text t (snippet_policy p b))])"
    using w(4) by auto
  ultimately show ?thesis
    unfolding whole_items_def by blast
qed

lemma whole_items_snippet:
  assumes "whole_items p a seen out left" "0 < left"
  shows "whole_items p a (seen @ [FnInputText t])
    (out @ [FnInputText (truncate_text t (snippet_policy p left))]) 0"
proof -
  from assms obtain xs ys where w: "out = xs @ ys" "subseq (xs @ ys) seen"
    "sum_list (map (item_cost p a) (xs @ ys)) + left \<le> initial_budget p"
    unfolding whole_items_def by auto
  have "subseq ((xs @ ys) @ []) (seen @ [FnInputText t])"
    using list_emb_prefix[OF w(2)] by simp
  moreover have "out @ [FnInputText (truncate_text t (snippet_policy p left))]
      = (xs @ ys) @ [FnInputText (truncate_text t (snippet_policy p left))] @ []"
    by (simp add: w(1))
  moreover have "sum_list (map (item_cost p a) ((xs @ ys) @ [])) + 0 \<le> initial_budget p" "left \<le> initial_budget p"
    using w(3) by auto
  ultimately show ?thesis
    unfolding whole_items_def
    by - (rule exI[of _ "xs @ ys"], rule exI[of _ "[FnInputText (truncate_text t (snippet_policy p left))]"],
        rule exI[of _ "[]"], auto)
qed

lemma truncate_item_inv:
  assumes "items_inv p a seen st"
  shows "items_inv p a (seen @ [i]) (truncate_item p a st i)"
proof -
  from assms have w: "whole_items p a seen (items_out st) (remaining_budget st)"
    by (simp add: items_inv_def)
  note keep = whole_items_keep[OF w, of i] and skip = whole_items_skip[OF w, of _ "[i]"]
  show ?thesis
  proof (cases i)
    case (FnInputText t)
    consider "t = []" | "t \<noteq> []" "remaining_budget st = 0"
      | "t \<noteq> []" "remaining_budget st \<noteq> 0" "text_cost p t \<le> remaining_budget st"
      | "t \<noteq> []" "remaining_budget st \<noteq> 0" "\<not> text_cost p t \<le> remaining_budget st"
      by blast
    then show ?thesis
    proof cases
      case 4
      note snip = whole_items_snippet[OF w, of t]
      from 4 assms FnInputText show ?thesis
        using snip skip[of 0] by (auto simp: items_inv_def is_attachment_def Let_def)
    qed (use assms keep skip[of "remaining_budget st"] FnInputText in
        \<open>auto simp: items_inv_def is_attachment_def Let_def\<close>)
  next
    case (FnInputAudio url)
    then show ?thesis
      using assms keep skip[of "remaining_budget st"] by (auto simp: items_inv_def is_attachment_def Let_def)
  qed (use assms keep in \<open>auto simp: items_inv_def is_attachment_def\<close>)
qed

lemma truncate_items_inv:
  "items_inv p a seen st \<Longrightarrow> items_inv p a (seen @ items) (foldl (truncate_item p a) st items)"
  by (induction items rule: rev_induct) (simp_all add: truncate_item_inv flip: append_assoc)

definition initial_items_state :: "truncation_policy \<Rightarrow> items_state" where
  "initial_items_state policy =
     \<lparr>items_out = [], remaining_budget = initial_budget policy, omitted_text_items = 0, omitted_audio_items = 0\<rparr>"

lemma items_inv_initial: "items_inv p a [] (initial_items_state p)"
  unfolding items_inv_def whole_items_def initial_items_state_def by simp

lemma text_cost_pos: "t \<noteq> [] \<Longrightarrow> 0 < text_cost p t"
proof -
  assume "t \<noteq> []"
  then have "1 \<le> str_len t"
    by (metis One_nat_def Suc_leI gr0I str_len_eq_0_iff)
  then have "4 \<le> saturating_add (str_len t) 3"
    by (simp add: saturating_add_def usize_max_def)
  then show ?thesis
    using \<open>1 \<le> str_len t\<close> by (cases p) (simp_all add: text_cost_def approx_token_count_def div_greater_zero_iff)
qed

lemma text_cost_Nil: "text_cost p [] = 0"
  by (cases p) (simp_all add: text_cost_def approx_token_count_def saturating_add_def usize_max_def)

lemma truncate_items_within:
  "sum_list (map (item_cost p a) items) \<le> initial_budget p \<Longrightarrow>
   foldl (truncate_item p a) (initial_items_state p) items =
     (initial_items_state p)\<lparr>items_out := filter (\<lambda>i. i \<noteq> FnInputText []) items,
       remaining_budget := initial_budget p - sum_list (map (item_cost p a) items)\<rparr>"
proof (induction items rule: rev_induct)
  case (snoc i items)
  show ?case
  proof (cases i)
    case (FnInputText t)
    show ?thesis
    proof (cases "t = []")
      case False
      with snoc FnInputText text_cost_pos[of t p] show ?thesis
        by (simp add: initial_items_state_def Let_def)
    qed (use snoc FnInputText in \<open>simp add: initial_items_state_def text_cost_Nil\<close>)
  qed (use snoc in \<open>simp_all add: initial_items_state_def Let_def\<close>)
qed (simp add: initial_items_state_def)

text \<open>
  C26. Truncating the content items of a tool output: every image and encrypted item is kept, in
  order; of the others, the whole ones kept have a total cost within the budget, at most one text is cut to
  a snippet, and every text and audio item that is not shown is counted in the notes appended at
  the end; and items within the budget are returned as they are, except for empty texts.
\<close>

theorem truncated_items_accounted:
  "\<exists>kept texts audios.
     truncate_function_output_items_with_policy items policy audio_tokens
       = kept @ omitted_text_note texts @ omitted_audio_note audios
   \<and> filter is_attachment kept = filter is_attachment items
   \<and> whole_items policy audio_tokens items kept 0
   \<and> length (filter is_text_item kept) + texts = length (filter (\<lambda>i. is_text_item i \<and> i \<noteq> FnInputText []) items)
   \<and> length (filter is_audio_item kept) + audios = length (filter is_audio_item items)
   \<and> (sum_list (map (item_cost policy audio_tokens) items) \<le> initial_budget policy \<longrightarrow>
        truncate_function_output_items_with_policy items policy audio_tokens
          = filter (\<lambda>i. i \<noteq> FnInputText []) items)"
proof -
  let ?st = "foldl (truncate_item policy audio_tokens) (initial_items_state policy) items"
  have inv: "items_inv policy audio_tokens items ?st"
    using truncate_items_inv[OF items_inv_initial, of policy audio_tokens items] by simp
  have whole: "whole_items policy audio_tokens items (items_out ?st) 0"
    using inv whole_items_skip[where zs = "[]" and left' = 0] by (auto simp: items_inv_def)
  have run: "truncate_function_output_items_with_policy items policy audio_tokens
      = items_out ?st @ omitted_text_note (omitted_text_items ?st) @ omitted_audio_note (omitted_audio_items ?st)"
    by (simp add: truncate_function_output_items_with_policy_def initial_items_state_def Let_def)
  have within: "truncate_function_output_items_with_policy items policy audio_tokens
      = filter (\<lambda>i. i \<noteq> FnInputText []) items"
    if "sum_list (map (item_cost policy audio_tokens) items) \<le> initial_budget policy"
    unfolding run truncate_items_within[OF that]
    by (simp add: initial_items_state_def omitted_text_note_def omitted_audio_note_def)
  from inv whole run within show ?thesis
    unfolding items_inv_def by blast
qed

theorem truncated_items_accounted_witness:
  "truncate_function_output_items_with_policy [FnInputText (str ''ab''), FnInputImage (str ''u'') None, FnInputText []]
     (Bytes 10) (\<lambda>_. 0) = [FnInputText (str ''ab''), FnInputImage (str ''u'') None]"
  using truncated_items_accounted[of "[FnInputText (str ''ab''), FnInputImage (str ''u'') None, FnInputText []]"
      "Bytes 10" "\<lambda>_. 0"]
  by (auto simp: text_cost_def str_def len_utf8_def initial_budget_def)

end
