(* ===== verification/Contextual_Text.thy ===== *)
theory Contextual_Text
  imports Truncation
begin

text \<open>
  Recognising the context that the harness injects into the conversation:
  \<open>context-fragments/src/fragment.rs\<close> and \<open>additional_context.rs\<close>, \<open>core/src/context/*.rs\<close> (the markers and
  matchers of the fragments), \<open>core/src/context/contextual_user_message.rs\<close> and the classification of
  messages in \<open>core/src/event_mapping.rs\<close> and \<open>history.rs\<close>.  A user message that holds such a fragment is not a
  turn of the user.

  The record \<open>codec\<close> has the two third-party decoders the code consults: the XML deserializer of a hook prompt
  (its text and its attribute \<open>hook_run_id\<close>) and the JSON deserializer of an inter-agent communication, of
  which only success matters here.
\<close>

section \<open>Matching\<close>

record codec =
  hook_prompt_from_xml :: "rstr \<Rightarrow> (rstr \<times> rstr) option"
  inter_agent_from_json :: "rstr \<Rightarrow> bool"

text \<open>\<open>str::get(..k)\<close> and \<open>str::get(k..)\<close>: \<open>None\<close> off a character boundary.\<close>

definition str_get_to :: "nat \<Rightarrow> rstr \<Rightarrow> rstr option" where
  "str_get_to k s = (if is_char_boundary s k then Some (str_upto k s) else None)"

definition str_get_from :: "nat \<Rightarrow> rstr \<Rightarrow> rstr option" where
  "str_get_from k s = (if is_char_boundary s k then Some (str_from k s) else None)"

definition eq_ignore_ascii_case :: "rstr \<Rightarrow> rstr \<Rightarrow> bool" where
  "eq_ignore_ascii_case a b \<longleftrightarrow> to_ascii_lowercase a = to_ascii_lowercase b"

definition matches_marked_text :: "rstr \<Rightarrow> rstr \<Rightarrow> rstr \<Rightarrow> bool" where
  "matches_marked_text start_marker end_marker t =
     (if start_marker = [] \<or> end_marker = [] then False
      else let trimmed = trim_start t;
               starts_with_marker = (case str_get_to (str_len start_marker) trimmed of
                  Some candidate \<Rightarrow> eq_ignore_ascii_case candidate start_marker | None \<Rightarrow> False);
               trimmed = trim_end trimmed;
               ends_with_marker = (case str_get_from (str_len trimmed - str_len end_marker) trimmed of
                  Some candidate \<Rightarrow> eq_ignore_ascii_case candidate end_marker | None \<Rightarrow> False)
           in starts_with_marker \<and> ends_with_marker)"

section \<open>The fragments of a user message\<close>

definition additional_context_matches :: "rstr \<Rightarrow> bool" where
  "additional_context_matches t =
     (case strip_prefix (str ''<external_'') (trim t) of
        None \<Rightarrow> False
      | Some rest \<Rightarrow>
          (case split_once (str ''>'') rest of
             None \<Rightarrow> False
           | Some (key, value_and_close) \<Rightarrow> suffix (str ''</external_'' @ key @ str ''>'') value_and_close))"

definition is_ascii_lowercase :: "rchar \<Rightarrow> bool" where
  "is_ascii_lowercase c \<longleftrightarrow> 97 \<le> c \<and> c \<le> 122"

fun is_valid_source :: "rstr \<Rightarrow> bool" where
  "is_valid_source [] = False"
| "is_valid_source (c # s) \<longleftrightarrow>
     is_ascii_lowercase c \<and> (\<forall>d \<in> set s. is_ascii_lowercase d \<or> is_ascii_digit d \<or> d = 95)"

definition matches_legacy_goal_context :: "rstr \<Rightarrow> bool" where
  "matches_legacy_goal_context t \<longleftrightarrow> prefix (str ''<goal_context>'') t \<and> suffix (str ''</goal_context>'') t"

abbreviation source_attr_start :: rstr where
  "source_attr_start \<equiv> str '' source='' @ [34]"

abbreviation source_attr_end :: rstr where
  "source_attr_end \<equiv> [34] @ str ''>''"

definition internal_model_context_matches :: "rstr \<Rightarrow> bool" where
  "internal_model_context_matches t =
     (let trimmed = trim t
      in if matches_legacy_goal_context trimmed then True
         else case strip_prefix (str ''<codex_internal_context'') trimmed of
           None \<Rightarrow> False
         | Some rest \<Rightarrow>
             (case strip_prefix source_attr_start rest of
                None \<Rightarrow> False
              | Some rest \<Rightarrow>
                  (case split_once source_attr_end rest of
                     None \<Rightarrow> False
                   | Some (source, body_and_close) \<Rightarrow>
                       is_valid_source source \<and> suffix (str ''</codex_internal_context>'') body_and_close)))"

definition unified_exec_warning_matches :: "rstr \<Rightarrow> bool" where
  "unified_exec_warning_matches t \<longleftrightarrow>
     prefix (str ''Warning: The maximum number of unified exec processes you can keep open is'') (trim t)"

definition apply_patch_warning_matches :: "rstr \<Rightarrow> bool" where
  "apply_patch_warning_matches t \<longleftrightarrow>
     prefix (str ''Warning: apply_patch was requested via '') (trim t)
     \<and> suffix (str ''Use the apply_patch tool instead of exec_command.'') (trim t)"

definition model_mismatch_warning_matches :: "rstr \<Rightarrow> bool" where
  "model_mismatch_warning_matches t \<longleftrightarrow>
     prefix (str ''Warning: Your account was flagged for potentially high-risk cyber activity'') (trim t)"

definition user_fragment_matchers :: "(rstr \<Rightarrow> bool) list" where
  "user_fragment_matchers =
     [matches_marked_text (str ''# AGENTS.md instructions'') (str ''</INSTRUCTIONS>''),
      matches_marked_text (str ''<environment_context>'') (str ''</environment_context>''),
      additional_context_matches,
      matches_marked_text (str ''<skill>'') (str ''</skill>''),
      matches_marked_text (str ''<user_shell_command>'') (str ''</user_shell_command>''),
      matches_marked_text (str ''<turn_aborted>'') (str ''</turn_aborted>''),
      matches_marked_text (str ''<subagent_notification>'') (str ''</subagent_notification>''),
      internal_model_context_matches,
      matches_marked_text (str ''<recommended_plugins>'') (str ''</recommended_plugins>''),
      unified_exec_warning_matches,
      apply_patch_warning_matches,
      model_mismatch_warning_matches]"

definition is_standard_contextual_user_text :: "rstr \<Rightarrow> bool" where
  "is_standard_contextual_user_text t \<longleftrightarrow> (\<exists>matcher \<in> set user_fragment_matchers. matcher t)"

definition parse_hook_prompt_fragment :: "codec \<Rightarrow> rstr \<Rightarrow> (rstr \<times> rstr) option" where
  "parse_hook_prompt_fragment cd t =
     (case hook_prompt_from_xml cd (trim t) of
        None \<Rightarrow> None
      | Some (body, hook_run_id) \<Rightarrow> if trim hook_run_id = [] then None else Some (body, hook_run_id))"

fun is_contextual_user_fragment :: "codec \<Rightarrow> content_item \<Rightarrow> bool" where
  "is_contextual_user_fragment cd (InputText t) \<longleftrightarrow>
     parse_hook_prompt_fragment cd t \<noteq> None \<or> is_standard_contextual_user_text t"
| "is_contextual_user_fragment cd _ \<longleftrightarrow> False"

definition is_contextual_user_message_content :: "codec \<Rightarrow> content_item list \<Rightarrow> bool" where
  "is_contextual_user_message_content cd message \<longleftrightarrow> (\<exists>c \<in> set message. is_contextual_user_fragment cd c)"

section \<open>The fragments of a developer message\<close>

definition contextual_developer_prefixes :: "rstr list" where
  "contextual_developer_prefixes =
     map str [''<permissions instructions>'', ''Approved command prefix saved:'', ''<model_switch>'',
       ''<managed_developer_instructions>'', ''<apps_instructions>'', ''<collaboration_mode>'',
       ''<multi_agent_role>'', ''<multi_agent_mode>'', ''<environments_instructions>'', ''<git_attribution>'',
       ''<plugins_instructions>'', ''<realtime_conversation>'', ''<skills_instructions>'', ''<tools>'',
       ''<personality_spec>'', ''<token_budget>'', ''<context_window>'', ''<context_window_guidance>'',
       ''<rollout_budget>'']"

fun is_contextual_dev_fragment :: "content_item \<Rightarrow> bool" where
  "is_contextual_dev_fragment (InputText t) \<longleftrightarrow>
     (let trimmed = trim_start t
      in \<exists>p \<in> set contextual_developer_prefixes.
           case str_get_to (str_len p) trimmed of
             Some candidate \<Rightarrow> eq_ignore_ascii_case candidate p | None \<Rightarrow> False)"
| "is_contextual_dev_fragment _ \<longleftrightarrow> False"

definition is_contextual_dev_message_content :: "content_item list \<Rightarrow> bool" where
  "is_contextual_dev_message_content message \<longleftrightarrow> (\<exists>c \<in> set message. is_contextual_dev_fragment c)"

definition has_non_contextual_dev_message_content :: "content_item list \<Rightarrow> bool" where
  "has_non_contextual_dev_message_content message \<longleftrightarrow> (\<exists>c \<in> set message. \<not> is_contextual_dev_fragment c)"

definition model_switch_matches :: "rstr \<Rightarrow> bool" where
  "model_switch_matches = matches_marked_text (str ''<model_switch>'') (str ''</model_switch>'')"

section \<open>Turn boundaries\<close>

fun is_message_content :: "codec \<Rightarrow> content_item list \<Rightarrow> bool" where
  "is_message_content cd [InputText t] \<longleftrightarrow> inter_agent_from_json cd t"
| "is_message_content cd [OutputText t] \<longleftrightarrow> inter_agent_from_json cd t"
| "is_message_content cd _ \<longleftrightarrow> False"

fun is_user_turn_boundary :: "codec \<Rightarrow> 'j response_item \<Rightarrow> bool" where
  "is_user_turn_boundary cd (AgentMessage _ _ _ _ _) \<longleftrightarrow> True"
| "is_user_turn_boundary cd (Message _ role content _ _) \<longleftrightarrow>
     (role = str ''user'' \<and> \<not> is_contextual_user_message_content cd content)
     \<or> (role = str ''assistant'' \<and> is_message_content cd content)"
| "is_user_turn_boundary cd _ \<longleftrightarrow> False"

section \<open>Rendering\<close>

datatype user_fragment =
    UserInstructions "rstr option" rstr
  | AdditionalContext rstr rstr
  | TurnAborted rstr
  | InternalModelContext rstr rstr

fun fragment_markers :: "user_fragment \<Rightarrow> rstr \<times> rstr" where
  "fragment_markers (UserInstructions _ _) = (str ''# AGENTS.md instructions'', str ''</INSTRUCTIONS>'')"
| "fragment_markers (AdditionalContext _ _) = (str ''<external_'', str ''>'')"
| "fragment_markers (TurnAborted _) = (str ''<turn_aborted>'', str ''</turn_aborted>'')"
| "fragment_markers (InternalModelContext _ _) = (str ''<codex_internal_context'', str ''</codex_internal_context>'')"

fun fragment_body :: "user_fragment \<Rightarrow> rstr" where
  "fragment_body (UserInstructions directory t) =
     (case directory of Some d \<Rightarrow> str '' for '' @ d | None \<Rightarrow> []) @ [LF, LF] @ str ''<INSTRUCTIONS>'' @ [LF] @ t @ [LF]"
| "fragment_body (AdditionalContext key v) =
     key @ str ''>'' @ fst (truncate_middle_with_token_budget v 1000) @ str ''</external_'' @ key"
| "fragment_body (TurnAborted guidance) = [LF] @ guidance @ [LF]"
| "fragment_body (InternalModelContext source body) =
     source_attr_start @ source @ source_attr_end @ [LF] @ body @ [LF]"

definition render :: "user_fragment \<Rightarrow> rstr" where
  "render f =
     (let (start_marker, end_marker) = fragment_markers f; body = fragment_body f
      in if start_marker = [] \<and> end_marker = [] then body else start_marker @ body @ end_marker)"

section \<open>Rendered fragments are recognised\<close>

lemma split_once_first:
  "p \<noteq> [] \<Longrightarrow> hd p \<notin> set a \<Longrightarrow> split_once p (a @ p @ b) = Some (a, b)"
proof -
  assume p: "p \<noteq> []" "hd p \<notin> set a"
  then have "find_sub p (a @ p @ b) = Some (length a)"
  proof (induction a)
    case Nil
    then show ?case by (cases p) auto
  next
    case (Cons c a)
    then have "\<not> prefix p (c # a @ p @ b)"
      by (cases p) auto
    with Cons show ?case by simp
  qed
  then show ?thesis by (simp add: split_once_def)
qed

lemma trim_marked:
  assumes "a \<noteq> []" "b \<noteq> []" "\<not> is_whitespace (hd a)" "\<not> is_whitespace (last b)"
  shows "trim_start (a @ m @ b) = a @ m @ b" "trim_end (a @ m @ b) = a @ m @ b" "trim (a @ m @ b) = a @ m @ b"
proof -
  show s: "trim_start (a @ m @ b) = a @ m @ b"
    using assms by (intro trim_start_hd) simp
  show e: "trim_end (a @ m @ b) = a @ m @ b"
    using assms by (intro trim_end_last) simp
  show "trim (a @ m @ b) = a @ m @ b"
    using s e by (simp add: trim_def)
qed

lemma matches_marked:
  assumes "a \<noteq> []" "b \<noteq> []" "\<not> is_whitespace (hd a)" "\<not> is_whitespace (last b)"
  shows "matches_marked_text a b (a @ m @ b)"
proof -
  have "str_get_to (str_len a) (a @ m @ b) = Some a"
    by (simp add: str_get_to_def is_char_boundary_append str_upto_append)
  moreover have "str_get_from (str_len (a @ m @ b) - str_len b) (a @ m @ b) = Some b"
    using is_char_boundary_append[of "a @ m" b] str_from_append[of "a @ m" b] by (simp add: str_get_from_def)
  ultimately show ?thesis
    using assms unfolding matches_marked_text_def trim_marked(1)[OF assms] Let_def trim_marked(2)[OF assms]
    by (simp add: eq_ignore_ascii_case_def)
qed

fun valid_fragment :: "user_fragment \<Rightarrow> bool" where
  "valid_fragment (AdditionalContext key _) \<longleftrightarrow> 62 \<notin> set key"
| "valid_fragment (InternalModelContext source _) \<longleftrightarrow> is_valid_source source"
| "valid_fragment _ \<longleftrightarrow> True"

lemma additional_context_recognised:
  assumes "62 \<notin> set key"
  shows "additional_context_matches (str ''<external_'' @ (key @ str ''>'' @ v @ str ''</external_'' @ key) @ str ''>'')"
proof -
  have "split_once (str ''>'') (key @ str ''>'' @ (v @ str ''</external_'' @ key @ str ''>''))
      = Some (key, v @ str ''</external_'' @ key @ str ''>'')"
    using assms by (intro split_once_first) (simp_all add: str_def)
  moreover have "trim (str ''<external_'' @ (key @ str ''>'' @ v @ str ''</external_'' @ key) @ str ''>'')
      = str ''<external_'' @ key @ str ''>'' @ v @ str ''</external_'' @ key @ str ''>''"
    by (subst trim_marked(3)) (simp_all add: str_def is_whitespace_def)
  ultimately show ?thesis
    by (simp add: additional_context_matches_def suffix_def)
qed

lemma valid_source_no_quote: "is_valid_source source \<Longrightarrow> 34 \<notin> set source"
  by (cases source) (auto simp: is_ascii_lowercase_def is_ascii_digit_def)

lemma internal_model_context_recognised:
  assumes "is_valid_source source"
  shows "internal_model_context_matches (str ''<codex_internal_context'' @
    (source_attr_start @ source @ source_attr_end @ [LF] @ body @ [LF]) @ str ''</codex_internal_context>'')"
proof -
  let ?rest = "[LF] @ body @ [LF] @ str ''</codex_internal_context>''"
  have "split_once source_attr_end (source @ source_attr_end @ ?rest) = Some (source, ?rest)"
    using valid_source_no_quote[OF assms] by (intro split_once_first) simp_all
  moreover have "trim (str ''<codex_internal_context'' @
      (source_attr_start @ source @ source_attr_end @ [LF] @ body @ [LF]) @ str ''</codex_internal_context>'')
    = str ''<codex_internal_context'' @ source_attr_start @ source @ source_attr_end @ ?rest"
    by (subst trim_marked(3)) (simp_all add: str_def is_whitespace_def)
  moreover have "suffix (str ''</codex_internal_context>'') ?rest"
    by (simp add: suffix_def)
  moreover have "strip_prefix source_attr_start (source_attr_start @ u) = Some u" for u
    by (rule strip_prefix_append)
  ultimately show ?thesis
    using assms by (simp add: internal_model_context_matches_def Let_def del: append_assoc append_Cons)
qed

lemma render_eq: "render f = fst (fragment_markers f) @ fragment_body f @ snd (fragment_markers f)"
  by (cases f) (simp_all add: render_def Let_def str_def)

lemma render_standard:
  assumes "valid_fragment f"
  shows "is_standard_contextual_user_text (render f)"
proof (cases f)
  case (UserInstructions d t)
  then have "fragment_markers f = (str ''# AGENTS.md instructions'', str ''</INSTRUCTIONS>'')"
    by simp
  then have "matches_marked_text (str ''# AGENTS.md instructions'') (str ''</INSTRUCTIONS>'') (render f)"
    unfolding render_eq by (simp only: fst_conv snd_conv) (rule matches_marked, simp_all add: str_def is_whitespace_def)
  then show ?thesis by (simp add: is_standard_contextual_user_text_def user_fragment_matchers_def)
next
  case (AdditionalContext key v)
  then have "additional_context_matches (render f)"
    using assms additional_context_recognised[of key "fst (truncate_middle_with_token_budget v 1000)"]
    by (simp add: render_eq)
  then show ?thesis by (simp add: is_standard_contextual_user_text_def user_fragment_matchers_def)
next
  case (TurnAborted g)
  then have "fragment_markers f = (str ''<turn_aborted>'', str ''</turn_aborted>'')"
    by simp
  then have "matches_marked_text (str ''<turn_aborted>'') (str ''</turn_aborted>'') (render f)"
    unfolding render_eq by (simp only: fst_conv snd_conv) (rule matches_marked, simp_all add: str_def is_whitespace_def)
  then show ?thesis by (simp add: is_standard_contextual_user_text_def user_fragment_matchers_def)
next
  case (InternalModelContext source body)
  then have "internal_model_context_matches (render f)"
    using assms internal_model_context_recognised[of source body] by (simp add: render_eq)
  then show ?thesis by (simp add: is_standard_contextual_user_text_def user_fragment_matchers_def)
qed



end
