(* ===== verification/Context_Normalize.thy ===== *)
theory Context_Normalize
  imports Contextual_Text
begin

text \<open>
  \<open>core/src/context_manager/normalize.rs\<close>: the passes that make a recorded conversation acceptable to
  the model, and the removal of the counterpart of a call or output.  \<open>error_or_panic\<close> of
  \<open>core/src/util.rs\<close> panics in builds with debug assertions and only logs otherwise: the passes that use it take
  \<open>debug\<close> and return \<open>None\<close> for the panic.  The version 5 UUID of a name is that of a third-party
  library and is the argument \<open>uuid\<close>.
\<close>

section \<open>Calls without outputs\<close>

fun function_output_id :: "'j response_item \<Rightarrow> rstr option" where
  "function_output_id (FunctionCallOutput _ call_id _ _ _ _) = call_id"
| "function_output_id _ = None"

fun tool_search_output_id :: "'j response_item \<Rightarrow> rstr option" where
  "tool_search_output_id (ToolSearchOutput _ call_id _ _ _ _) = call_id"
| "tool_search_output_id _ = None"

fun custom_tool_output_id :: "'j response_item \<Rightarrow> rstr option" where
  "custom_tool_output_id (CustomToolCallOutput _ call_id _ _ _) = Some call_id"
| "custom_tool_output_id _ = None"

text \<open>The hash sets the passes fill in their first loop.\<close>

definition ids_of :: "('j response_item \<Rightarrow> rstr option) \<Rightarrow> 'j envelope list \<Rightarrow> rstr set" where
  "ids_of f items = set (List.map_filter (\<lambda>e. f (envelope_item e)) items)"

definition synthetic_output_id :: "(rstr \<Rightarrow> rstr) \<Rightarrow> rstr \<Rightarrow> rstr option \<Rightarrow> response_item_id option" where
  "synthetic_output_id uuid pre item_id =
     (case item_id of
        None \<Rightarrow> None
      | Some source_id \<Rightarrow>
          if source_id = [] then None
          else Some (pre @ str ''_'' @ uuid (pre @ str '':'' @ source_id)))"

definition aborted_output :: "(rstr \<Rightarrow> rstr) \<Rightarrow> rstr option \<Rightarrow> rstr \<Rightarrow> 'j envelope" where
  "aborted_output uuid i call_id =
     envelope_new (FunctionCallOutput (synthetic_output_id uuid (str ''fco'') i) (Some call_id) None None
       (payload_from_text (str ''aborted'')) None)"

text \<open>
  One step of the second loop: \<open>None\<close> is the panic, \<open>Some None\<close> a call that needs no output.
\<close>

fun missing_output ::
  "bool \<Rightarrow> (rstr \<Rightarrow> rstr) \<Rightarrow> rstr set \<Rightarrow> rstr set \<Rightarrow> rstr set \<Rightarrow> 'j response_item \<Rightarrow> 'j envelope option option" where
  "missing_output debug uuid fs ts cs (FunctionCall i _ _ _ _ call_id _) =
     Some (if call_id \<in> fs then None else Some (aborted_output uuid i call_id))"
| "missing_output debug uuid fs ts cs (ToolSearchCall i (Some call_id) _ _ _ _) =
     Some (if call_id \<in> ts then None
           else Some (envelope_new (ToolSearchOutput (synthetic_output_id uuid (str ''tso'') i) (Some call_id)
                  (str ''completed'') (str ''client'') [] None)))"
| "missing_output debug uuid fs ts cs (CustomToolCall i _ call_id _ _ _ _) =
     (if call_id \<in> cs then Some None
      else if debug then None
      else Some (Some (envelope_new (CustomToolCallOutput (synthetic_output_id uuid (str ''ctco'') i) call_id None
             (payload_from_text (str ''aborted'')) None))))"
| "missing_output debug uuid fs ts cs (LocalShellCall i (Some call_id) _ _ _) =
     (if call_id \<in> fs then Some None
      else if debug then None
      else Some (Some (aborted_output uuid i call_id)))"
| "missing_output debug uuid fs ts cs _ = Some None"

fun collect_missing :: "('a \<Rightarrow> 'a option option) \<Rightarrow> nat \<Rightarrow> 'a list \<Rightarrow> (nat \<times> 'a) list option" where
  "collect_missing f idx [] = Some []"
| "collect_missing f idx (e # es) =
     (case f e of
        None \<Rightarrow> None
      | Some None \<Rightarrow> collect_missing f (Suc idx) es
      | Some (Some e') \<Rightarrow> map_option ((#) (idx, e')) (collect_missing f (Suc idx) es))"

text \<open>\<open>Vec::insert\<close> panics beyond the end.\<close>

definition insert_missing :: "(nat \<times> 'a) list \<Rightarrow> 'a list \<Rightarrow> 'a list option" where
  "insert_missing missing items =
     foldl (\<lambda>acc (idx, e). Option.bind acc (vec_insert (Suc idx) e)) (Some items) (rev missing)"

definition ensure_call_outputs_present ::
  "bool \<Rightarrow> (rstr \<Rightarrow> rstr) \<Rightarrow> 'j envelope list \<Rightarrow> 'j envelope list option" where
  "ensure_call_outputs_present debug uuid items =
     (let fs = ids_of function_output_id items;
          ts = ids_of tool_search_output_id items;
          cs = ids_of custom_tool_output_id items
      in Option.bind (collect_missing (\<lambda>e. missing_output debug uuid fs ts cs (envelope_item e)) 0 items)
           (\<lambda>missing. insert_missing missing items))"

section \<open>Outputs without calls\<close>

fun function_call_id :: "'j response_item \<Rightarrow> rstr option" where
  "function_call_id (FunctionCall _ _ _ _ _ call_id _) = Some call_id"
| "function_call_id (LocalShellCall _ call_id _ _ _) = call_id"
| "function_call_id _ = None"

fun tool_search_call_id :: "'j response_item \<Rightarrow> rstr option" where
  "tool_search_call_id (ToolSearchCall _ call_id _ _ _ _) = call_id"
| "tool_search_call_id _ = None"

fun custom_tool_call_id :: "'j response_item \<Rightarrow> rstr option" where
  "custom_tool_call_id (CustomToolCall _ _ call_id _ _ _ _) = Some call_id"
| "custom_tool_call_id _ = None"

fun is_orphan :: "rstr set \<Rightarrow> rstr set \<Rightarrow> rstr set \<Rightarrow> 'j response_item \<Rightarrow> bool" where
  "is_orphan fs ts cs (FunctionCallOutput _ (Some call_id) _ _ _ _) \<longleftrightarrow> call_id \<notin> fs"
| "is_orphan fs ts cs (CustomToolCallOutput _ call_id _ _ _) \<longleftrightarrow> call_id \<notin> cs"
| "is_orphan fs ts cs (ToolSearchOutput _ (Some call_id) _ execution _ _) \<longleftrightarrow>
     execution \<noteq> str ''server'' \<and> call_id \<notin> ts"
| "is_orphan fs ts cs _ \<longleftrightarrow> False"

fun orphan_positions :: "bool \<Rightarrow> ('a \<Rightarrow> bool) \<Rightarrow> nat \<Rightarrow> 'a list \<Rightarrow> nat list option" where
  "orphan_positions debug orphan idx [] = Some []"
| "orphan_positions debug orphan idx (e # es) =
     (if orphan e
      then if debug then None else map_option ((#) idx) (orphan_positions debug orphan (Suc idx) es)
      else orphan_positions debug orphan (Suc idx) es)"

text \<open>The closure of \<open>retain\<close>, with the peeked positions and the counter as its state.\<close>

fun retain_positions :: "nat list \<Rightarrow> nat \<Rightarrow> 'a list \<Rightarrow> 'a list" where
  "retain_positions ps idx [] = []"
| "retain_positions ps idx (e # es) =
     (case ps of
        p # ps' \<Rightarrow> if p = idx then retain_positions ps' (Suc idx) es
                  else e # retain_positions ps (Suc idx) es
      | [] \<Rightarrow> e # retain_positions [] (Suc idx) es)"

definition remove_orphan_outputs :: "bool \<Rightarrow> 'j envelope list \<Rightarrow> 'j envelope list option" where
  "remove_orphan_outputs debug items =
     (let fs = ids_of function_call_id items;
          ts = ids_of tool_search_call_id items;
          cs = ids_of custom_tool_call_id items
      in map_option (\<lambda>ps. if ps = [] then items else retain_positions ps 0 items)
           (orphan_positions debug (\<lambda>e. is_orphan fs ts cs (envelope_item e)) 0 items))"

section \<open>The counterpart of an item\<close>

definition remove_first_matching :: "('j response_item \<Rightarrow> bool) \<Rightarrow> 'j envelope list \<Rightarrow> 'j envelope list" where
  "remove_first_matching predicate items =
     (case position (\<lambda>e. predicate (envelope_item e)) items of
        Some pos \<Rightarrow> take pos items @ drop (Suc pos) items
      | None \<Rightarrow> items)"

fun is_function_call_of :: "rstr \<Rightarrow> 'j response_item \<Rightarrow> bool" where
  "is_function_call_of call_id (FunctionCall _ _ _ _ _ existing _) \<longleftrightarrow> existing = call_id"
| "is_function_call_of call_id _ \<longleftrightarrow> False"

fun is_local_shell_call_of :: "rstr \<Rightarrow> 'j response_item \<Rightarrow> bool" where
  "is_local_shell_call_of call_id (LocalShellCall _ existing _ _ _) \<longleftrightarrow> existing = Some call_id"
| "is_local_shell_call_of call_id _ \<longleftrightarrow> False"

fun remove_corresponding_for :: "'j response_item \<Rightarrow> 'j envelope list \<Rightarrow> 'j envelope list" where
  "remove_corresponding_for (FunctionCall _ _ _ _ _ call_id _) items =
     remove_first_matching (\<lambda>i. function_output_id i = Some call_id) items"
| "remove_corresponding_for (FunctionCallOutput _ (Some call_id) _ _ _ _) items =
     (case position (\<lambda>e. is_function_call_of call_id (envelope_item e)) items of
        Some pos \<Rightarrow> take pos items @ drop (Suc pos) items
      | None \<Rightarrow>
          (case position (\<lambda>e. is_local_shell_call_of call_id (envelope_item e)) items of
             Some pos \<Rightarrow> take pos items @ drop (Suc pos) items
           | None \<Rightarrow> items))"
| "remove_corresponding_for (ToolSearchCall _ (Some call_id) _ _ _ _) items =
     remove_first_matching (\<lambda>i. tool_search_output_id i = Some call_id) items"
| "remove_corresponding_for (ToolSearchOutput _ (Some call_id) _ _ _ _) items =
     remove_first_matching (\<lambda>i. tool_search_call_id i = Some call_id) items"
| "remove_corresponding_for (CustomToolCall _ _ call_id _ _ _ _) items =
     remove_first_matching (\<lambda>i. custom_tool_output_id i = Some call_id) items"
| "remove_corresponding_for (CustomToolCallOutput _ call_id _ _ _) items =
     remove_first_matching (\<lambda>i. custom_tool_call_id i = Some call_id) items"
| "remove_corresponding_for (LocalShellCall _ (Some call_id) _ _ _) items =
     remove_first_matching (\<lambda>i. function_output_id i = Some call_id) items"
| "remove_corresponding_for _ items = items"

section \<open>Unsupported media\<close>

datatype input_modality = ModalityText | ModalityImage | ModalityAudio

definition unsupported_image_text :: rstr where
  "unsupported_image_text = str ''image content omitted because you do not support image input''"

definition unsupported_audio_text :: rstr where
  "unsupported_audio_text = str ''audio content omitted because you do not support audio input''"

definition unsupported_image :: annotated_content where
  "unsupported_image = annotated_input_text unsupported_image_text (str ''images.unsupported'')"

definition unsupported_audio :: annotated_content where
  "unsupported_audio = annotated_input_text unsupported_audio_text (str ''audio.unsupported'')"

fun is_input_image :: "content_item \<Rightarrow> bool" where
  "is_input_image (InputImage _ _) = True"
| "is_input_image _ = False"

fun is_input_audio :: "content_item \<Rightarrow> bool" where
  "is_input_audio (InputAudio _) = True"
| "is_input_audio _ = False"

fun is_fn_image :: "fn_content_item \<Rightarrow> bool" where
  "is_fn_image (FnInputImage _ _) = True"
| "is_fn_image _ = False"

definition strip_message ::
  "(content_item \<Rightarrow> bool) \<Rightarrow> annotated_content \<Rightarrow> 'j response_item \<Rightarrow> 'j response_item" where
  "strip_message unsupported placeholder item =
     (case to_annotated_content item of
        (item', None) \<Rightarrow> item'
      | (item', Some content) \<Rightarrow>
          fst (set_annotated_content item'
            (map (\<lambda>c. if unsupported (annotated_item c) then placeholder else c) content)))"

definition strip_payload ::
  "(fn_content_item \<Rightarrow> bool) \<Rightarrow> rstr \<Rightarrow> function_call_output_payload \<Rightarrow> function_call_output_payload" where
  "strip_payload unsupported placeholder output =
     (case payload_body output of
        Text _ \<Rightarrow> output
      | ContentItems items \<Rightarrow>
          output\<lparr>payload_body := ContentItems (map (\<lambda>c. if unsupported c then FnInputText placeholder else c) items)\<rparr>)"

fun strip_image_item :: "'j response_item \<Rightarrow> 'j response_item" where
  "strip_image_item (Message i role content phase m) =
     strip_message is_input_image unsupported_image (Message i role content phase m)"
| "strip_image_item (FunctionCallOutput i call_id name ns output m) =
     FunctionCallOutput i call_id name ns (strip_payload is_fn_image unsupported_image_text output) m"
| "strip_image_item (CustomToolCallOutput i call_id name output m) =
     CustomToolCallOutput i call_id name (strip_payload is_fn_image unsupported_image_text output) m"
| "strip_image_item (ImageGenerationCall i status revised_prompt result m) =
     ImageGenerationCall i status revised_prompt [] m"
| "strip_image_item item = item"

fun strip_audio_item :: "'j response_item \<Rightarrow> 'j response_item" where
  "strip_audio_item (Message i role content phase m) =
     strip_message is_input_audio unsupported_audio (Message i role content phase m)"
| "strip_audio_item (FunctionCallOutput i call_id name ns output m) =
     FunctionCallOutput i call_id name ns (strip_payload is_audio_item unsupported_audio_text output) m"
| "strip_audio_item (CustomToolCallOutput i call_id name output m) =
     CustomToolCallOutput i call_id name (strip_payload is_audio_item unsupported_audio_text output) m"
| "strip_audio_item item = item"

definition map_item :: "('j response_item \<Rightarrow> 'j response_item) \<Rightarrow> 'j envelope \<Rightarrow> 'j envelope" where
  "map_item f e = e\<lparr>envelope_item := f (envelope_item e)\<rparr>"

definition strip_images_when_unsupported :: "input_modality list \<Rightarrow> 'j envelope list \<Rightarrow> 'j envelope list" where
  "strip_images_when_unsupported modalities items =
     (if ModalityImage \<in> set modalities then items else map (map_item strip_image_item) items)"

definition strip_audio_when_unsupported :: "input_modality list \<Rightarrow> 'j envelope list \<Rightarrow> 'j envelope list" where
  "strip_audio_when_unsupported modalities items =
     (if ModalityAudio \<in> set modalities then items else map (map_item strip_audio_item) items)"

text \<open>\<open>ContextManager::normalize_history\<close>.\<close>

definition normalize_history ::
  "bool \<Rightarrow> (rstr \<Rightarrow> rstr) \<Rightarrow> input_modality list \<Rightarrow> 'j envelope list \<Rightarrow> 'j envelope list option" where
  "normalize_history debug uuid modalities items =
     Option.bind (ensure_call_outputs_present debug uuid items) (\<lambda>items.
     Option.bind (remove_orphan_outputs debug items) (\<lambda>items.
     Some (strip_audio_when_unsupported modalities (strip_images_when_unsupported modalities items))))"

section \<open>The passes as list functions\<close>

definition with_missing :: "('a \<Rightarrow> 'a option option) \<Rightarrow> 'a list \<Rightarrow> 'a list" where
  "with_missing f items = concat (map (\<lambda>e. e # (case f e of Some (Some e') \<Rightarrow> [e'] | _ \<Rightarrow> [])) items)"

lemma insert_collected:
  "collect_missing f (length pre) es = Some ms \<Longrightarrow>
   foldl (\<lambda>acc (idx, e). Option.bind acc (vec_insert (Suc idx) e)) (Some (pre @ es)) (rev ms)
     = Some (pre @ with_missing f es)"
proof (induction es arbitrary: pre ms)
  case (Cons e es)
  from Cons.prems obtain ms' where ms': "collect_missing f (length (pre @ [e])) es = Some ms'"
    and ms: "ms = (case f e of Some (Some e') \<Rightarrow> (length pre, e') # ms' | _ \<Rightarrow> ms')" and f: "f e \<noteq> None"
    by (auto split: option.splits)
  show ?case
    using Cons.IH[OF ms'] f by (auto simp: ms with_missing_def vec_insert_def split: option.splits)
qed (simp add: with_missing_def)

lemma insert_missing_eq: "collect_missing f 0 es = Some ms \<Longrightarrow> insert_missing ms es = Some (with_missing f es)"
  using insert_collected[of f "[]" es ms] by (simp add: insert_missing_def)

lemma collect_missing_Some:
  "(\<And>e. e \<in> set es \<Longrightarrow> f e \<noteq> None) \<Longrightarrow> \<exists>ms. collect_missing f idx es = Some ms"
proof (induction es arbitrary: idx)
  case (Cons e es)
  then obtain ms where "collect_missing f (Suc idx) es = Some ms"
    by (metis list.set_intros(2))
  moreover have "f e \<noteq> None"
    using Cons.prems by simp
  ultimately show ?case by (auto split: option.splits)
qed simp

lemma orphan_positions_ge: "orphan_positions debug orphan idx es = Some ps \<Longrightarrow> p \<in> set ps \<Longrightarrow> idx \<le> p"
  by (induction es arbitrary: idx ps) (auto split: if_splits dest: Suc_leD, (metis Suc_leD)+)

lemma retain_orphan_positions:
  "orphan_positions debug orphan idx es = Some ps \<Longrightarrow> retain_positions ps idx es = filter (\<lambda>e. \<not> orphan e) es"
proof (induction es arbitrary: idx ps)
  case (Cons e es)
  show ?case
  proof (cases "orphan e")
    case True
    with Cons show ?thesis by (auto split: if_splits)
  next
    case False
    with Cons.prems have ps: "orphan_positions debug orphan (Suc idx) es = Some ps"
      by simp
    from orphan_positions_ge[OF this] have "ps = [] \<or> hd ps \<noteq> idx"
      by (cases ps) fastforce+
    with Cons.IH[OF ps] False show ?thesis by (cases ps) auto
  qed
qed simp

lemma orphan_positions_release: "\<exists>ps. orphan_positions False orphan idx es = Some ps"
  by (induction es arbitrary: idx) auto

lemma missing_output_release: "missing_output False uuid fs ts cs i \<noteq> None"
  by (cases "(False, uuid, fs, ts, cs, i)" rule: missing_output.cases) auto

definition missing_of :: "(rstr \<Rightarrow> rstr) \<Rightarrow> 'j envelope list \<Rightarrow> 'j envelope \<Rightarrow> 'j envelope option option" where
  "missing_of uuid items e =
     missing_output False uuid (ids_of function_output_id items) (ids_of tool_search_output_id items)
       (ids_of custom_tool_output_id items) (envelope_item e)"

definition orphan_of :: "'j envelope list \<Rightarrow> 'j envelope \<Rightarrow> bool" where
  "orphan_of items e =
     is_orphan (ids_of function_call_id items) (ids_of tool_search_call_id items)
       (ids_of custom_tool_call_id items) (envelope_item e)"

lemma ensure_release:
  "ensure_call_outputs_present False uuid items = Some (with_missing (missing_of uuid items) items)"
proof -
  obtain ms where ms: "collect_missing (missing_of uuid items) 0 items = Some ms"
    using collect_missing_Some[of items "missing_of uuid items" 0]
    by (auto simp: missing_of_def missing_output_release)
  then show ?thesis
    unfolding ensure_call_outputs_present_def missing_of_def[symmetric] Let_def by (simp add: insert_missing_eq)
qed

lemma remove_orphans_release: "remove_orphan_outputs False items = Some (filter (\<lambda>e. \<not> orphan_of items e) items)"
proof -
  obtain ps where ps: "orphan_positions False (orphan_of items) 0 items = Some ps"
    using orphan_positions_release by blast
  have "retain_positions [] k es = es" for k and es :: "'a envelope list"
    by (induction es arbitrary: k) simp_all
  then have "ps = [] \<Longrightarrow> filter (\<lambda>e. \<not> orphan_of items e) items = items"
    using retain_orphan_positions[OF ps] by simp
  with ps retain_orphan_positions[OF ps] show ?thesis
    unfolding remove_orphan_outputs_def orphan_of_def[symmetric] Let_def by auto
qed

section \<open>Pairing of calls and outputs\<close>

definition answered ::
  "('j response_item \<Rightarrow> rstr option) \<Rightarrow> ('j response_item \<Rightarrow> rstr option) \<Rightarrow> 'j envelope list \<Rightarrow> bool" where
  "answered call reply items \<longleftrightarrow> ids_of call items \<subseteq> ids_of reply items"

definition called ::
  "('j response_item \<Rightarrow> rstr option) \<Rightarrow> ('j response_item \<Rightarrow> rstr option) \<Rightarrow> ('j response_item \<Rightarrow> bool)
     \<Rightarrow> 'j envelope list \<Rightarrow> bool" where
  "called call reply external items \<longleftrightarrow>
     (\<forall>e \<in> set items. \<forall>c. reply (envelope_item e) = Some c \<longrightarrow>
        external (envelope_item e) \<or> c \<in> ids_of call items)"

lemma in_ids_of: "c \<in> ids_of f items \<longleftrightarrow> (\<exists>e \<in> set items. f (envelope_item e) = Some c)"
proof -
  have "c \<in> set (List.map_filter g xs) \<longleftrightarrow> (\<exists>x \<in> set xs. g x = Some c)" for g :: "'x \<Rightarrow> rstr option" and xs
    by (induction xs) (auto simp: List.map_filter_simps split: option.splits)
  then show ?thesis unfolding ids_of_def .
qed

lemma in_ids_ofI: "e \<in> set items \<Longrightarrow> f (envelope_item e) = Some c \<Longrightarrow> c \<in> ids_of f items"
  unfolding in_ids_of by blast

lemma in_ids_ofE:
  assumes "c \<in> ids_of f items"
  obtains e where "e \<in> set items" "f (envelope_item e) = Some c"
  using assms unfolding in_ids_of by blast

lemma set_with_missing:
  "e \<in> set (with_missing f items) \<longleftrightarrow>
     e \<in> set items \<or> (\<exists>e' \<in> set items. f e' = Some (Some e))"
  by (induction items) (auto simp: with_missing_def split: option.splits)

text \<open>
  The three kinds of calls share one contract: how the passes treat the call and the output with
  an identifier.  \<open>own\<close> selects the hash set of the kind.
\<close>

locale call_pairing =
  fixes call reply :: "'j response_item \<Rightarrow> rstr option"
    and external :: "'j response_item \<Rightarrow> bool"
    and own :: "rstr set \<Rightarrow> rstr set \<Rightarrow> rstr set \<Rightarrow> rstr set"
    and missing :: "rstr set \<Rightarrow> rstr set \<Rightarrow> rstr set \<Rightarrow> 'j response_item \<Rightarrow> 'j envelope option option"
    and orphan :: "rstr set \<Rightarrow> rstr set \<Rightarrow> rstr set \<Rightarrow> 'j response_item \<Rightarrow> bool"
  assumes missing_answers: "call i = Some c \<Longrightarrow> c \<notin> own fs ts cs \<Longrightarrow>
      \<exists>e. missing fs ts cs i = Some (Some e) \<and> reply (envelope_item e) = Some c"
    and missing_no_call: "missing fs ts cs i = Some (Some e) \<Longrightarrow> call (envelope_item e) = None"
    and orphan_iff: "reply i = Some c \<Longrightarrow> orphan fs ts cs i \<longleftrightarrow> \<not> external i \<and> c \<notin> own fs ts cs"
    and call_not_orphan: "call i = Some c \<Longrightarrow> \<not> orphan fs ts cs i"
begin

lemma calls_with_missing:
  "ids_of call (with_missing (\<lambda>e. missing fs ts cs (envelope_item e)) items) = ids_of call items"
proof (intro set_eqI iffI)
  fix c
  assume "c \<in> ids_of call (with_missing (\<lambda>e. missing fs ts cs (envelope_item e)) items)"
  then obtain e where e: "e \<in> set (with_missing (\<lambda>e. missing fs ts cs (envelope_item e)) items)"
    and c: "call (envelope_item e) = Some c"
    by (rule in_ids_ofE)
  have "missing fs ts cs (envelope_item e') \<noteq> Some (Some e)" for e'
    using missing_no_call[of fs ts cs "envelope_item e'" e] c by auto
  with e have "e \<in> set items"
    unfolding set_with_missing by blast
  then show "c \<in> ids_of call items"
    using c by (rule in_ids_ofI)
next
  fix c
  assume "c \<in> ids_of call items"
  then obtain e where "e \<in> set items" "call (envelope_item e) = Some c"
    by (rule in_ids_ofE)
  then show "c \<in> ids_of call (with_missing (\<lambda>e. missing fs ts cs (envelope_item e)) items)"
    by (intro in_ids_ofI[of e]) (simp_all add: set_with_missing)
qed

lemma answered_with_missing:
  assumes "own fs ts cs = ids_of reply items"
  shows "answered call reply (with_missing (\<lambda>e. missing fs ts cs (envelope_item e)) items)"
  unfolding answered_def calls_with_missing
proof
  fix c
  assume "c \<in> ids_of call items"
  then obtain e where e: "e \<in> set items" "call (envelope_item e) = Some c"
    by (rule in_ids_ofE)
  show "c \<in> ids_of reply (with_missing (\<lambda>e. missing fs ts cs (envelope_item e)) items)"
  proof (cases "c \<in> own fs ts cs")
    case True
    then obtain e' where "e' \<in> set items" "reply (envelope_item e') = Some c"
      unfolding assms by (rule in_ids_ofE)
    then show ?thesis by (intro in_ids_ofI[of e']) (simp_all add: set_with_missing)
  next
    case False
    from missing_answers[OF e(2) this] obtain e' where "missing fs ts cs (envelope_item e) = Some (Some e')"
      "reply (envelope_item e') = Some c"
      by blast
    with e(1) show ?thesis by (intro in_ids_ofI[of e']) (auto simp: set_with_missing)
  qed
qed

lemma calls_without_orphans:
  "ids_of call (filter (\<lambda>e. \<not> orphan fs ts cs (envelope_item e)) items) = ids_of call items"
  unfolding set_eq_iff in_ids_of using call_not_orphan by fastforce

lemma answered_without_orphans:
  assumes "own fs ts cs = ids_of call items" "answered call reply items"
  shows "answered call reply (filter (\<lambda>e. \<not> orphan fs ts cs (envelope_item e)) items)"
  unfolding answered_def calls_without_orphans
proof
  fix c
  assume c: "c \<in> ids_of call items"
  then have "c \<in> ids_of reply items"
    using assms(2) unfolding answered_def by blast
  then obtain e where e: "e \<in> set items" "reply (envelope_item e) = Some c"
    by (rule in_ids_ofE)
  with c assms(1) have "\<not> orphan fs ts cs (envelope_item e)"
    by (simp add: orphan_iff)
  with e show "c \<in> ids_of reply (filter (\<lambda>e. \<not> orphan fs ts cs (envelope_item e)) items)"
    by (intro in_ids_ofI[of e]) simp_all
qed

lemma called_without_orphans:
  assumes "own fs ts cs = ids_of call items"
  shows "called call reply external (filter (\<lambda>e. \<not> orphan fs ts cs (envelope_item e)) items)"
  unfolding called_def calls_without_orphans by (auto simp: orphan_iff assms)

end

fun server_executed :: "'j response_item \<Rightarrow> bool" where
  "server_executed (ToolSearchOutput _ _ _ execution _ _) \<longleftrightarrow> execution = str ''server''"
| "server_executed _ \<longleftrightarrow> False"

interpretation function_pair: call_pairing function_call_id function_output_id "\<lambda>_. False" "\<lambda>fs ts cs. fs"
    "missing_output False uuid" is_orphan for uuid
proof
  fix fs ts cs :: "rstr set" and i :: "'a response_item" and c e
  show "function_call_id i = Some c \<Longrightarrow> c \<notin> fs \<Longrightarrow>
      \<exists>e. missing_output False uuid fs ts cs i = Some (Some e) \<and> function_output_id (envelope_item e) = Some c"
    by (cases i) (auto simp: aborted_output_def envelope_new_def)
  show "missing_output False uuid fs ts cs i = Some (Some e) \<Longrightarrow> function_call_id (envelope_item e) = None"
    by (cases "(False, uuid, fs, ts, cs, i)" rule: missing_output.cases)
      (auto simp: aborted_output_def envelope_new_def split: if_splits)
  show "function_output_id i = Some c \<Longrightarrow> is_orphan fs ts cs i \<longleftrightarrow> \<not> False \<and> c \<notin> fs"
    by (cases i) auto
  show "function_call_id i = Some c \<Longrightarrow> \<not> is_orphan fs ts cs i"
    by (cases i) auto
qed

interpretation search_pair: call_pairing tool_search_call_id tool_search_output_id server_executed "\<lambda>fs ts cs. ts"
    "missing_output False uuid" is_orphan for uuid
proof
  fix fs ts cs :: "rstr set" and i :: "'a response_item" and c e
  show "tool_search_call_id i = Some c \<Longrightarrow> c \<notin> ts \<Longrightarrow>
      \<exists>e. missing_output False uuid fs ts cs i = Some (Some e) \<and> tool_search_output_id (envelope_item e) = Some c"
    by (cases i) (auto simp: envelope_new_def)
  show "missing_output False uuid fs ts cs i = Some (Some e) \<Longrightarrow> tool_search_call_id (envelope_item e) = None"
    by (cases "(False, uuid, fs, ts, cs, i)" rule: missing_output.cases)
      (auto simp: aborted_output_def envelope_new_def split: if_splits)
  show "tool_search_output_id i = Some c \<Longrightarrow> is_orphan fs ts cs i \<longleftrightarrow> \<not> server_executed i \<and> c \<notin> ts"
    by (cases i) auto
  show "tool_search_call_id i = Some c \<Longrightarrow> \<not> is_orphan fs ts cs i"
    by (cases i) auto
qed

interpretation custom_pair: call_pairing custom_tool_call_id custom_tool_output_id "\<lambda>_. False" "\<lambda>fs ts cs. cs"
    "missing_output False uuid" is_orphan for uuid
proof
  fix fs ts cs :: "rstr set" and i :: "'a response_item" and c e
  show "custom_tool_call_id i = Some c \<Longrightarrow> c \<notin> cs \<Longrightarrow>
      \<exists>e. missing_output False uuid fs ts cs i = Some (Some e) \<and> custom_tool_output_id (envelope_item e) = Some c"
    by (cases i) (auto simp: envelope_new_def)
  show "missing_output False uuid fs ts cs i = Some (Some e) \<Longrightarrow> custom_tool_call_id (envelope_item e) = None"
    by (cases "(False, uuid, fs, ts, cs, i)" rule: missing_output.cases)
      (auto simp: aborted_output_def envelope_new_def split: if_splits)
  show "custom_tool_output_id i = Some c \<Longrightarrow> is_orphan fs ts cs i \<longleftrightarrow> \<not> False \<and> c \<notin> cs"
    by (cases i) auto
  show "custom_tool_call_id i = Some c \<Longrightarrow> \<not> is_orphan fs ts cs i"
    by (cases i) auto
qed

text \<open>The invariant of \<open>normalize_history\<close>: every call is answered and every output was called for.\<close>

definition paired :: "'j envelope list \<Rightarrow> bool" where
  "paired items \<longleftrightarrow>
     answered function_call_id function_output_id items
     \<and> answered tool_search_call_id tool_search_output_id items
     \<and> answered custom_tool_call_id custom_tool_output_id items
     \<and> called function_call_id function_output_id (\<lambda>_. False) items
     \<and> called tool_search_call_id tool_search_output_id server_executed items
     \<and> called custom_tool_call_id custom_tool_output_id (\<lambda>_. False) items"

lemma paired_passes:
  fixes items :: "'j envelope list" and uuid
  defines "full \<equiv> with_missing (missing_of uuid items) items"
  shows "paired (filter (\<lambda>e. \<not> orphan_of full e) full)"
proof -
  have "answered function_call_id function_output_id full"
    unfolding full_def missing_of_def by (rule function_pair.answered_with_missing) simp
  moreover have "answered tool_search_call_id tool_search_output_id full"
    unfolding full_def missing_of_def by (rule search_pair.answered_with_missing) simp
  moreover have "answered custom_tool_call_id custom_tool_output_id full"
    unfolding full_def missing_of_def by (rule custom_pair.answered_with_missing) simp
  ultimately show ?thesis
    unfolding paired_def orphan_of_def
    by (intro conjI function_pair.answered_without_orphans search_pair.answered_without_orphans
        custom_pair.answered_without_orphans function_pair.called_without_orphans
        search_pair.called_without_orphans custom_pair.called_without_orphans) simp_all
qed

section \<open>Stripped media\<close>

fun payload_items :: "function_call_output_body \<Rightarrow> fn_content_item list" where
  "payload_items (Text _) = []"
| "payload_items (ContentItems items) = items"

fun has_image :: "'j response_item \<Rightarrow> bool" where
  "has_image (Message _ _ content _ _) \<longleftrightarrow> (\<exists>c \<in> set content. is_input_image c)"
| "has_image (FunctionCallOutput _ _ _ _ p _) \<longleftrightarrow> (\<exists>c \<in> set (payload_items (payload_body p)). is_fn_image c)"
| "has_image (CustomToolCallOutput _ _ _ p _) \<longleftrightarrow> (\<exists>c \<in> set (payload_items (payload_body p)). is_fn_image c)"
| "has_image (ImageGenerationCall _ _ _ result _) \<longleftrightarrow> result \<noteq> []"
| "has_image _ \<longleftrightarrow> False"

fun has_audio :: "'j response_item \<Rightarrow> bool" where
  "has_audio (Message _ _ content _ _) \<longleftrightarrow> (\<exists>c \<in> set content. is_input_audio c)"
| "has_audio (FunctionCallOutput _ _ _ _ p _) \<longleftrightarrow> (\<exists>c \<in> set (payload_items (payload_body p)). is_audio_item c)"
| "has_audio (CustomToolCallOutput _ _ _ p _) \<longleftrightarrow> (\<exists>c \<in> set (payload_items (payload_body p)). is_audio_item c)"
| "has_audio _ \<longleftrightarrow> False"

definition media_supported :: "input_modality list \<Rightarrow> 'j envelope list \<Rightarrow> bool" where
  "media_supported modalities items \<longleftrightarrow>
     (\<forall>e \<in> set items. (has_image (envelope_item e) \<longrightarrow> ModalityImage \<in> set modalities)
        \<and> (has_audio (envelope_item e) \<longrightarrow> ModalityAudio \<in> set modalities))"

text \<open>A message whose classifications are complete.\<close>

fun fully_annotated :: "'j response_item \<Rightarrow> bool" where
  "fully_annotated (Message _ _ content _ metadata) \<longleftrightarrow>
     (\<exists>m ks. metadata = Some m \<and> content_item_kinds m = Some ks \<and> length ks = length content)"
| "fully_annotated _ \<longleftrightarrow> True"

lemma strip_payload_body:
  "payload_items (payload_body (strip_payload u t p)) = map (\<lambda>c. if u c then FnInputText t else c) (payload_items (payload_body p))"
  by (simp add: strip_payload_def split: function_call_output_body.splits)

lemma strip_payload_id:
  "\<forall>c \<in> set (payload_items (payload_body p)). \<not> u c \<Longrightarrow> strip_payload u t p = p"
  by (cases "payload_body p") (simp_all add: strip_payload_def map_idI)

lemma strip_message_Message:
  obtains m content' ks where "strip_message u ph (Message i role content phase metadata) = Message i role content' phase (Some m)"
    "content' = map (\<lambda>c. if u c then annotated_item ph else c) content"
    "content_item_kinds m = Some ks" "length ks = length content"
proof -
  have len: "length (zip_kinds cs ks) = length cs" for cs ks
    by (metis length_map map_annotated_item_zip_kinds)
  have content: "map (annotated_item \<circ> (\<lambda>c. if u (annotated_item c) then ph else c)) (zip_kinds cs ks)
      = map (\<lambda>c. if u c then annotated_item ph else c) cs" for cs ks
    by (induction cs ks rule: zip_kinds.induct) simp_all
  show thesis
    by (rule that) (auto simp: strip_message_def Let_def content len split: option.splits)
qed

lemma strip_message_id:
  assumes "fully_annotated (Message i role content phase metadata)" "\<forall>c \<in> set content. \<not> u c"
  shows "strip_message u ph (Message i role content phase metadata) = Message i role content phase metadata"
proof -
  from assms(1) obtain m ks where m: "metadata = Some m" "content_item_kinds m = Some ks" "length ks = length content"
    by auto
  have "map (\<lambda>c. if u (annotated_item c) then ph else c) (zip_kinds content ks) = zip_kinds content ks"
    using assms(2) by (induction content ks rule: zip_kinds.induct) simp_all
  moreover have "map annotated_kind (zip_kinds content ks) = ks"
    using m(3) by (induction content ks rule: zip_kinds.induct) simp_all
  moreover have "m\<lparr>content_item_kinds := Some ks\<rparr> = m"
    using m(2) by (cases m) simp
  ultimately show ?thesis
    using m by (simp add: strip_message_def Let_def del: map_map)
qed

lemma strip_message_facts:
  "has_image (strip_message u ph (Message i role content phase metadata)) \<longleftrightarrow> (\<exists>c \<in> set content. if u c then is_input_image (annotated_item ph) else is_input_image c)"
  "has_audio (strip_message u ph (Message i role content phase metadata)) \<longleftrightarrow> (\<exists>c \<in> set content. if u c then is_input_audio (annotated_item ph) else is_input_audio c)"
  "fully_annotated (strip_message u ph (Message i role content phase metadata))"
  "\<exists>content' m. strip_message u ph (Message i role content phase metadata) = Message i role content' phase (Some m)"
proof -
  obtain m content' ks where r: "strip_message u ph (Message i role content phase metadata) = Message i role content' phase (Some m)"
    and content': "content' = map (\<lambda>c. if u c then annotated_item ph else c) content"
    and m: "content_item_kinds m = Some ks" "length ks = length content"
    by (rule strip_message_Message)
  show "has_image (strip_message u ph (Message i role content phase metadata)) \<longleftrightarrow> (\<exists>c \<in> set content. if u c then is_input_image (annotated_item ph) else is_input_image c)"
    "has_audio (strip_message u ph (Message i role content phase metadata)) \<longleftrightarrow> (\<exists>c \<in> set content. if u c then is_input_audio (annotated_item ph) else is_input_audio c)"
    unfolding r content' by auto
  show "fully_annotated (strip_message u ph (Message i role content phase metadata))"
    unfolding r using m by (simp add: content')
  show "\<exists>content' m. strip_message u ph (Message i role content phase metadata) = Message i role content' phase (Some m)"
    using r by blast
qed

lemma placeholders [simp]:
  "annotated_item unsupported_image = InputText unsupported_image_text"
  "annotated_item unsupported_audio = InputText unsupported_audio_text"
  by (simp_all add: unsupported_image_def unsupported_audio_def annotated_input_text_def)

lemma media_kinds:
  "is_input_audio c \<Longrightarrow> \<not> is_input_image c" "is_audio_item d \<Longrightarrow> \<not> is_fn_image d"
  by (cases c; simp) (cases d; simp)

lemma strip_image_facts:
  "\<not> has_image (strip_image_item i)" "fully_annotated (strip_image_item i)"
  "has_audio (strip_image_item i) \<longleftrightarrow> has_audio i"
  by (cases i; use media_kinds in \<open>fastforce simp: strip_message_facts strip_payload_body split: if_splits\<close>)+

lemma strip_audio_facts:
  "\<not> has_audio (strip_audio_item i)" "fully_annotated (strip_audio_item i)"
  "has_image (strip_audio_item i) \<longleftrightarrow> has_image i"
  by (cases i; use media_kinds in \<open>fastforce simp: strip_message_facts strip_payload_body split: if_splits\<close>)+

lemma strip_image_id: "\<not> has_image i \<Longrightarrow> fully_annotated i \<Longrightarrow> strip_image_item i = i"
  by (cases i) (simp_all add: strip_message_id strip_payload_id del: fully_annotated.simps(1))

lemma strip_audio_id: "\<not> has_audio i \<Longrightarrow> fully_annotated i \<Longrightarrow> strip_audio_item i = i"
  by (cases i) (simp_all add: strip_message_id strip_payload_id del: fully_annotated.simps(1))

section \<open>Normalisation\<close>

definition keeps_ids :: "('j response_item \<Rightarrow> 'j response_item) \<Rightarrow> bool" where
  "keeps_ids f \<longleftrightarrow>
     (\<forall>i. function_call_id (f i) = function_call_id i \<and> function_output_id (f i) = function_output_id i
        \<and> tool_search_call_id (f i) = tool_search_call_id i \<and> tool_search_output_id (f i) = tool_search_output_id i
        \<and> custom_tool_call_id (f i) = custom_tool_call_id i \<and> custom_tool_output_id (f i) = custom_tool_output_id i
        \<and> server_executed (f i) = server_executed i)"

lemma keeps_ids_strip: "keeps_ids strip_image_item" "keeps_ids strip_audio_item"
proof -
  have message: "function_call_id r = None \<and> function_output_id r = None \<and> tool_search_call_id r = None
      \<and> tool_search_output_id r = None \<and> custom_tool_call_id r = None \<and> custom_tool_output_id r = None
      \<and> \<not> server_executed r" if "r = strip_message u ph (Message i role content phase metadata)"
    for r :: "'j response_item" and u ph i role content phase metadata
    using that strip_message_facts(4)[of u ph i role content phase metadata] by auto
  show "keeps_ids (strip_image_item :: 'j response_item \<Rightarrow> 'j response_item)"
    unfolding keeps_ids_def
  proof
    fix i :: "'j response_item"
    show "function_call_id (strip_image_item i) = function_call_id i \<and> function_output_id (strip_image_item i) = function_output_id i
        \<and> tool_search_call_id (strip_image_item i) = tool_search_call_id i
        \<and> tool_search_output_id (strip_image_item i) = tool_search_output_id i
        \<and> custom_tool_call_id (strip_image_item i) = custom_tool_call_id i
        \<and> custom_tool_output_id (strip_image_item i) = custom_tool_output_id i
        \<and> server_executed (strip_image_item i) = server_executed i"
      by (cases i) (simp_all add: message[OF refl])
  qed
  show "keeps_ids (strip_audio_item :: 'j response_item \<Rightarrow> 'j response_item)"
    unfolding keeps_ids_def
  proof
    fix i :: "'j response_item"
    show "function_call_id (strip_audio_item i) = function_call_id i \<and> function_output_id (strip_audio_item i) = function_output_id i
        \<and> tool_search_call_id (strip_audio_item i) = tool_search_call_id i
        \<and> tool_search_output_id (strip_audio_item i) = tool_search_output_id i
        \<and> custom_tool_call_id (strip_audio_item i) = custom_tool_call_id i
        \<and> custom_tool_output_id (strip_audio_item i) = custom_tool_output_id i
        \<and> server_executed (strip_audio_item i) = server_executed i"
      by (cases i) (simp_all add: message[OF refl])
  qed
qed

lemma ids_of_map_item:
  "(\<And>i. g (f i) = g i) \<Longrightarrow> ids_of g (map (map_item f) items) = ids_of g items"
  by (induction items) (simp_all add: ids_of_def List.map_filter_simps map_item_def split: option.splits)

lemma paired_map_item: "keeps_ids f \<Longrightarrow> paired (map (map_item f) items) \<longleftrightarrow> paired items"
  unfolding keeps_ids_def paired_def answered_def called_def
  by (simp add: ids_of_map_item map_item_def)

text \<open>A paired conversation is left alone by the first two passes.\<close>

lemma paired_missing:
  assumes "paired items" "e \<in> set items"
  shows "missing_of uuid items e = Some None"
proof -
  have "ids_of function_call_id items \<subseteq> ids_of function_output_id items"
    "ids_of tool_search_call_id items \<subseteq> ids_of tool_search_output_id items"
    "ids_of custom_tool_call_id items \<subseteq> ids_of custom_tool_output_id items"
    using assms(1) by (simp_all add: paired_def answered_def)
  then have "c \<in> ids_of function_output_id items" if "function_call_id (envelope_item e) = Some c" for c
    using that assms(2) in_ids_ofI[of e items function_call_id c] by blast
  moreover have "c \<in> ids_of tool_search_output_id items" if "tool_search_call_id (envelope_item e) = Some c" for c
    using that assms(2) in_ids_ofI[of e items tool_search_call_id c] \<open>ids_of tool_search_call_id items \<subseteq> _\<close> by blast
  moreover have "c \<in> ids_of custom_tool_output_id items" if "custom_tool_call_id (envelope_item e) = Some c" for c
    using that assms(2) in_ids_ofI[of e items custom_tool_call_id c] \<open>ids_of custom_tool_call_id items \<subseteq> _\<close> by blast
  ultimately show ?thesis
    unfolding missing_of_def
    by (cases "(False, uuid, {} :: rstr set, {} :: rstr set, {} :: rstr set, envelope_item e)" rule: missing_output.cases)
      auto
qed

lemma paired_orphan:
  assumes "paired items" "e \<in> set items"
  shows "\<not> orphan_of items e"
proof -
  have "called function_call_id function_output_id (\<lambda>_. False) items"
    "called tool_search_call_id tool_search_output_id server_executed items"
    "called custom_tool_call_id custom_tool_output_id (\<lambda>_. False) items"
    using assms(1) by (simp_all add: paired_def)
  then have "c \<in> ids_of function_call_id items" if "function_output_id (envelope_item e) = Some c" for c
    using that assms(2) unfolding called_def by blast
  moreover have "server_executed (envelope_item e) \<or> c \<in> ids_of tool_search_call_id items"
    if "tool_search_output_id (envelope_item e) = Some c" for c
    using that assms(2) \<open>called tool_search_call_id _ _ items\<close> unfolding called_def by blast
  moreover have "c \<in> ids_of custom_tool_call_id items" if "custom_tool_output_id (envelope_item e) = Some c" for c
    using that assms(2) \<open>called custom_tool_call_id _ _ items\<close> unfolding called_def by blast
  ultimately show ?thesis
    unfolding orphan_of_def by (cases "envelope_item e") (auto split: option.splits elim!: is_orphan.elims)
qed

definition strip_media :: "input_modality list \<Rightarrow> 'j response_item \<Rightarrow> 'j response_item" where
  "strip_media modalities i =
     (let i' = (if ModalityImage \<in> set modalities then i else strip_image_item i)
      in if ModalityAudio \<in> set modalities then i' else strip_audio_item i')"

lemma strip_media_idem: "strip_media modalities (strip_media modalities i) = strip_media modalities i"
  by (simp add: strip_media_def Let_def strip_image_id strip_audio_id strip_image_facts strip_audio_facts)

lemma strip_media_supported:
  "has_image (strip_media modalities i) \<Longrightarrow> ModalityImage \<in> set modalities"
  "has_audio (strip_media modalities i) \<Longrightarrow> ModalityAudio \<in> set modalities"
  by (auto simp: strip_media_def Let_def strip_image_facts strip_audio_facts split: if_splits)

lemma keeps_ids_strip_media: "keeps_ids (strip_media modalities :: 'j response_item \<Rightarrow> 'j response_item)"
proof -
  have "keeps_ids f \<Longrightarrow> keeps_ids g \<Longrightarrow> keeps_ids (\<lambda>i. f (g i))" for f g :: "'j response_item \<Rightarrow> 'j response_item"
    by (simp add: keeps_ids_def)
  note both = this[OF keeps_ids_strip(2,1)]
  have "keeps_ids (\<lambda>i :: 'j response_item. i)"
    by (simp add: keeps_ids_def)
  with both have "keeps_ids (\<lambda>i :: 'j response_item. strip_media modalities i)"
    unfolding strip_media_def Let_def
    by (cases "ModalityImage \<in> set modalities"; cases "ModalityAudio \<in> set modalities")
      (simp_all add: keeps_ids_strip)
  then show ?thesis .
qed

lemma strip_passes:
  "strip_audio_when_unsupported modalities (strip_images_when_unsupported modalities items)
     = map (map_item (strip_media modalities)) items"
  by (cases "ModalityImage \<in> set modalities"; cases "ModalityAudio \<in> set modalities")
    (simp_all add: strip_audio_when_unsupported_def strip_images_when_unsupported_def strip_media_def map_item_def map_idI)

lemma normalize_release:
  fixes items :: "'j envelope list" and uuid
  defines "full \<equiv> with_missing (missing_of uuid items) items"
  shows "normalize_history False uuid modalities items
    = Some (map (map_item (strip_media modalities)) (filter (\<lambda>e. \<not> orphan_of full e) full))"
  unfolding full_def by (simp add: normalize_history_def ensure_release remove_orphans_release strip_passes)

lemma with_missing_none: "(\<And>e. e \<in> set items \<Longrightarrow> f e = Some None) \<Longrightarrow> with_missing f items = items"
  by (induction items) (simp_all add: with_missing_def)

lemma subseq_with_missing: "subseq items (with_missing f items)"
proof (induction items)
  case (Cons e items)
  then have "subseq items ((case f e of Some (Some e') \<Rightarrow> [e'] | _ \<Rightarrow> []) @ with_missing f items)"
    by (rule list_emb_append2)
  then show ?case by (simp add: with_missing_def)
qed (simp add: with_missing_def)

lemma orphan_of_with_missing: "orphan_of (with_missing (missing_of uuid items) items) = orphan_of items"
  unfolding orphan_of_def missing_of_def
  by (simp add: function_pair.calls_with_missing search_pair.calls_with_missing custom_pair.calls_with_missing)

text \<open>
  C20. \<open>normalize_history\<close> in a release build never panics and delivers what its documentation
  lists: every function, shell, tool-search and custom call has an output, every output has its
  call (or was executed by the server), and no image or audio remains that the model does not support.  Nothing
  else is lost or reordered: the conversation without its orphans is a subsequence of the
  result.  Normalising again changes nothing.
\<close>

theorem normalize_history_correct:
  "\<exists>result. normalize_history False uuid modalities items = Some result
     \<and> paired result \<and> media_supported modalities result
     \<and> subseq (map (map_item (strip_media modalities)) (filter (\<lambda>e. \<not> orphan_of items e) items)) result
     \<and> normalize_history False uuid modalities result = Some result"
proof -
  define full where "full = with_missing (missing_of uuid items) items"
  define kept where "kept = filter (\<lambda>e. \<not> orphan_of full e) full"
  define result where "result = map (map_item (strip_media modalities)) kept"
  have run: "normalize_history False uuid modalities items = Some result"
    unfolding result_def kept_def full_def by (rule normalize_release)
  have paired: "paired result"
    unfolding result_def paired_map_item[OF keeps_ids_strip_media] kept_def full_def by (rule paired_passes)
  have media: "media_supported modalities result"
    unfolding media_supported_def result_def by (auto simp: map_item_def dest: strip_media_supported)
  have sub: "subseq (map (map_item (strip_media modalities)) (filter (\<lambda>e. \<not> orphan_of items e) items)) result"
    unfolding result_def kept_def full_def orphan_of_with_missing
    by (intro subseq_map subseq_filter subseq_with_missing)
  have "with_missing (missing_of uuid result) result = result"
    by (rule with_missing_none) (rule paired_missing[OF paired])
  moreover have "filter (\<lambda>e. \<not> orphan_of result e) result = result"
    using paired_orphan[OF paired] by (simp add: filter_id_conv)
  moreover have "map (map_item (strip_media modalities)) result = result"
    unfolding result_def by (simp add: map_item_def strip_media_idem)
  ultimately have "normalize_history False uuid modalities result = Some result"
    by (simp add: normalize_release)
  with run paired media sub show ?thesis by blast
qed

end
