(* ===== verification/Audio_Input.thy ===== *)
theory Audio_Input
  imports Contextual_Text Utf8_Stream
begin

text \<open>
  \<open>utils/audio/src/lib.rs\<close>: bringing the audio of a conversation into canonical data URLs, replacing what
  cannot be used by a text, and the parts of the token estimate that do not need a decoder.  The base64
  codec is third-party: the record \<open>base64\<close>, whose documented behaviour is \<open>base64_laws\<close>.
\<close>

section \<open>Data URLs\<close>

record base64 =
  base64_decode :: "rstr \<Rightarrow> bytes option"
  base64_encode :: "bytes \<Rightarrow> rstr"

text \<open>Decoding inverts encoding, which takes four characters of one byte for every three bytes begun.\<close>

definition base64_laws :: "base64 \<Rightarrow> bool" where
  "base64_laws b \<longleftrightarrow>
     (\<forall>bs. base64_decode b (base64_encode b bs) = Some bs)
     \<and> (\<forall>bs. str_len (base64_encode b bs) = (length bs + 2) div 3 * 4)"

definition max_prompt_audio_input_bytes :: nat where
  "max_prompt_audio_input_bytes = 50 * 1024 * 1024"

definition max_prompt_audio_base64_bytes :: nat where
  "max_prompt_audio_base64_bytes = (max_prompt_audio_input_bytes + 2) div 3 * 4"

datatype audio_preparation_error =
    InvalidDataUrl rstr
  | UnsupportedFormat
  | AudioTooLarge nat

fun placeholder :: "audio_preparation_error \<Rightarrow> rstr" where
  "placeholder (InvalidDataUrl _) = str ''audio content omitted because it could not be processed''"
| "placeholder UnsupportedFormat =
     str ''audio content omitted because its format is not supported; use wav, mp3, m4a, webm, or ogg''"
| "placeholder (AudioTooLarge _) =
     str ''audio content omitted because it exceeded the supported size limit; use a smaller audio file''"

definition is_data_url :: "rstr \<Rightarrow> bool" where
  "is_data_url audio_url =
     (case str_get_to 5 audio_url of Some p \<Rightarrow> eq_ignore_ascii_case p (str ''data:'') | None \<Rightarrow> False)"

definition canonical_audio_mime :: "rstr \<Rightarrow> rstr option" where
  "canonical_audio_mime mime =
     (if eq_ignore_ascii_case mime (str ''audio/wav'') \<or> eq_ignore_ascii_case mime (str ''audio/x-wav'')
         \<or> eq_ignore_ascii_case mime (str ''audio/wave'') \<or> eq_ignore_ascii_case mime (str ''audio/vnd.wave'')
      then Some (str ''audio/wav'')
      else if eq_ignore_ascii_case mime (str ''audio/mpeg'') \<or> eq_ignore_ascii_case mime (str ''audio/mp3'')
      then Some (str ''audio/mpeg'')
      else if eq_ignore_ascii_case mime (str ''audio/mp4'') \<or> eq_ignore_ascii_case mime (str ''audio/m4a'')
         \<or> eq_ignore_ascii_case mime (str ''audio/x-m4a'')
      then Some (str ''audio/mp4'')
      else if eq_ignore_ascii_case mime (str ''audio/webm'') then Some (str ''audio/webm'')
      else if eq_ignore_ascii_case mime (str ''audio/ogg'') then Some (str ''audio/ogg'')
      else None)"

definition is_base64_part :: "rstr \<Rightarrow> bool" where
  "is_base64_part part = eq_ignore_ascii_case part (str ''base64'')"

definition canonical_url :: "base64 \<Rightarrow> rstr \<Rightarrow> bytes \<Rightarrow> rstr" where
  "canonical_url b mime bs = str ''data:'' @ mime @ str '';base64,'' @ base64_encode b bs"

definition prepare_audio :: "base64 \<Rightarrow> rstr \<Rightarrow> (rstr, audio_preparation_error) result" where
  "prepare_audio b audio_url =
     (if \<not> is_data_url audio_url then Err (InvalidDataUrl (str ''audio input must be a data URL''))
      else case split_once (str '','') audio_url of
        None \<Rightarrow> Err (InvalidDataUrl (str ''missing payload separator''))
      | Some (metadata, payload) \<Rightarrow>
          (case str_get_from 5 metadata of
             None \<Rightarrow> Err (InvalidDataUrl (str ''missing data URL prefix''))
           | Some metadata \<Rightarrow>
               (case split_char 59 metadata of
                  [] \<Rightarrow> Err (InvalidDataUrl (str ''missing media type''))
                | mime # parts \<Rightarrow>
                    if mime = [] then Err (InvalidDataUrl (str ''missing media type''))
                    else case canonical_audio_mime mime of
                      None \<Rightarrow> Err UnsupportedFormat
                    | Some canonical_mime \<Rightarrow>
                        if \<not> (\<exists>part \<in> set parts. is_base64_part part)
                        then Err (InvalidDataUrl (str ''audio payload is not base64 encoded''))
                        else if max_prompt_audio_base64_bytes < str_len payload
                        then Err (AudioTooLarge (str_len payload))
                        else case base64_decode b payload of
                          None \<Rightarrow> Err (InvalidDataUrl (str ''invalid base64 payload''))
                        | Some bs \<Rightarrow>
                            if max_prompt_audio_input_bytes < length bs then Err (AudioTooLarge (length bs))
                            else Ok (canonical_url b canonical_mime bs))))"

fun prepare_content_item :: "base64 \<Rightarrow> content_item \<Rightarrow> content_item" where
  "prepare_content_item b (InputAudio url) =
     (case prepare_audio b url of Inr url' \<Rightarrow> InputAudio url' | Inl e \<Rightarrow> InputText (placeholder e))"
| "prepare_content_item b item = item"

fun prepare_fn_content_item :: "base64 \<Rightarrow> fn_content_item \<Rightarrow> fn_content_item" where
  "prepare_fn_content_item b (FnInputAudio url) =
     (case prepare_audio b url of Inr url' \<Rightarrow> FnInputAudio url' | Inl e \<Rightarrow> FnInputText (placeholder e))"
| "prepare_fn_content_item b item = item"

definition prepare_payload :: "base64 \<Rightarrow> function_call_output_payload \<Rightarrow> function_call_output_payload" where
  "prepare_payload b output =
     (case payload_body output of
        Text _ \<Rightarrow> output
      | ContentItems items \<Rightarrow> output\<lparr>payload_body := ContentItems (map (prepare_fn_content_item b) items)\<rparr>)"

fun prepare_response_item :: "base64 \<Rightarrow> 'j response_item \<Rightarrow> 'j response_item" where
  "prepare_response_item b (Message i role content phase m) =
     Message i role (map (prepare_content_item b) content) phase m"
| "prepare_response_item b (FunctionCallOutput i call_id name ns output m) =
     FunctionCallOutput i call_id name ns (prepare_payload b output) m"
| "prepare_response_item b (CustomToolCallOutput i call_id name output m) =
     CustomToolCallOutput i call_id name (prepare_payload b output) m"
| "prepare_response_item b item = item"

definition prepare_response_items :: "base64 \<Rightarrow> 'j response_item list \<Rightarrow> 'j response_item list" where
  "prepare_response_items b items = map (prepare_response_item b) items"

section \<open>Canonical audio\<close>

lemma canonical_audio_mime_cases:
  "canonical_audio_mime mime = Some m \<Longrightarrow>
     m \<in> {str ''audio/wav'', str ''audio/mpeg'', str ''audio/mp4'', str ''audio/webm'', str ''audio/ogg''}"
  by (auto simp: canonical_audio_mime_def split: if_splits)

lemma canonical_audio_mime_idem:
  assumes "canonical_audio_mime mime = Some m"
  shows "canonical_audio_mime m = Some m" "44 \<notin> set m" "59 \<notin> set m" "m \<noteq> []"
  using canonical_audio_mime_cases[OF assms]
  by (auto simp: canonical_audio_mime_def eq_ignore_ascii_case_def to_ascii_lowercase_def ascii_lower_def str_def)

lemma prepare_audio_OkE:
  assumes "prepare_audio b url = Inr url'"
  obtains mime m bs where "url' = canonical_url b m bs" "canonical_audio_mime mime = Some m"
    "length bs \<le> max_prompt_audio_input_bytes"
  using assms by (auto simp: prepare_audio_def not_less split: if_splits option.splits list.splits prod.splits)

lemma prepare_canonical_url:
  assumes laws: "base64_laws b" and m: "canonical_audio_mime mime = Some m"
    and len: "length bs \<le> max_prompt_audio_input_bytes"
  shows "prepare_audio b (canonical_url b m bs) = Inr (canonical_url b m bs)"
proof -
  note idem = canonical_audio_mime_idem[OF m]
  let ?E = "base64_encode b bs"
  have url: "canonical_url b m bs = str ''data:'' @ m @ str '';base64,'' @ ?E"
    by (simp add: canonical_url_def)
  have five: "str_len (str ''data:'') = 5"
    by (simp add: str_def len_utf8_def)
  have "str_get_to 5 (canonical_url b m bs) = Some (str ''data:'')"
    using str_upto_append[of "str ''data:''"] is_char_boundary_append[of "str ''data:''"]
    by (simp add: url str_get_to_def five)
  then have data: "is_data_url (canonical_url b m bs)"
    by (simp add: is_data_url_def eq_ignore_ascii_case_def)
  have "str '';base64,'' = str '';base64'' @ str '',''"
    by (simp add: str_def)
  then have split: "split_once (str '','') (canonical_url b m bs) = Some (str ''data:'' @ m @ str '';base64'', ?E)"
    using idem(2) split_once_first[of "str '',''" "str ''data:'' @ m @ str '';base64''" ?E]
    by (simp add: url str_def)
  have meta: "str_get_from 5 (str ''data:'' @ m @ str '';base64'') = Some (m @ str '';base64'')"
    using str_from_append[of "str ''data:''"] is_char_boundary_append[of "str ''data:''"]
    by (simp add: str_get_from_def five)
  have "str '';base64'' = 59 # str ''base64''"
    by (simp add: str_def)
  then have parts: "split_char 59 (m @ str '';base64'') = [m, str ''base64'']"
    using split_char_append_sep[OF idem(3), of "str ''base64''"] split_char_no_sep[of 59 "str ''base64''"]
    by (simp add: str_def)
  have "str_len ?E \<le> max_prompt_audio_base64_bytes"
    using laws len by (simp add: base64_laws_def max_prompt_audio_base64_bytes_def div_le_mono)
  moreover have "base64_decode b ?E = Some bs"
    using laws by (simp add: base64_laws_def)
  ultimately show ?thesis
    using data len idem(1,4) by (simp add: prepare_audio_def split meta parts is_base64_part_def eq_ignore_ascii_case_def)
qed

text \<open>
  Preparing a conversation twice changes nothing more: what is left of its audio is canonical.
\<close>

lemma prepare_content_item_idem:
  assumes "base64_laws b"
  shows "prepare_content_item b (prepare_content_item b c) = prepare_content_item b c"
    "prepare_fn_content_item b (prepare_fn_content_item b d) = prepare_fn_content_item b d"
proof -
  have idem: "prepare_audio b url' = Inr url'" if "prepare_audio b url = Inr url'" for url url'
    using that by (metis assms prepare_audio_OkE prepare_canonical_url)
  show "prepare_content_item b (prepare_content_item b c) = prepare_content_item b c"
    "prepare_fn_content_item b (prepare_fn_content_item b d) = prepare_fn_content_item b d"
    by (cases c; auto split: sum.splits dest: idem) (cases d; auto split: sum.splits dest: idem)
qed

lemma prepare_response_items_idem:
  assumes "base64_laws b"
  shows "prepare_response_items b (prepare_response_items b items) = prepare_response_items b items"
proof -
  have "prepare_payload b (prepare_payload b p) = prepare_payload b p" for p
    by (simp add: prepare_payload_def prepare_content_item_idem[OF assms] split: function_call_output_body.splits)
  then have "prepare_response_item b (prepare_response_item b i) = prepare_response_item b i" for i :: "'a response_item"
    by (cases i) (simp_all add: prepare_content_item_idem[OF assms])
  then show ?thesis by (simp add: prepare_response_items_def)
qed

end
