(* ===== verification/Context_Manager.thy ===== *)
theory Context_Manager
  imports Context_Normalize Audio_Input
begin

text \<open>
  \<open>core/src/context_manager/history.rs\<close>: the recorded conversation of a thread, with the token
  accounting of \<open>protocol/src/protocol.rs\<close> it keeps.  The turn context and the world state it stores
  are only moved around here: their types are the parameters \<open>'t\<close> and \<open>'w\<close>.  Third-party code the
  estimates rest on is the record \<open>estimators\<close>: the length of the JSON encoding of an item, the
  size of a decoded image (from its base64 payload), and the tokens of a decoded audio clip of a
  given type, ten per second (the caches of the source return what they were filled with).  Plain \<open>i64\<close> arithmetic wraps, as in a release build.
\<close>

section \<open>Machine integers\<close>

definition i64_min :: int where
  "i64_min = - (2 ^ 63)"

definition wrap_i64 :: "int \<Rightarrow> int" where
  "wrap_i64 x = (x + 2 ^ 63) mod 2 ^ 64 - 2 ^ 63"

definition sat_i64 :: "int \<Rightarrow> int" where
  "sat_i64 x = max i64_min (min i64_max x)"

definition i64_of_usize :: "nat \<Rightarrow> int" where
  "i64_of_usize n = min (int n) i64_max"

section \<open>Token usage\<close>

record 'j token_usage =
  input_tokens :: int
  cached_input_tokens :: int
  cache_write_input_tokens :: int
  output_tokens :: int
  reasoning_output_tokens :: int
  total_tokens :: int
  rollout_budget_units :: "'j option"

definition default_usage :: "'j token_usage" where
  "default_usage = \<lparr>input_tokens = 0, cached_input_tokens = 0, cache_write_input_tokens = 0, output_tokens = 0,
     reasoning_output_tokens = 0, total_tokens = 0, rollout_budget_units = None\<rparr>"

definition usage_add_assign :: "'j token_usage \<Rightarrow> 'j token_usage \<Rightarrow> 'j token_usage" where
  "usage_add_assign a b =
     a\<lparr>input_tokens := wrap_i64 (input_tokens a + input_tokens b),
       cached_input_tokens := wrap_i64 (cached_input_tokens a + cached_input_tokens b),
       cache_write_input_tokens := wrap_i64 (cache_write_input_tokens a + cache_write_input_tokens b),
       output_tokens := wrap_i64 (output_tokens a + output_tokens b),
       reasoning_output_tokens := wrap_i64 (reasoning_output_tokens a + reasoning_output_tokens b),
       total_tokens := wrap_i64 (total_tokens a + total_tokens b)\<rparr>"

record 'j token_usage_info =
  total_token_usage :: "'j token_usage"
  last_token_usage :: "'j token_usage"
  model_context_window :: "int option"

definition append_last_usage :: "'j token_usage_info \<Rightarrow> 'j token_usage \<Rightarrow> 'j token_usage_info" where
  "append_last_usage info usage =
     info\<lparr>total_token_usage := usage_add_assign (total_token_usage info) usage, last_token_usage := usage\<rparr>"

definition new_or_append ::
  "'j token_usage_info option \<Rightarrow> 'j token_usage option \<Rightarrow> int option \<Rightarrow> 'j token_usage_info option" where
  "new_or_append info usage window =
     (if info = None \<and> usage = None then None
      else let i = (case info of
                 Some i \<Rightarrow> i
               | None \<Rightarrow> \<lparr>total_token_usage = default_usage, last_token_usage = default_usage,
                          model_context_window = window\<rparr>);
               i = (case usage of Some u \<Rightarrow> append_last_usage i u | None \<Rightarrow> i);
               i = (case window of Some w \<Rightarrow> i\<lparr>model_context_window := Some w\<rparr> | None \<Rightarrow> i)
           in Some i)"

definition fill_to_context_window :: "int \<Rightarrow> 'j token_usage_info \<Rightarrow> 'j token_usage_info" where
  "fill_to_context_window window info =
     (let previous_total = total_tokens (total_token_usage info);
          delta = max (wrap_i64 (window - previous_total)) 0
      in info\<lparr>model_context_window := Some window,
              total_token_usage := default_usage\<lparr>total_tokens := window\<rparr>,
              last_token_usage := default_usage\<lparr>total_tokens := delta\<rparr>\<rparr>)"

definition full_context_window :: "int \<Rightarrow> 'j token_usage_info" where
  "full_context_window window =
     fill_to_context_window window
       \<lparr>total_token_usage = default_usage, last_token_usage = default_usage, model_context_window = Some window\<rparr>"

section \<open>Estimates\<close>

record 'j estimators =
  serialized_json_bytes :: "'j response_item \<Rightarrow> nat option"
  image_dimensions :: "rstr \<Rightarrow> (nat \<times> nat) option"
  decoded_audio_tokens :: "rstr \<Rightarrow> rstr \<Rightarrow> nat option"

definition estimate_reasoning_length :: "nat \<Rightarrow> nat" where
  "estimate_reasoning_length encoded_len = saturating_mul encoded_len 3 div 4 - 650"

definition estimate_encrypted_function_output_length :: "nat \<Rightarrow> nat" where
  "estimate_encrypted_function_output_length encoded_len = (saturating_mul encoded_len 9 + 15) div 16"

definition parse_base64_data_url :: "rstr \<Rightarrow> rstr \<Rightarrow> rstr option" where
  "parse_base64_data_url url media_type_prefix =
     (if \<not> (case str_get_to 5 url of Some p \<Rightarrow> eq_ignore_ascii_case p (str ''data:'') | None \<Rightarrow> False) then None
      else case split_once (str '','') url of
        None \<Rightarrow> None
      | Some (metadata, payload) \<Rightarrow>
          (case split_char 59 (str_from 5 metadata) of
             [] \<Rightarrow> None
           | mime_type # parts \<Rightarrow>
               let has_base64_marker = (\<exists>part \<in> set parts. eq_ignore_ascii_case part (str ''base64''))
               in if \<not> (case str_get_to (str_len media_type_prefix) mime_type of
                          Some p \<Rightarrow> eq_ignore_ascii_case p media_type_prefix | None \<Rightarrow> False) then None
                  else if \<not> has_base64_marker then None
                  else Some payload))"

definition parse_base64_image_data_url :: "rstr \<Rightarrow> rstr option" where
  "parse_base64_image_data_url url = parse_base64_data_url url (str ''image/'')"

definition parse_base64_audio_data_url :: "rstr \<Rightarrow> rstr option" where
  "parse_base64_audio_data_url url = parse_base64_data_url url (str ''audio/'')"

text \<open>\<open>utils/audio/src/lib.rs\<close>.\<close>

definition decoded_url_tokens :: "'j estimators \<Rightarrow> rstr \<Rightarrow> nat option" where
  "decoded_url_tokens est audio_url =
     Option.bind (split_once (str '','') audio_url) (\<lambda>(metadata, payload).
     Option.bind (str_get_from 5 metadata) (\<lambda>metadata.
     (case split_char 59 metadata of
        [] \<Rightarrow> None
      | mime # parts \<Rightarrow>
          Option.bind (canonical_audio_mime mime) (\<lambda>canonical_mime.
          if \<exists>part \<in> set parts. is_base64_part part
          then decoded_audio_tokens est canonical_mime payload else None))))"

definition estimate_audio_token_count :: "'j estimators \<Rightarrow> rstr \<Rightarrow> nat" where
  "estimate_audio_token_count est audio_url =
     (case decoded_url_tokens est audio_url of
        None \<Rightarrow> approx_token_count audio_url
      | Some token_count \<Rightarrow> min token_count usize_max)"

abbreviation resized_image_bytes_estimate :: int where
  "resized_image_bytes_estimate \<equiv> 7373"

definition estimate_original_image_bytes :: "'j estimators \<Rightarrow> rstr \<Rightarrow> int option" where
  "estimate_original_image_bytes est image_url =
     (case parse_base64_image_data_url image_url of
        None \<Rightarrow> None
      | Some payload \<Rightarrow>
          (case image_dimensions est payload of
             None \<Rightarrow> None
           | Some (width, height) \<Rightarrow>
               let patches_wide = (int width + 31) div 32;
                   patches_high = (int height + 31) div 32;
                   patch_count = min (nat (sat_i64 (patches_wide * patches_high))) 10000
               in Some (i64_of_usize (approx_bytes_for_tokens patch_count))))"

definition estimate_image_bytes :: "'j estimators \<Rightarrow> rstr \<Rightarrow> image_detail option \<Rightarrow> int" where
  "estimate_image_bytes est image_url detail =
     (if detail = Some Original
      then case estimate_original_image_bytes est image_url of
             Some k \<Rightarrow> k | None \<Rightarrow> resized_image_bytes_estimate
      else resized_image_bytes_estimate)"

text \<open>The running totals \<open>(payload_bytes, replacement_bytes)\<close> of the three adjustments.\<close>

definition accumulate :: "int \<Rightarrow> int \<Rightarrow> int \<times> int \<Rightarrow> int \<times> int" where
  "accumulate payload replacement acc = (sat_i64 (fst acc + payload), sat_i64 (snd acc + replacement))"

definition accumulate_image :: "'j estimators \<Rightarrow> rstr \<Rightarrow> image_detail option \<Rightarrow> int \<times> int \<Rightarrow> int \<times> int" where
  "accumulate_image est image_url detail acc =
     (case parse_base64_image_data_url image_url of
        Some payload \<Rightarrow>
          accumulate (i64_of_usize (str_len payload)) (estimate_image_bytes est image_url detail) acc
      | None \<Rightarrow> acc)"

definition accumulate_audio :: "'j estimators \<Rightarrow> rstr \<Rightarrow> int \<times> int \<Rightarrow> int \<times> int" where
  "accumulate_audio est audio_url acc =
     (case parse_base64_audio_data_url audio_url of
        Some payload \<Rightarrow>
          accumulate (i64_of_usize (str_len payload))
            (i64_of_usize (approx_bytes_for_tokens (estimate_audio_token_count est audio_url))) acc
      | None \<Rightarrow> acc)"

definition accumulate_encrypted :: "rstr \<Rightarrow> int \<times> int \<Rightarrow> int \<times> int" where
  "accumulate_encrypted encrypted acc =
     accumulate (i64_of_usize (str_len encrypted))
       (i64_of_usize (estimate_encrypted_function_output_length (str_len encrypted))) acc"

fun message_image :: "'j estimators \<Rightarrow> content_item \<Rightarrow> int \<times> int \<Rightarrow> int \<times> int" where
  "message_image est (InputImage url detail) acc = accumulate_image est url detail acc"
| "message_image est _ acc = acc"

fun output_image :: "'j estimators \<Rightarrow> fn_content_item \<Rightarrow> int \<times> int \<Rightarrow> int \<times> int" where
  "output_image est (FnInputImage url detail) acc = accumulate_image est url detail acc"
| "output_image est _ acc = acc"

fun image_data_url_estimate_adjustment :: "'j estimators \<Rightarrow> 'j response_item \<Rightarrow> int \<times> int" where
  "image_data_url_estimate_adjustment est (Message _ _ content _ _) = fold (message_image est) content (0, 0)"
| "image_data_url_estimate_adjustment est (FunctionCallOutput _ _ _ _ p _) =
     fold (output_image est) (payload_items (payload_body p)) (0, 0)"
| "image_data_url_estimate_adjustment est (CustomToolCallOutput _ _ _ p _) =
     fold (output_image est) (payload_items (payload_body p)) (0, 0)"
| "image_data_url_estimate_adjustment est _ = (0, 0)"

fun message_audio :: "'j estimators \<Rightarrow> content_item \<Rightarrow> int \<times> int \<Rightarrow> int \<times> int" where
  "message_audio est (InputAudio url) acc = accumulate_audio est url acc"
| "message_audio est _ acc = acc"

fun output_audio :: "'j estimators \<Rightarrow> fn_content_item \<Rightarrow> int \<times> int \<Rightarrow> int \<times> int" where
  "output_audio est (FnInputAudio url) acc = accumulate_audio est url acc"
| "output_audio est _ acc = acc"

fun audio_data_url_estimate_adjustment :: "'j estimators \<Rightarrow> 'j response_item \<Rightarrow> int \<times> int" where
  "audio_data_url_estimate_adjustment est (Message _ _ content _ _) = fold (message_audio est) content (0, 0)"
| "audio_data_url_estimate_adjustment est (FunctionCallOutput _ _ _ _ p _) =
     fold (output_audio est) (payload_items (payload_body p)) (0, 0)"
| "audio_data_url_estimate_adjustment est (CustomToolCallOutput _ _ _ p _) =
     fold (output_audio est) (payload_items (payload_body p)) (0, 0)"
| "audio_data_url_estimate_adjustment est _ = (0, 0)"

fun output_encrypted :: "fn_content_item \<Rightarrow> int \<times> int \<Rightarrow> int \<times> int" where
  "output_encrypted (FnEncryptedContent e) acc = accumulate_encrypted e acc"
| "output_encrypted _ acc = acc"

fun agent_encrypted :: "agent_message_input_content \<Rightarrow> int \<times> int \<Rightarrow> int \<times> int" where
  "agent_encrypted (AgentEncryptedContent e) acc = accumulate_encrypted e acc"
| "agent_encrypted _ acc = acc"

fun encrypted_function_output_estimate_adjustment :: "'j response_item \<Rightarrow> int \<times> int" where
  "encrypted_function_output_estimate_adjustment (FunctionCallOutput _ _ _ _ p _) =
     fold output_encrypted (payload_items (payload_body p)) (0, 0)"
| "encrypted_function_output_estimate_adjustment (AgentMessage _ _ _ content _) = fold agent_encrypted content (0, 0)"
| "encrypted_function_output_estimate_adjustment _ = (0, 0)"

fun reasoning_payload :: "'j response_item \<Rightarrow> rstr option" where
  "reasoning_payload (Reasoning _ _ _ encrypted _) = encrypted"
| "reasoning_payload (Compaction _ encrypted _) = Some encrypted"
| "reasoning_payload (ContextCompaction _ encrypted _) = encrypted"
| "reasoning_payload _ = None"

definition estimate_response_item_model_visible_bytes :: "'j estimators \<Rightarrow> 'j response_item \<Rightarrow> int" where
  "estimate_response_item_model_visible_bytes est item =
     (case reasoning_payload item of
        Some content \<Rightarrow> i64_of_usize (estimate_reasoning_length (str_len content))
      | None \<Rightarrow>
          let raw = (case serialized_json_bytes est item of Some len \<Rightarrow> i64_of_usize len | None \<Rightarrow> 0);
              (image_payload, image_replacement) = image_data_url_estimate_adjustment est item;
              (audio_payload, audio_replacement) = audio_data_url_estimate_adjustment est item;
              (encrypted_payload, encrypted_replacement) = encrypted_function_output_estimate_adjustment item;
              raw = sat_i64 (sat_i64 (sat_i64 (sat_i64 (raw - image_payload) + image_replacement) - audio_payload)
                      + audio_replacement)
          in sat_i64 (sat_i64 (raw - encrypted_payload) + encrypted_replacement))"

definition estimate_item_token_count :: "'j estimators \<Rightarrow> 'j response_item \<Rightarrow> int" where
  "estimate_item_token_count est item =
     approx_tokens_from_byte_count_i64 (estimate_response_item_model_visible_bytes est item)"

definition sum_estimates :: "'j estimators \<Rightarrow> 'j envelope list \<Rightarrow> int" where
  "sum_estimates est items =
     foldl (\<lambda>acc e. sat_i64 (acc + estimate_item_token_count est (envelope_item e))) 0 items"

section \<open>The conversation\<close>

record ('j, 't, 'w) context_manager =
  cm_items :: "'j envelope list"
  history_version :: nat
  token_info :: "'j token_usage_info option"
  reference_context_item :: "'t option"
  world_state_baseline :: "'w option"

definition context_manager_new :: "('j, 't, 'w) context_manager" where
  "context_manager_new =
     \<lparr>cm_items = [], history_version = 0, token_info = new_or_append None None None,
      reference_context_item = None, world_state_baseline = None\<rparr>"

definition set_token_info ::
  "'j token_usage_info option \<Rightarrow> ('j, 't, 'w) context_manager \<Rightarrow> ('j, 't, 'w) context_manager" where
  "set_token_info info cm = cm\<lparr>token_info := info\<rparr>"

definition set_reference_context_item ::
  "'t option \<Rightarrow> ('j, 't, 'w) context_manager \<Rightarrow> ('j, 't, 'w) context_manager" where
  "set_reference_context_item item cm = cm\<lparr>reference_context_item := item\<rparr>"

definition set_world_state_baseline ::
  "'w \<Rightarrow> ('j, 't, 'w) context_manager \<Rightarrow> ('j, 't, 'w) context_manager" where
  "set_world_state_baseline snapshot cm = cm\<lparr>world_state_baseline := Some snapshot\<rparr>"

definition set_token_usage_full :: "int \<Rightarrow> ('j, 't, 'w) context_manager \<Rightarrow> ('j, 't, 'w) context_manager" where
  "set_token_usage_full window cm =
     cm\<lparr>token_info := (case token_info cm of
          Some info \<Rightarrow> Some (fill_to_context_window window info)
        | None \<Rightarrow> Some (full_context_window window))\<rparr>"

definition update_token_info ::
  "'j token_usage \<Rightarrow> int option \<Rightarrow> ('j, 't, 'w) context_manager \<Rightarrow> ('j, 't, 'w) context_manager" where
  "update_token_info usage window cm = cm\<lparr>token_info := new_or_append (token_info cm) (Some usage) window\<rparr>"

subsection \<open>Recording\<close>

definition truncate_function_output_payload ::
  "'j estimators \<Rightarrow> function_call_output_payload \<Rightarrow> truncation_policy \<Rightarrow> function_call_output_payload" where
  "truncate_function_output_payload est output policy =
     \<lparr>payload_body = (case payload_body output of
        Text content \<Rightarrow> Text (truncate_text content policy)
      | ContentItems items \<Rightarrow>
          ContentItems (truncate_function_output_items_with_policy items policy (estimate_audio_token_count est))),
      payload_success = payload_success output\<rparr>"

fun process_item :: "'j estimators \<Rightarrow> truncation_policy \<Rightarrow> 'j response_item \<Rightarrow> 'j response_item" where
  "process_item est policy (FunctionCallOutput i call_id name ns output m) =
     FunctionCallOutput i call_id name ns (truncate_function_output_payload est output (mul_policy_1_2 policy)) m"
| "process_item est policy (CustomToolCallOutput i call_id name output m) =
     CustomToolCallOutput i call_id name (truncate_function_output_payload est output (mul_policy_1_2 policy)) m"
| "process_item est policy item = item"

fun is_api_message :: "'j response_item \<Rightarrow> bool" where
  "is_api_message (Message _ role _ _ _) \<longleftrightarrow> role \<noteq> str ''system''"
| "is_api_message CompactionTrigger \<longleftrightarrow> False"
| "is_api_message OtherItem \<longleftrightarrow> False"
| "is_api_message _ \<longleftrightarrow> True"

definition record_annotated_items ::
  "'j estimators \<Rightarrow> 'j envelope list \<Rightarrow> truncation_policy \<Rightarrow> ('j, 't, 'w) context_manager
     \<Rightarrow> ('j, 't, 'w) context_manager" where
  "record_annotated_items est items policy cm =
     foldl (\<lambda>cm e. if is_api_message (envelope_item e)
        then cm\<lparr>cm_items := cm_items cm @ [\<lparr>envelope_item = process_item est policy (envelope_item e),
               envelope_metadata = envelope_metadata e\<rparr>]\<rparr>
        else cm) cm items"

definition record_items ::
  "'j estimators \<Rightarrow> 'j response_item list \<Rightarrow> truncation_policy \<Rightarrow> ('j, 't, 'w) context_manager
     \<Rightarrow> ('j, 't, 'w) context_manager" where
  "record_items est items policy cm = record_annotated_items est (map envelope_new items) policy cm"

definition for_prompt_annotated ::
  "bool \<Rightarrow> (rstr \<Rightarrow> rstr) \<Rightarrow> input_modality list \<Rightarrow> ('j, 't, 'w) context_manager \<Rightarrow> 'j envelope list option" where
  "for_prompt_annotated debug uuid modalities cm = normalize_history debug uuid modalities (cm_items cm)"

definition for_prompt ::
  "bool \<Rightarrow> (rstr \<Rightarrow> rstr) \<Rightarrow> input_modality list \<Rightarrow> ('j, 't, 'w) context_manager \<Rightarrow> 'j response_item list option" where
  "for_prompt debug uuid modalities cm = map_option (map envelope_item) (for_prompt_annotated debug uuid modalities cm)"

definition raw_items :: "('j, 't, 'w) context_manager \<Rightarrow> 'j response_item list" where
  "raw_items cm = map envelope_item (cm_items cm)"

fun is_contextual_user_message :: "codec \<Rightarrow> 'j response_item \<Rightarrow> bool" where
  "is_contextual_user_message cd (Message _ role content _ _) \<longleftrightarrow>
     role = str ''user'' \<and> is_contextual_user_message_content cd content"
| "is_contextual_user_message cd _ \<longleftrightarrow> False"

definition conversation_history_items :: "codec \<Rightarrow> ('j, 't, 'w) context_manager \<Rightarrow> 'j response_item list" where
  "conversation_history_items cd cm = filter (\<lambda>i. \<not> is_contextual_user_message cd i) (raw_items cm)"

subsection \<open>Rewriting\<close>

definition replace_annotated ::
  "'j envelope list \<Rightarrow> ('j, 't, 'w) context_manager \<Rightarrow> ('j, 't, 'w) context_manager" where
  "replace_annotated items cm =
     cm\<lparr>cm_items := items, history_version := saturating_add (history_version cm) 1, world_state_baseline := None\<rparr>"

definition remove_first_item :: "('j, 't, 'w) context_manager \<Rightarrow> ('j, 't, 'w) context_manager" where
  "remove_first_item cm =
     (case cm_items cm of
        [] \<Rightarrow> cm
      | removed # items \<Rightarrow>
          cm\<lparr>cm_items := remove_corresponding_for (envelope_item removed) items, world_state_baseline := None\<rparr>)"

fun user_message_positions :: "codec \<Rightarrow> nat \<Rightarrow> 'j envelope list \<Rightarrow> nat list" where
  "user_message_positions cd idx [] = []"
| "user_message_positions cd idx (e # es) =
     (if is_user_turn_boundary cd (envelope_item e) then idx # user_message_positions cd (Suc idx) es
      else user_message_positions cd (Suc idx) es)"

text \<open>
  The walk of \<open>trim_pre_turn_context_updates\<close>: the cut, and whether the reference context was cleared.
\<close>

fun dev_context_message :: "'j response_item \<Rightarrow> content_item list option" where
  "dev_context_message (Message _ role content _ _) =
     (if role = str ''developer'' \<and> is_contextual_dev_message_content content then Some content else None)"
| "dev_context_message _ = None"

fun trim_pre_turn_context_updates :: "codec \<Rightarrow> 'j envelope list \<Rightarrow> nat \<Rightarrow> nat \<Rightarrow> nat \<times> bool" where
  "trim_pre_turn_context_updates cd snapshot first 0 = (0, False)"
| "trim_pre_turn_context_updates cd snapshot first (Suc k) =
     (if first < Suc k
      then case dev_context_message (envelope_item (snapshot ! k)) of
             Some content \<Rightarrow>
               (let (cut, cleared) = trim_pre_turn_context_updates cd snapshot first k
                in (cut, has_non_contextual_dev_message_content content \<or> cleared))
           | None \<Rightarrow>
               if is_contextual_user_message cd (envelope_item (snapshot ! k))
               then trim_pre_turn_context_updates cd snapshot first k
               else (Suc k, False)
      else (Suc k, False))"

fun is_developer_message :: "'j response_item \<Rightarrow> bool" where
  "is_developer_message (Message _ role _ _ _) \<longleftrightarrow> role = str ''developer''"
| "is_developer_message _ \<longleftrightarrow> False"

fun is_model_switch :: "content_item \<Rightarrow> bool" where
  "is_model_switch (InputText t) \<longleftrightarrow> model_switch_matches t"
| "is_model_switch _ \<longleftrightarrow> False"

text \<open>The closure of \<open>retain_mut\<close>: the updated item when it is kept.\<close>

definition retain_initial :: "rstr \<Rightarrow> 'j envelope \<Rightarrow> 'j envelope option" where
  "retain_initial first_turn_id e =
     (if turn_id (envelope_item e) = Some first_turn_id \<and> is_developer_message (envelope_item e)
      then case to_annotated_content (envelope_item e) of
             (item, None) \<Rightarrow> None
           | (item, Some content) \<Rightarrow>
               (let content = filter (\<lambda>c. \<not> is_model_switch (annotated_item c)) content
                in if content = [] then None
                   else case set_annotated_content item content of
                          (item', Some _) \<Rightarrow> Some (e\<lparr>envelope_item := item'\<rparr>)
                        | (item', None) \<Rightarrow> None)
      else Some e)"

definition drop_last_n_user_turns ::
  "codec \<Rightarrow> nat \<Rightarrow> ('j, 't, 'w) context_manager \<Rightarrow> ('j, 't, 'w) context_manager" where
  "drop_last_n_user_turns cd num_turns cm =
     (if num_turns = 0 then cm
      else let snapshot = cm_items cm;
               user_positions = user_message_positions cd 0 snapshot
           in case user_positions of
                [] \<Rightarrow> replace_annotated snapshot cm
              | first # _ \<Rightarrow>
                  (let cut_idx = (if length user_positions \<le> num_turns then first
                         else user_positions ! (length user_positions - num_turns));
                       (cut_idx, cleared) = trim_pre_turn_context_updates cd snapshot first cut_idx;
                       cm' = (if cleared then cm\<lparr>reference_context_item := None\<rparr> else cm);
                       retained = take cut_idx snapshot;
                       retained = (if cut_idx = first
                         then case turn_id (envelope_item (snapshot ! first)) of
                                Some first_turn_id \<Rightarrow> List.map_filter (retain_initial first_turn_id) retained
                              | None \<Rightarrow> retained
                         else retained)
                   in replace_annotated retained cm'))"

subsection \<open>Token accounting\<close>

definition estimate_token_count_with_base_instructions ::
  "'j estimators \<Rightarrow> rstr \<Rightarrow> ('j, 't, 'w) context_manager \<Rightarrow> int option" where
  "estimate_token_count_with_base_instructions est base_text cm =
     Some (sat_i64 (i64_of_usize (approx_token_count base_text) + sum_estimates est (cm_items cm)))"

text \<open>\<open>Iterator::rposition\<close>.\<close>

definition rposition :: "('a \<Rightarrow> bool) \<Rightarrow> 'a list \<Rightarrow> nat option" where
  "rposition p xs = map_option (\<lambda>k. length xs - 1 - k) (position p (rev xs))"

fun is_encrypted_reasoning :: "'j response_item \<Rightarrow> bool" where
  "is_encrypted_reasoning (Reasoning _ _ _ encrypted _) \<longleftrightarrow> encrypted \<noteq> None"
| "is_encrypted_reasoning _ \<longleftrightarrow> False"

definition get_non_last_reasoning_items_tokens ::
  "codec \<Rightarrow> 'j estimators \<Rightarrow> ('j, 't, 'w) context_manager \<Rightarrow> int" where
  "get_non_last_reasoning_items_tokens cd est cm =
     (case rposition (\<lambda>e. is_user_turn_boundary cd (envelope_item e)) (cm_items cm) of
        None \<Rightarrow> 0
      | Some last_user_index \<Rightarrow>
          sum_estimates est
            (filter (\<lambda>e. is_encrypted_reasoning (envelope_item e)) (take last_user_index (cm_items cm))))"

fun is_model_generated_item :: "'j response_item \<Rightarrow> bool" where
  "is_model_generated_item (Message _ role _ _ _) \<longleftrightarrow> role = str ''assistant''"
| "is_model_generated_item (Reasoning _ _ _ _ _) \<longleftrightarrow> True"
| "is_model_generated_item (FunctionCall _ _ _ _ _ _ _) \<longleftrightarrow> True"
| "is_model_generated_item (ToolSearchCall _ _ _ _ _ _) \<longleftrightarrow> True"
| "is_model_generated_item (WebSearchCall _ _ _ _) \<longleftrightarrow> True"
| "is_model_generated_item (ImageGenerationCall _ _ _ _ _) \<longleftrightarrow> True"
| "is_model_generated_item (CustomToolCall _ _ _ _ _ _ _) \<longleftrightarrow> True"
| "is_model_generated_item (LocalShellCall _ _ _ _ _) \<longleftrightarrow> True"
| "is_model_generated_item (Compaction _ _ _) \<longleftrightarrow> True"
| "is_model_generated_item (ContextCompaction _ _ _) \<longleftrightarrow> True"
| "is_model_generated_item _ \<longleftrightarrow> False"

definition items_after_last_model_generated_item :: "('j, 't, 'w) context_manager \<Rightarrow> 'j envelope list" where
  "items_after_last_model_generated_item cm =
     (let start = (case rposition (\<lambda>e. is_model_generated_item (envelope_item e)) (cm_items cm) of
          Some index \<Rightarrow> saturating_add index 1 | None \<Rightarrow> length (cm_items cm))
      in drop start (cm_items cm))"

definition estimated_tokens_after_last_model_generated_item ::
  "'j estimators \<Rightarrow> ('j, 't, 'w) context_manager \<Rightarrow> int" where
  "estimated_tokens_after_last_model_generated_item est cm =
     sum_estimates est (items_after_last_model_generated_item cm)"

definition get_total_token_usage ::
  "codec \<Rightarrow> 'j estimators \<Rightarrow> bool \<Rightarrow> ('j, 't, 'w) context_manager \<Rightarrow> int" where
  "get_total_token_usage cd est server_reasoning_included cm =
     (let last_tokens = (case token_info cm of Some info \<Rightarrow> total_tokens (last_token_usage info) | None \<Rightarrow> 0);
          after_tokens = sum_estimates est (items_after_last_model_generated_item cm)
      in if server_reasoning_included then sat_i64 (last_tokens + after_tokens)
         else sat_i64 (sat_i64 (last_tokens + get_non_last_reasoning_items_tokens cd est cm) + after_tokens))"

section \<open>Removing the oldest item\<close>

definition ids_unique :: "('j response_item \<Rightarrow> rstr option) \<Rightarrow> 'j envelope list \<Rightarrow> bool" where
  "ids_unique f items \<longleftrightarrow> distinct (List.map_filter (\<lambda>e. f (envelope_item e)) items)"

definition unique_ids :: "'j envelope list \<Rightarrow> bool" where
  "unique_ids items \<longleftrightarrow>
     ids_unique function_call_id items \<and> ids_unique function_output_id items
     \<and> ids_unique tool_search_call_id items \<and> ids_unique tool_search_output_id items
     \<and> ids_unique custom_tool_call_id items \<and> ids_unique custom_tool_output_id items"

lemma ids_of_Cons:
  "ids_of f (e # items) = (case f (envelope_item e) of Some c \<Rightarrow> {c} | None \<Rightarrow> {}) \<union> ids_of f items"
  by (simp add: ids_of_def List.map_filter_simps split: option.splits)

lemma ids_unique_Cons:
  "ids_unique f (e # items) \<longleftrightarrow>
     ids_unique f items \<and> (\<forall>c. f (envelope_item e) = Some c \<longrightarrow> c \<notin> ids_of f items)"
  by (auto simp: ids_unique_def ids_of_def List.map_filter_simps split: option.splits)

lemma ids_unique_filter: "ids_unique f items \<Longrightarrow> ids_unique f (filter P items)"
  by (induction items)
    (auto simp: ids_unique_Cons in_ids_of)

lemma remove_first_matching_Cons:
  "remove_first_matching p (e # items) =
     (if p (envelope_item e) then items else e # remove_first_matching p items)"
  by (simp add: remove_first_matching_def split: option.splits)

lemma remove_first_matching_once:
  "length (filter (\<lambda>e. p (envelope_item e)) items) \<le> 1 \<Longrightarrow>
   remove_first_matching p items = filter (\<lambda>e. \<not> p (envelope_item e)) items"
proof (induction items)
  case (Cons e items)
  show ?case
  proof (cases "p (envelope_item e)")
    case True
    with Cons.prems have "filter (\<lambda>e. p (envelope_item e)) items = []"
      by simp
    then have "filter (\<lambda>e. \<not> p (envelope_item e)) items = items"
      by (simp add: filter_empty_conv filter_id_conv)
    with True show ?thesis by (simp add: remove_first_matching_Cons)
  qed (use Cons in \<open>simp add: remove_first_matching_Cons\<close>)
qed (simp add: remove_first_matching_def)

lemma ids_unique_once:
  "ids_unique f items \<Longrightarrow> length (filter (\<lambda>e. f (envelope_item e) = Some c) items) \<le> 1"
proof (induction items)
  case (Cons e items)
  show ?case
  proof (cases "f (envelope_item e) = Some c")
    case True
    with Cons.prems have "c \<notin> ids_of f items"
      by (simp add: ids_unique_Cons)
    then have "filter (\<lambda>e. f (envelope_item e) = Some c) items = []"
      unfolding in_ids_of by (simp add: filter_empty_conv)
    with True show ?thesis by simp
  qed (use Cons in \<open>simp add: ids_unique_Cons\<close>)
qed simp

lemma remove_first_matching_unique:
  "ids_unique f items \<Longrightarrow>
   remove_first_matching (\<lambda>i. f i = Some c) items = filter (\<lambda>e. f (envelope_item e) \<noteq> Some c) items"
  by (intro remove_first_matching_once ids_unique_once)

text \<open>The two searches for the call of a function output, as one.\<close>

lemma function_call_id_iff:
  "function_call_id i = Some c \<longleftrightarrow> is_function_call_of c i \<or> is_local_shell_call_of c i"
  by (cases i) auto

lemma remove_function_call:
  assumes "ids_unique function_call_id items"
  shows "remove_corresponding_for (FunctionCallOutput i (Some c) name ns output m) items
    = filter (\<lambda>e. function_call_id (envelope_item e) \<noteq> Some c) items"
proof -
  let ?p = "\<lambda>i. is_function_call_of c i" and ?q = "\<lambda>i. is_local_shell_call_of c i"
  have excl: "\<not> (?p i \<and> ?q i)" for i :: "'a response_item"
    by (cases i) auto
  have "length (filter (\<lambda>e. ?p (envelope_item e)) items) + length (filter (\<lambda>e. ?q (envelope_item e)) items)
      = length (filter (\<lambda>e. function_call_id (envelope_item e) = Some c) items)"
    unfolding function_call_id_iff using excl by (induction items) auto
  with ids_unique_once[OF assms, of c] have once:
    "length (filter (\<lambda>e. ?p (envelope_item e)) items) + length (filter (\<lambda>e. ?q (envelope_item e)) items) \<le> 1"
    by simp
  have eq: "remove_corresponding_for (FunctionCallOutput i (Some c) name ns output m) items
      = (if \<exists>e \<in> set items. ?p (envelope_item e) then remove_first_matching ?p items else remove_first_matching ?q items)"
    by (auto simp: remove_first_matching_def position_None_iff split: option.splits)
      (metis option.distinct(1) position_None_iff)+
  show ?thesis
  proof (cases "\<exists>e \<in> set items. ?p (envelope_item e)")
    case True
    then have "filter (\<lambda>e. ?p (envelope_item e)) items \<noteq> []"
      unfolding filter_empty_conv by blast
    with once have "filter (\<lambda>e. ?q (envelope_item e)) items = []"
      by (cases "filter (\<lambda>e. ?p (envelope_item e)) items") auto
    then have "\<forall>e \<in> set items. \<not> ?q (envelope_item e)"
      by (simp add: filter_empty_conv)
    with True once show ?thesis
      unfolding eq by (auto simp: remove_first_matching_once function_call_id_iff intro: filter_cong)
  next
    case False
    with once show ?thesis
      unfolding eq by (auto simp: remove_first_matching_once function_call_id_iff intro!: filter_cong)
  qed
qed

text \<open>Dropping every item of one identifier keeps each pairing.\<close>

lemma pair_filter:
  assumes call: "\<And>i c. call i = Some c \<Longrightarrow> P i \<longleftrightarrow> c \<notin> R"
    and reply: "\<And>i c. reply i = Some c \<Longrightarrow> P i \<longleftrightarrow> c \<notin> R"
  shows "answered call reply items \<Longrightarrow> answered call reply (filter (\<lambda>e. P (envelope_item e)) items)"
    and "called call reply external items \<Longrightarrow> called call reply external (filter (\<lambda>e. P (envelope_item e)) items)"
proof -
  have calls: "ids_of call (filter (\<lambda>e. P (envelope_item e)) items) = ids_of call items - R"
    unfolding set_eq_iff Diff_iff in_ids_of set_filter mem_Collect_eq Bex_def using call by blast
  have replies: "ids_of reply (filter (\<lambda>e. P (envelope_item e)) items) = ids_of reply items - R"
    unfolding set_eq_iff Diff_iff in_ids_of set_filter mem_Collect_eq Bex_def using reply by blast
  show "answered call reply items \<Longrightarrow> answered call reply (filter (\<lambda>e. P (envelope_item e)) items)"
    unfolding answered_def calls replies by blast
  show "called call reply external items \<Longrightarrow> called call reply external (filter (\<lambda>e. P (envelope_item e)) items)"
    unfolding called_def calls set_filter mem_Collect_eq using reply by blast
qed

definition without_function :: "rstr \<Rightarrow> 'j response_item \<Rightarrow> bool" where
  "without_function c i \<longleftrightarrow> function_call_id i \<noteq> Some c \<and> function_output_id i \<noteq> Some c"

definition without_search :: "rstr \<Rightarrow> 'j response_item \<Rightarrow> bool" where
  "without_search c i \<longleftrightarrow> tool_search_call_id i \<noteq> Some c \<and> tool_search_output_id i \<noteq> Some c"

definition without_custom :: "rstr \<Rightarrow> 'j response_item \<Rightarrow> bool" where
  "without_custom c i \<longleftrightarrow> custom_tool_call_id i \<noteq> Some c \<and> custom_tool_output_id i \<noteq> Some c"

lemma one_kind:
  "function_call_id i = Some c \<Longrightarrow> function_output_id i = None \<and> without_search d i \<and> without_custom d i"
  "function_output_id i = Some c \<Longrightarrow> function_call_id i = None \<and> without_search d i \<and> without_custom d i"
  "tool_search_call_id i = Some c \<Longrightarrow> tool_search_output_id i = None \<and> without_function d i \<and> without_custom d i"
  "tool_search_output_id i = Some c \<Longrightarrow> tool_search_call_id i = None \<and> without_function d i \<and> without_custom d i"
  "custom_tool_call_id i = Some c \<Longrightarrow> custom_tool_output_id i = None \<and> without_function d i \<and> without_search d i"
  "custom_tool_output_id i = Some c \<Longrightarrow> custom_tool_call_id i = None \<and> without_function d i \<and> without_search d i"
  by (cases i; simp add: without_function_def without_search_def without_custom_def)+

lemma own_kind:
  "function_call_id i = Some c \<Longrightarrow> without_function d i \<longleftrightarrow> c \<notin> {d}"
  "function_output_id i = Some c \<Longrightarrow> without_function d i \<longleftrightarrow> c \<notin> {d}"
  "tool_search_call_id i = Some c \<Longrightarrow> without_search d i \<longleftrightarrow> c \<notin> {d}"
  "tool_search_output_id i = Some c \<Longrightarrow> without_search d i \<longleftrightarrow> c \<notin> {d}"
  "custom_tool_call_id i = Some c \<Longrightarrow> without_custom d i \<longleftrightarrow> c \<notin> {d}"
  "custom_tool_output_id i = Some c \<Longrightarrow> without_custom d i \<longleftrightarrow> c \<notin> {d}"
  by (auto simp: without_function_def without_search_def without_custom_def dest: one_kind)

lemma other_kind:
  "function_call_id i = Some c \<Longrightarrow> without_search d i \<longleftrightarrow> c \<notin> {}" "function_output_id i = Some c \<Longrightarrow> without_search d i \<longleftrightarrow> c \<notin> {}"
  "function_call_id i = Some c \<Longrightarrow> without_custom d i \<longleftrightarrow> c \<notin> {}" "function_output_id i = Some c \<Longrightarrow> without_custom d i \<longleftrightarrow> c \<notin> {}"
  "tool_search_call_id i = Some c \<Longrightarrow> without_function d i \<longleftrightarrow> c \<notin> {}" "tool_search_output_id i = Some c \<Longrightarrow> without_function d i \<longleftrightarrow> c \<notin> {}"
  "tool_search_call_id i = Some c \<Longrightarrow> without_custom d i \<longleftrightarrow> c \<notin> {}" "tool_search_output_id i = Some c \<Longrightarrow> without_custom d i \<longleftrightarrow> c \<notin> {}"
  "custom_tool_call_id i = Some c \<Longrightarrow> without_function d i \<longleftrightarrow> c \<notin> {}" "custom_tool_output_id i = Some c \<Longrightarrow> without_function d i \<longleftrightarrow> c \<notin> {}"
  "custom_tool_call_id i = Some c \<Longrightarrow> without_search d i \<longleftrightarrow> c \<notin> {}" "custom_tool_output_id i = Some c \<Longrightarrow> without_search d i \<longleftrightarrow> c \<notin> {}"
  by (simp_all add: one_kind)

lemma paired_without:
  assumes "paired items"
  shows "paired (filter (\<lambda>e. without_function c (envelope_item e)) items)"
    "paired (filter (\<lambda>e. without_search c (envelope_item e)) items)"
    "paired (filter (\<lambda>e. without_custom c (envelope_item e)) items)"
  using assms unfolding paired_def
  by (auto intro: pair_filter[OF own_kind(1,2)] pair_filter[OF own_kind(3,4)] pair_filter[OF own_kind(5,6)]
      pair_filter[OF other_kind(1,2)] pair_filter[OF other_kind(3,4)] pair_filter[OF other_kind(5,6)]
      pair_filter[OF other_kind(7,8)] pair_filter[OF other_kind(9,10)] pair_filter[OF other_kind(11,12)])

definition without_ids :: "'j response_item \<Rightarrow> bool" where
  "without_ids i \<longleftrightarrow>
     function_call_id i = None \<and> function_output_id i = None \<and> tool_search_call_id i = None
     \<and> tool_search_output_id i = None \<and> custom_tool_call_id i = None \<and> custom_tool_output_id i = None"

lemma paired_tail: "paired (e # items) \<Longrightarrow> without_ids (envelope_item e) \<Longrightarrow> paired items"
  by (auto simp: paired_def answered_def called_def ids_of_Cons without_ids_def)

lemma filter_tail:
  assumes "\<not> P e" "\<And>e'. e' \<in> set items \<Longrightarrow> P e' \<longleftrightarrow> Q e'"
  shows "filter Q items = filter P (e # items)"
  using assms by (auto intro: filter_cong)

lemma unique_absent:
  "ids_unique f (e # items) \<Longrightarrow> f (envelope_item e) = Some c \<Longrightarrow> e' \<in> set items \<Longrightarrow> f (envelope_item e') \<noteq> Some c"
  using in_ids_ofI[of e' items f c] by (auto simp: ids_unique_Cons)

lemma remove_corresponding_cases:
  assumes "unique_ids (e # items)"
  shows "(without_ids (envelope_item e) \<and> remove_corresponding_for (envelope_item e) items = items)
    \<or> (\<exists>c. remove_corresponding_for (envelope_item e) items = filter (\<lambda>e. without_function c (envelope_item e)) (e # items))
    \<or> (\<exists>c. remove_corresponding_for (envelope_item e) items = filter (\<lambda>e. without_search c (envelope_item e)) (e # items))
    \<or> (\<exists>c. remove_corresponding_for (envelope_item e) items = filter (\<lambda>e. without_custom c (envelope_item e)) (e # items))"
proof -
  let ?i = "envelope_item e"
  have u: "ids_unique function_call_id (e # items)" "ids_unique function_output_id (e # items)"
    "ids_unique tool_search_call_id (e # items)" "ids_unique tool_search_output_id (e # items)"
    "ids_unique custom_tool_call_id (e # items)" "ids_unique custom_tool_output_id (e # items)"
    using assms by (simp_all add: unique_ids_def)
  have v: "ids_unique function_call_id items" "ids_unique function_output_id items"
    "ids_unique tool_search_call_id items" "ids_unique tool_search_output_id items"
    "ids_unique custom_tool_call_id items" "ids_unique custom_tool_output_id items"
    using u by (simp_all add: ids_unique_Cons)
  consider c where "function_call_id ?i = Some c" | c where "function_output_id ?i = Some c"
    | c where "tool_search_call_id ?i = Some c" | c where "tool_search_output_id ?i = Some c"
    | c where "custom_tool_call_id ?i = Some c" | c where "custom_tool_output_id ?i = Some c"
    | "without_ids ?i"
    unfolding without_ids_def by (meson not_None_eq)
  then show ?thesis
  proof cases
    case 1
    have "remove_corresponding_for ?i items = filter (\<lambda>e. function_output_id (envelope_item e) \<noteq> Some c) items"
      using 1 remove_first_matching_unique[OF v(2)] by (cases ?i) auto
    also have "\<dots> = filter (\<lambda>e. without_function c (envelope_item e)) (e # items)"
      using 1 unique_absent[OF u(1) 1] by (intro filter_tail) (simp_all add: without_function_def)
    finally show ?thesis by blast
  next
    case 2
    have "remove_corresponding_for ?i items = filter (\<lambda>e. function_call_id (envelope_item e) \<noteq> Some c) items"
      using 2 remove_function_call[OF v(1)] by (cases ?i) (auto simp del: remove_corresponding_for.simps(2))
    also have "\<dots> = filter (\<lambda>e. without_function c (envelope_item e)) (e # items)"
      using 2 unique_absent[OF u(2) 2] by (intro filter_tail) (simp_all add: without_function_def)
    finally show ?thesis by blast
  next
    case 3
    have "remove_corresponding_for ?i items = filter (\<lambda>e. tool_search_output_id (envelope_item e) \<noteq> Some c) items"
      using 3 remove_first_matching_unique[OF v(4)] by (cases ?i) auto
    also have "\<dots> = filter (\<lambda>e. without_search c (envelope_item e)) (e # items)"
      using 3 unique_absent[OF u(3) 3] by (intro filter_tail) (simp_all add: without_search_def)
    finally show ?thesis by blast
  next
    case 4
    have "remove_corresponding_for ?i items = filter (\<lambda>e. tool_search_call_id (envelope_item e) \<noteq> Some c) items"
      using 4 remove_first_matching_unique[OF v(3)] by (cases ?i) auto
    also have "\<dots> = filter (\<lambda>e. without_search c (envelope_item e)) (e # items)"
      using 4 unique_absent[OF u(4) 4] by (intro filter_tail) (simp_all add: without_search_def)
    finally show ?thesis by blast
  next
    case 5
    have "remove_corresponding_for ?i items = filter (\<lambda>e. custom_tool_output_id (envelope_item e) \<noteq> Some c) items"
      using 5 remove_first_matching_unique[OF v(6)] by (cases ?i) auto
    also have "\<dots> = filter (\<lambda>e. without_custom c (envelope_item e)) (e # items)"
      using 5 unique_absent[OF u(5) 5] by (intro filter_tail) (simp_all add: without_custom_def)
    finally show ?thesis by blast
  next
    case 6
    have "remove_corresponding_for ?i items = filter (\<lambda>e. custom_tool_call_id (envelope_item e) \<noteq> Some c) items"
      using 6 remove_first_matching_unique[OF v(5)] by (cases ?i) auto
    also have "\<dots> = filter (\<lambda>e. without_custom c (envelope_item e)) (e # items)"
      using 6 unique_absent[OF u(6) 6] by (intro filter_tail) (simp_all add: without_custom_def)
    finally show ?thesis by blast
  next
    case 7
    then have "remove_corresponding_for ?i items = items"
      by (cases ?i) (auto simp: without_ids_def)
    with 7 show ?thesis by blast
  qed
qed

lemma unique_ids_filter: "unique_ids items \<Longrightarrow> unique_ids (filter P items)"
  by (simp add: unique_ids_def ids_unique_filter)

lemma remove_corresponding_length: "length (remove_corresponding_for i items) \<le> length items"
  by (cases "(i, items)" rule: remove_corresponding_for.cases)
    (auto simp: remove_first_matching_def split: option.splits)

text \<open>
  C21. Dropping the oldest item keeps the conversation normalised without a new pass, as the code
  claims: when calls and outputs are paired and no identifier is used twice by calls or by
  outputs of a kind, removing the first item together with its counterpart leaves calls and outputs paired
  and identifiers unique, so it can be repeated until the conversation fits.
\<close>

theorem remove_first_item_keeps_pairing:
  assumes "paired (cm_items cm)" "unique_ids (cm_items cm)"
  shows "paired (cm_items (remove_first_item cm)) \<and> unique_ids (cm_items (remove_first_item cm))
    \<and> (cm_items cm \<noteq> [] \<longrightarrow> length (cm_items (remove_first_item cm)) < length (cm_items cm))"
proof (cases "cm_items cm")
  case (Cons e items)
  let ?r = "remove_corresponding_for (envelope_item e) items"
  have r: "cm_items (remove_first_item cm) = ?r"
    by (simp add: remove_first_item_def Cons)
  have unique: "unique_ids items"
    using assms(2) by (simp add: Cons unique_ids_def ids_unique_Cons)
  have pe: "paired (e # items)" and ue: "unique_ids (e # items)"
    using assms by (simp_all add: Cons)
  from remove_corresponding_cases[OF ue] have "paired ?r \<and> unique_ids ?r"
  proof (elim disjE exE conjE)
    assume "without_ids (envelope_item e)" "?r = items"
    with paired_tail[OF pe] unique show ?thesis by simp
  qed (use paired_without[OF pe] unique_ids_filter[OF ue] in \<open>simp_all only: simp_thms\<close>)
  with remove_corresponding_length[of "envelope_item e" items] show ?thesis
    by (simp add: r Cons)
qed (use assms in \<open>simp add: remove_first_item_def\<close>)

theorem remove_first_item_keeps_pairing_witness:
  "(let call = FunctionCall None (str ''ls'') None [] None (str ''c1'') None;
        reply = FunctionCallOutput None (Some (str ''c1'')) None None (payload_from_text []) (None :: nat passthrough option);
        cm = (context_manager_new :: (nat, unit, unit) context_manager)\<lparr>cm_items := [envelope_new call, envelope_new reply]\<rparr>
    in cm_items (remove_first_item cm) = [] \<and> paired (cm_items (remove_first_item cm)))"
proof -
  let ?call = "FunctionCall None (str ''ls'') None [] None (str ''c1'') (None :: nat passthrough option)"
  let ?reply = "FunctionCallOutput None (Some (str ''c1'')) None None (payload_from_text []) (None :: nat passthrough option)"
  let ?cm = "(context_manager_new :: (nat, unit, unit) context_manager)\<lparr>cm_items := [envelope_new ?call, envelope_new ?reply]\<rparr>"
  have "paired (cm_items ?cm)"
    by (simp add: paired_def answered_def called_def ids_of_def List.map_filter_simps envelope_new_def)
  moreover have "unique_ids (cm_items ?cm)"
    by (simp add: unique_ids_def ids_unique_def List.map_filter_simps envelope_new_def)
  ultimately have "paired (cm_items (remove_first_item ?cm))"
    using remove_first_item_keeps_pairing by blast
  then show ?thesis
    by (simp add: remove_first_item_def envelope_new_def remove_first_matching_def)
qed

section \<open>Rolling back turns\<close>

abbreviation boundary :: "codec \<Rightarrow> 'j envelope \<Rightarrow> bool" where
  "boundary cd e \<equiv> is_user_turn_boundary cd (envelope_item e)"

definition turns :: "codec \<Rightarrow> 'j envelope list \<Rightarrow> nat" where
  "turns cd items = length (filter (boundary cd) items)"

definition contextual :: "codec \<Rightarrow> 'j envelope \<Rightarrow> bool" where
  "contextual cd e \<longleftrightarrow>
     dev_context_message (envelope_item e) \<noteq> None \<or> is_contextual_user_message cd (envelope_item e)"

lemma turns_simps [simp]:
  "turns cd [] = 0" "turns cd (e # es) = (if boundary cd e then 1 else 0) + turns cd es"
  "turns cd (es @ es') = turns cd es + turns cd es'"
  by (simp_all add: turns_def)

lemma contextual_no_boundary: "contextual cd e \<Longrightarrow> \<not> boundary cd e"
  unfolding contextual_def by (cases "envelope_item e") (auto simp: str_def split: if_splits)

lemma turns_contextual: "(\<And>e. e \<in> set es \<Longrightarrow> contextual cd e) \<Longrightarrow> turns cd es = 0"
  by (induction es) (auto dest: contextual_no_boundary)

lemma length_user_message_positions: "length (user_message_positions cd idx es) = turns cd es"
  by (induction es arbitrary: idx) simp_all

lemma user_message_positions_nth:
  "k < turns cd es \<Longrightarrow>
   \<exists>pre e rest. es = pre @ e # rest \<and> user_message_positions cd idx es ! k = idx + length pre
     \<and> boundary cd e \<and> turns cd pre = k"
proof (induction es arbitrary: idx k)
  case (Cons e es)
  show ?case
  proof (cases "boundary cd e \<and> k = 0")
    case True
    then show ?thesis by (intro exI[of _ "[]"]) simp
  next
    case False
    define k' where "k' = (if boundary cd e then k - 1 else k)"
    have "k' < turns cd es"
      using Cons.prems False by (auto simp: k'_def split: if_splits)
    from Cons.IH[OF this, of "Suc idx"] obtain pre b rest where
      "es = pre @ b # rest" "user_message_positions cd (Suc idx) es ! k' = Suc idx + length pre"
      "boundary cd b" "turns cd pre = k'"
      by blast
    with False have "e # es = (e # pre) @ b # rest
        \<and> user_message_positions cd idx (e # es) ! k = idx + length (e # pre)
        \<and> boundary cd b \<and> turns cd (e # pre) = k"
      by (auto simp: k'_def nth_Cons')
    then show ?thesis by blast
  qed
qed simp

lemma trim_spec:
  assumes "trim_pre_turn_context_updates cd snapshot first k = (stop, cleared)" "first \<le> k" "k \<le> length snapshot"
  shows "first \<le> stop \<and> (\<exists>ctx. take k snapshot = take stop snapshot @ ctx \<and> (\<forall>e \<in> set ctx. contextual cd e))"
  using assms
proof (induction k arbitrary: stop cleared)
  case (Suc k)
  show ?case
  proof (cases "first < Suc k \<and> contextual cd (snapshot ! k)")
    case True
    then obtain cleared' where "trim_pre_turn_context_updates cd snapshot first k = (stop, cleared')"
      using Suc.prems(1) by (auto simp: contextual_def Let_def split: if_splits option.splits prod.splits)
    with Suc.IH True Suc.prems(3) obtain ctx where
      ctx: "first \<le> stop" "take k snapshot = take stop snapshot @ ctx" "\<forall>e \<in> set ctx. contextual cd e"
      by (metis Suc_leD less_Suc_eq_le)
    have "take (Suc k) snapshot = take stop snapshot @ (ctx @ [snapshot ! k])"
      using Suc.prems(3) ctx(2) by (simp add: take_Suc_conv_app_nth)
    moreover have "\<forall>e \<in> set (ctx @ [snapshot ! k]). contextual cd e"
      using ctx(3) True by simp
    ultimately show ?thesis using ctx(1) by blast
  next
    case False
    then have "stop = Suc k"
      using Suc.prems(1) by (auto simp: contextual_def split: if_splits option.splits)
    with Suc.prems(2) show ?thesis by simp
  qed
qed simp

lemma retain_initial_no_boundary:
  assumes "\<not> boundary cd e" "retain_initial t e = Some e'"
  shows "\<not> boundary cd e'"
proof (cases "is_developer_message (envelope_item e)")
  case True
  then obtain i content phase m where "envelope_item e = Message i (str ''developer'') content phase m"
    by (cases "envelope_item e") auto
  with assms show ?thesis
    by (auto simp: retain_initial_def Let_def str_def split: if_splits)
qed (use assms in \<open>auto simp: retain_initial_def split: if_splits\<close>)

lemma turns_retain_initial:
  "turns cd es = 0 \<Longrightarrow> turns cd (List.map_filter (retain_initial t) es) = 0"
  by (induction es) (auto simp: List.map_filter_simps retain_initial_no_boundary split: option.splits if_splits)

lemma trim_at_first: "trim_pre_turn_context_updates cd snapshot first first = (first, False)"
  by (cases first) simp_all

lemma retained_initial_turns:
  assumes "turns cd items = 0"
  shows "turns cd (if c then case t of Some t \<Rightarrow> List.map_filter (retain_initial t) items | None \<Rightarrow> items else items) = 0"
  using assms by (auto simp: turns_retain_initial split: option.splits)

lemma drop_all_turns:
  assumes "turns cd (cm_items cm) \<le> n" "0 < n"
  shows "turns cd (cm_items (drop_last_n_user_turns cd n cm)) = 0"
proof (cases "user_message_positions cd 0 (cm_items cm)")
  case Nil
  then have "turns cd (cm_items cm) = 0"
    by (metis length_user_message_positions list.size(3))
  with Nil assms(2) show ?thesis by (simp add: drop_last_n_user_turns_def replace_annotated_def)
next
  case (Cons first ps)
  then have "0 < turns cd (cm_items cm)"
    by (metis length_user_message_positions length_greater_0_conv list.distinct(1))
  from user_message_positions_nth[OF this, of 0] Cons obtain pre e rest where
    "cm_items cm = pre @ e # rest" "first = length pre" "turns cd pre = 0"
    by auto
  then have "turns cd (take first (cm_items cm)) = 0"
    by simp
  moreover have "length (user_message_positions cd 0 (cm_items cm)) \<le> n"
    using assms(1) by (simp add: length_user_message_positions)
  ultimately show ?thesis
    using assms(2) Cons by (simp add: drop_last_n_user_turns_def trim_at_first replace_annotated_def Let_def
        turns_retain_initial split: option.splits)
qed

lemma drop_some_turns:
  assumes "n < turns cd (cm_items cm)" "0 < n"
  obtains ctx e rest where "cm_items cm = cm_items (drop_last_n_user_turns cd n cm) @ ctx @ e # rest"
    "\<forall>e \<in> set ctx. contextual cd e" "boundary cd e" "turns cd (e # rest) = n"
proof -
  let ?items = "cm_items cm" and ?ps = "user_message_positions cd 0 (cm_items cm)"
  define k where "k = turns cd ?items - n"
  have k: "0 < k" "k < turns cd ?items"
    using assms by (simp_all add: k_def)
  then have "0 < turns cd ?items"
    by simp
  from user_message_positions_nth[OF this, of 0] obtain pre0 e0 rest0 where
    first: "?items = pre0 @ e0 # rest0" "?ps ! 0 = length pre0" "turns cd pre0 = 0"
    by auto
  from user_message_positions_nth[OF k(2), of 0] obtain pre e rest where
    cut: "?items = pre @ e # rest" "?ps ! k = length pre" "boundary cd e" "turns cd pre = k"
    by auto
  have "length pre0 \<le> length pre"
  proof (rule ccontr)
    assume "\<not> ?thesis"
    then have "pre = take (length pre) pre0"
      using first(1) cut(1) by (metis append_eq_append_conv_if nat_le_linear)
    then have "turns cd pre \<le> turns cd pre0"
      by (metis append_take_drop_id le_add1 turns_simps(3))
    then show False using k first(3) cut(4) by simp
  qed
  obtain stop cleared where trim: "trim_pre_turn_context_updates cd ?items (length pre0) (length pre) = (stop, cleared)"
    by (metis surj_pair)
  have "length pre \<le> length ?items" "take (length pre) ?items = pre"
    by (simp_all add: cut(1))
  with trim_spec[OF trim \<open>length pre0 \<le> length pre\<close>] obtain ctx where
    ctx: "length pre0 \<le> stop" "pre = take stop ?items @ ctx" "\<forall>e \<in> set ctx. contextual cd e"
    by metis
  have "turns cd (take stop ?items) = k"
    using cut(4) ctx(2) turns_contextual[of ctx cd] ctx(3) by simp
  moreover have "take (length pre0) ?items = pre0"
    by (simp add: first(1))
  ultimately have "stop \<noteq> length pre0"
    using k(1) first(3) by auto
  moreover obtain ps where "?ps = length pre0 # ps"
    using first(2) \<open>0 < turns cd ?items\<close> length_user_message_positions[of cd 0 ?items] by (cases ?ps) auto
  moreover have "\<not> length ?ps \<le> n" "?ps ! (length ?ps - n) = length pre"
    using assms(1) cut(2) by (simp_all add: length_user_message_positions k_def)
  ultimately have kept: "cm_items (drop_last_n_user_turns cd n cm) = take stop ?items"
    using assms(2) trim by (simp add: drop_last_n_user_turns_def replace_annotated_def Let_def)
  have last: "turns cd (e # rest) = n"
    using arg_cong[OF cut(1), of "turns cd"] assms(1) cut(4) by (simp add: k_def)
  have "?items = pre @ e # rest"
    by (fact cut(1))
  also have "\<dots> = take stop ?items @ ctx @ e # rest"
    by (subst ctx(2)) simp
  finally have "?items = cm_items (drop_last_n_user_turns cd n cm) @ ctx @ e # rest"
    unfolding kept .
  from that[OF this ctx(3) cut(3) last] show thesis .
qed



text \<open>
  Without any turn the rollback is not the no-op its documentation promises: the items stay, but the
  history version moves on and the world state is forgotten.
\<close>

lemma rollback_without_turns:
  assumes "turns cd (cm_items cm) = 0" "0 < n"
  shows "drop_last_n_user_turns cd n cm
    = cm\<lparr>history_version := saturating_add (history_version cm) 1, world_state_baseline := None\<rparr>"
proof -
  have "user_message_positions cd 0 (cm_items cm) = []"
    using assms(1) length_user_message_positions[of cd 0 "cm_items cm"] by simp
  with assms(2) show ?thesis
    by (simp add: drop_last_n_user_turns_def replace_annotated_def)
qed

section \<open>Recording and accounting\<close>

lemma record_annotated_items_eq:
  "cm_items (record_annotated_items est items policy cm) =
     cm_items cm @ map (map_item (process_item est policy)) (filter (\<lambda>e. is_api_message (envelope_item e)) items)"
  by (induction items arbitrary: cm) (simp_all add: record_annotated_items_def map_item_def)

text \<open>
  Recording truncates outputs but keeps every identifier, so a paired conversation that is recorded
  stays paired.
\<close>

lemma keeps_ids_process_item: "keeps_ids (process_item est policy)"
  unfolding keeps_ids_def
proof
  fix i :: "'a response_item"
  show "function_call_id (process_item est policy i) = function_call_id i
      \<and> function_output_id (process_item est policy i) = function_output_id i
      \<and> tool_search_call_id (process_item est policy i) = tool_search_call_id i
      \<and> tool_search_output_id (process_item est policy i) = tool_search_output_id i
      \<and> custom_tool_call_id (process_item est policy i) = custom_tool_call_id i
      \<and> custom_tool_output_id (process_item est policy i) = custom_tool_output_id i
      \<and> server_executed (process_item est policy i) = server_executed i"
    by (cases i) simp_all
qed

lemma sat_i64_bounds: "i64_min \<le> sat_i64 x" "sat_i64 x \<le> i64_max"
  by (auto simp: sat_i64_def i64_min_def i64_max_def)

lemma estimate_item_nonneg: "0 \<le> estimate_item_token_count est item \<and> estimate_item_token_count est item \<le> i64_max"
  by (simp add: estimate_item_token_count_def approx_tokens_from_byte_count_i64_def i64_max_def)

lemma sum_estimates_bounds: "0 \<le> sum_estimates est items \<and> sum_estimates est items \<le> i64_max"
proof -
  have "0 \<le> acc \<Longrightarrow> acc \<le> i64_max \<Longrightarrow>
      0 \<le> foldl (\<lambda>acc e. sat_i64 (acc + estimate_item_token_count est (envelope_item e))) acc items
      \<and> foldl (\<lambda>acc e. sat_i64 (acc + estimate_item_token_count est (envelope_item e))) acc items \<le> i64_max" for acc
  proof (induction items arbitrary: acc)
    case (Cons e items)
    have "0 \<le> sat_i64 (acc + estimate_item_token_count est (envelope_item e))"
      using Cons.prems estimate_item_nonneg[of est "envelope_item e"] by (simp add: sat_i64_def i64_min_def i64_max_def)
    with Cons.IH sat_i64_bounds(2) show ?case by simp
  qed simp
  from this[of 0] show ?thesis by (simp add: sum_estimates_def i64_max_def)
qed

text \<open>After the context window is reported full, the recorded usage is exactly the window.\<close>

lemma usage_full: "\<exists>info. token_info (set_token_usage_full window cm) = Some info
    \<and> total_tokens (total_token_usage info) = window \<and> model_context_window info = Some window
    \<and> 0 \<le> total_tokens (last_token_usage info)"
  by (auto simp: set_token_usage_full_def full_context_window_def fill_to_context_window_def Let_def split: option.splits)

end
