(* ===== verification/Turn_Diff.thy ===== *)
theory Turn_Diff
  imports Apply_Patch Utf8_Stream "HOL-Library.List_Lexorder" "HOL-Library.AList"
begin

text \<open>
  \<open>core/src/turn_diff_tracker.rs\<close>: the net diff of a turn, kept from the deltas of the applied
  patches without reading the files again.  Paths are the parameter \<open>'p\<close> of \<open>Apply_Patch\<close>; their
  display forms, SHA-1 and the third-party text diff are the record \<open>diff_env\<close>.  A hash map is
  a partial function, and where the code iterates over one, the order is an argument, so that nothing
  depends on it.  Revisions are \<open>u64\<close> with wrap-around.

  The theorems: the cached diff is the one rendered afresh, and its entries are
  exactly what happened to the files over the turn.
\<close>

section \<open>Data\<close>

record 'p diff_env =
  relative_path_from :: "'p \<Rightarrow> 'p \<Rightarrow> rstr option"
  inferred_native_path_string :: "'p \<Rightarrow> rstr"
  sha1_hex :: "bytes \<Rightarrow> rstr"
  unified_text_diff :: "rstr \<Rightarrow> rstr \<Rightarrow> rstr \<Rightarrow> rstr \<Rightarrow> rstr"
    \<comment> \<open>old header, new header, old text, new text\<close>

record tracked_content =
  tc_content :: rstr
  tc_revision :: nat

record 'p tracked_path =
  environment_id :: rstr
  tracked_uri :: 'p

record 'p diff_cache_key =
  left_path :: "'p tracked_path"
  left_revision :: "nat option"
  right_path :: "'p tracked_path"
  right_revision :: "nat option"

record 'p turn_diff_tracker =
  tracker_valid :: bool
  display_roots_by_environment :: "(rstr \<times> 'p) list"
  baseline_by_path :: "'p tracked_path \<rightharpoonup> tracked_content"
  current_by_path :: "'p tracked_path \<rightharpoonup> tracked_content"
  origin_by_current_path :: "'p tracked_path \<rightharpoonup> 'p tracked_path"
  next_revision :: nat
  rendered_diffs :: "'p diff_cache_key \<rightharpoonup> rstr option"
  unified_diff :: "rstr option"

definition tracker_new :: "'p turn_diff_tracker" where
  "tracker_new =
     \<lparr>tracker_valid = True, display_roots_by_environment = [], baseline_by_path = Map.empty,
      current_by_path = Map.empty, origin_by_current_path = Map.empty, next_revision = 0,
      rendered_diffs = Map.empty, unified_diff = None\<rparr>"

definition with_environment_display_roots :: "(rstr \<times> 'p) list \<Rightarrow> 'p turn_diff_tracker" where
  "with_environment_display_roots display_roots =
     tracker_new\<lparr>display_roots_by_environment := fold (\<lambda>(k, v). AList.update k v) display_roots []\<rparr>"

definition invalidate :: "'p turn_diff_tracker \<Rightarrow> 'p turn_diff_tracker" where
  "invalidate t = t\<lparr>tracker_valid := False, rendered_diffs := Map.empty, unified_diff := None\<rparr>"

section \<open>Applying the changes of a delta\<close>

definition tracked_content_new ::
    "rstr \<Rightarrow> 'p turn_diff_tracker \<Rightarrow> tracked_content \<times> 'p turn_diff_tracker" where
  "tracked_content_new content t =
     (\<lparr>tc_content = content, tc_revision = next_revision t\<rparr>,
      t\<lparr>next_revision := (next_revision t + 1) mod 2 ^ 64\<rparr>)"

text \<open>
  The guarded insertion the three operations share: a path seen for the first time gets what was
  there before, if anything was.
\<close>

definition note_baseline ::
    "'p tracked_path \<Rightarrow> rstr option \<Rightarrow> 'p turn_diff_tracker \<Rightarrow> 'p turn_diff_tracker" where
  "note_baseline path before t =
     (case before of
        Some content \<Rightarrow>
          if current_by_path t path = None \<and> baseline_by_path t path = None
          then let (c, t) = tracked_content_new content t
               in t\<lparr>baseline_by_path := (baseline_by_path t)(path \<mapsto> c)\<rparr>
          else t
      | None \<Rightarrow> t)"

definition set_current :: "'p tracked_path \<Rightarrow> rstr \<Rightarrow> 'p turn_diff_tracker \<Rightarrow> 'p turn_diff_tracker" where
  "set_current path content t =
     (let (c, t) = tracked_content_new content t
      in t\<lparr>current_by_path := (current_by_path t)(path \<mapsto> c)\<rparr>)"

definition tracker_add ::
    "'p tracked_path \<Rightarrow> rstr \<Rightarrow> rstr option \<Rightarrow> 'p turn_diff_tracker \<Rightarrow> 'p turn_diff_tracker" where
  "tracker_add path content overwritten_content t =
     (let t = t\<lparr>origin_by_current_path := (origin_by_current_path t)(path := None)\<rparr>;
          t = note_baseline path overwritten_content t
      in set_current path content t)"

definition tracker_delete :: "'p tracked_path \<Rightarrow> rstr \<Rightarrow> 'p turn_diff_tracker \<Rightarrow> 'p turn_diff_tracker" where
  "tracker_delete path content t =
     (let t = note_baseline path (Some content) t
      in t\<lparr>current_by_path := (current_by_path t)(path := None),
           origin_by_current_path := (origin_by_current_path t)(path := None)\<rparr>)"

definition tracker_update ::
    "'p tracked_path \<Rightarrow> 'p tracked_path option \<Rightarrow> rstr \<Rightarrow> rstr option \<Rightarrow> rstr \<Rightarrow>
     'p turn_diff_tracker \<Rightarrow> 'p turn_diff_tracker" where
  "tracker_update source_path move_path old_content overwritten_move_content new_content t =
     (let t = note_baseline source_path (Some old_content) t
      in case move_path of
           Some dest_path \<Rightarrow>
             (let t = note_baseline dest_path overwritten_move_content t;
                  origin = (case origin_by_current_path t source_path of Some p \<Rightarrow> p | None \<Rightarrow> source_path);
                  t = t\<lparr>origin_by_current_path := (origin_by_current_path t)(source_path := None),
                        current_by_path := (current_by_path t)(source_path := None)\<rparr>;
                  t = set_current dest_path new_content t
              in t\<lparr>origin_by_current_path := (origin_by_current_path t)
                     (dest_path := if dest_path \<noteq> origin then Some origin else None)\<rparr>)
         | None \<Rightarrow> set_current source_path new_content t)"

definition tracked :: "rstr \<Rightarrow> 'p \<Rightarrow> 'p tracked_path" where
  "tracked environment path = \<lparr>environment_id = environment, tracked_uri = path\<rparr>"

fun apply_change :: "rstr \<Rightarrow> 'p applied_patch_change \<Rightarrow> 'p turn_diff_tracker \<Rightarrow> 'p turn_diff_tracker" where
  "apply_change environment (path, AppliedAdd content overwritten_content) t =
     tracker_add (tracked environment path) content overwritten_content t"
| "apply_change environment (path, AppliedDelete content) t =
     tracker_delete (tracked environment path) content t"
| "apply_change environment (path, AppliedUpdate move_path old_content overwritten_move_content new_content) t =
     tracker_update (tracked environment path) (map_option (tracked environment) move_path)
       old_content overwritten_move_content new_content t"

section \<open>Rendering\<close>

definition display_path :: "'p diff_env \<Rightarrow> 'p turn_diff_tracker \<Rightarrow> 'p tracked_path \<Rightarrow> rstr" where
  "display_path de t path =
     (let display = (case Option.bind (map_of (display_roots_by_environment t) (environment_id path))
                       (relative_path_from de (tracked_uri path)) of
              Some d \<Rightarrow> d
            | None \<Rightarrow> inferred_native_path_string de (tracked_uri path))
      in if length (display_roots_by_environment t) > 1 \<and> environment_id path \<noteq> []
         then environment_id path @ str ''/'' @ display else display)"

definition git_blob_oid :: "'p diff_env \<Rightarrow> rstr \<Rightarrow> rstr" where
  "git_blob_oid de content =
     sha1_hex de (encode (str ''blob '' @ show_nat (length (encode content)) @ [0]) @ encode content)"

definition forward_slashes :: "rstr \<Rightarrow> rstr" where
  "forward_slashes s = map (\<lambda>c. if c = 92 then 47 else c) s"

definition render_diff ::
    "'p diff_env \<Rightarrow> 'p turn_diff_tracker \<Rightarrow> 'p tracked_path \<Rightarrow> rstr option \<Rightarrow>
     'p tracked_path \<Rightarrow> rstr option \<Rightarrow> rstr option" where
  "render_diff de t lp left_content rp right_content =
     (if left_content = right_content then None
      else let left_display = forward_slashes (display_path de t lp);
               right_display = forward_slashes (display_path de t rp);
               zero_oid = replicate 40 48;
               left_oid = (case left_content of None \<Rightarrow> zero_oid | Some c \<Rightarrow> git_blob_oid de c);
               right_oid = (case right_content of None \<Rightarrow> zero_oid | Some c \<Rightarrow> git_blob_oid de c);
               diff = str ''diff --git a/'' @ left_display @ str '' b/'' @ right_display @ [LF];
               mode = (case (left_content, right_content) of
                   (None, Some _) \<Rightarrow> str ''new file mode 100644'' @ [LF]
                 | (Some _, None) \<Rightarrow> str ''deleted file mode 100644'' @ [LF]
                 | _ \<Rightarrow> []);
               index = str ''index '' @ left_oid @ str ''..'' @ right_oid @ [LF];
               old_header = (if left_content \<noteq> None then str ''a/'' @ left_display else str ''/dev/null'');
               new_header = (if right_content \<noteq> None then str ''b/'' @ right_display else str ''/dev/null'')
           in Some (diff @ mode @ index @ unified_text_diff de old_header new_header
                (case left_content of Some c \<Rightarrow> c | None \<Rightarrow> []) (case right_content of Some c \<Rightarrow> c | None \<Rightarrow> [])))"

section \<open>Refreshing the diff\<close>

text \<open>The orders in which the hash maps hand out their keys.\<close>

record 'p hash_orders =
  baseline_keys :: "'p tracked_path list"
  current_keys :: "'p tracked_path list"
  origin_keys :: "'p tracked_path list"

definition rename_pairs ::
    "'p tracked_path list \<Rightarrow> 'p turn_diff_tracker \<Rightarrow> ('p tracked_path \<times> 'p tracked_path) list" where
  "rename_pairs dests t =
     foldl (\<lambda>m dest_path. case origin_by_current_path t dest_path of
              None \<Rightarrow> m
            | Some origin_path \<Rightarrow>
                if dest_path = origin_path \<or> current_by_path t origin_path \<noteq> None
                   \<or> current_by_path t dest_path = None \<or> baseline_by_path t origin_path = None
                   \<or> baseline_by_path t dest_path \<noteq> None
                then m else AList.update origin_path dest_path m) [] dests"

definition refresh_paths :: "'p diff_env \<Rightarrow> 'p hash_orders \<Rightarrow> 'p turn_diff_tracker \<Rightarrow> 'p tracked_path list" where
  "refresh_paths de orders t =
     remdups_adj (sort_key (display_path de t) (baseline_keys orders @ current_keys orders))"

record 'p refresh_state =
  handled :: "'p tracked_path set"
  previous_diffs :: "'p diff_cache_key \<rightharpoonup> rstr option"
  new_diffs :: "'p diff_cache_key \<rightharpoonup> rstr option"
  aggregated :: rstr

definition push_diff :: "rstr \<Rightarrow> rstr option \<Rightarrow> rstr" where
  "push_diff acc rendered =
     (case rendered of
        Some diff \<Rightarrow> (let acc = acc @ diff in if suffix [LF] acc then acc else acc @ [LF])
      | None \<Rightarrow> acc)"

definition cache_key :: "'p turn_diff_tracker \<Rightarrow> 'p tracked_path \<Rightarrow> 'p tracked_path \<Rightarrow> 'p diff_cache_key" where
  "cache_key t lp rp =
     \<lparr>left_path = lp, left_revision = map_option tc_revision (baseline_by_path t lp),
      right_path = rp, right_revision = map_option tc_revision (current_by_path t rp)\<rparr>"

definition refresh_pair ::
    "'p diff_env \<Rightarrow> 'p turn_diff_tracker \<Rightarrow> 'p tracked_path \<Rightarrow> 'p tracked_path \<Rightarrow>
     'p refresh_state \<Rightarrow> 'p refresh_state" where
  "refresh_pair de t lp rp st =
     (let key = cache_key t lp rp;
          rendered = (case previous_diffs st key of
              Some r \<Rightarrow> r
            | None \<Rightarrow> render_diff de t lp (map_option tc_content (baseline_by_path t lp))
                        rp (map_option tc_content (current_by_path t rp)))
      in st\<lparr>previous_diffs := (previous_diffs st)(key := None),
            aggregated := push_diff (aggregated st) rendered,
            new_diffs := (new_diffs st)(key \<mapsto> rendered)\<rparr>)"

definition refresh_path ::
    "'p diff_env \<Rightarrow> 'p turn_diff_tracker \<Rightarrow> ('p tracked_path \<times> 'p tracked_path) list \<Rightarrow>
     'p tracked_path \<Rightarrow> 'p refresh_state \<Rightarrow> 'p refresh_state" where
  "refresh_path de t pairs path st =
     (if path \<in> handled st then st
      else let st = st\<lparr>handled := insert path (handled st)\<rparr>
           in if path \<in> snd ` set pairs then st
              else case map_of pairs path of
                     Some dest \<Rightarrow>
                       refresh_pair de t path dest (st\<lparr>handled := insert dest (handled st)\<rparr>)
                   | None \<Rightarrow> refresh_pair de t path path st)"

definition refresh_unified_diff ::
    "'p diff_env \<Rightarrow> 'p hash_orders \<Rightarrow> 'p turn_diff_tracker \<Rightarrow> 'p turn_diff_tracker" where
  "refresh_unified_diff de orders t =
     (let st = fold (refresh_path de t (rename_pairs (origin_keys orders) t)) (refresh_paths de orders t)
                 \<lparr>handled = {}, previous_diffs = rendered_diffs t, new_diffs = Map.empty, aggregated = []\<rparr>
      in t\<lparr>rendered_diffs := new_diffs st,
           unified_diff := (if aggregated st = [] then None else Some (aggregated st))\<rparr>)"

definition track_delta ::
    "'p diff_env \<Rightarrow> 'p hash_orders \<Rightarrow> rstr \<Rightarrow> 'p applied_patch_delta \<Rightarrow>
     'p turn_diff_tracker \<Rightarrow> 'p turn_diff_tracker" where
  "track_delta de orders environment delta t =
     (if \<not> tracker_valid t then t
      else if \<not> exact delta then invalidate t
      else refresh_unified_diff de orders (fold (apply_change environment) (changes delta) t))"

section \<open>The texts a tracker knows\<close>

definition base_text :: "'p turn_diff_tracker \<Rightarrow> 'p tracked_path \<Rightarrow> rstr option" where
  "base_text t q = map_option tc_content (baseline_by_path t q)"

definition cur_text :: "'p turn_diff_tracker \<Rightarrow> 'p tracked_path \<Rightarrow> rstr option" where
  "cur_text t q = map_option tc_content (current_by_path t q)"

definition look :: "(rstr \<Rightarrow> 'p \<Rightarrow> rstr option) \<Rightarrow> 'p tracked_path \<Rightarrow> rstr option" where
  "look v q = v (environment_id q) (tracked_uri q)"

text \<open>
  A tracker describes the way from the texts \<open>v0\<close> to the texts \<open>v\<close>: a path it knows has the right
  text on both sides, and a path it does not know has not changed.
\<close>

definition describes ::
    "(rstr \<Rightarrow> 'p \<Rightarrow> rstr option) \<Rightarrow> (rstr \<Rightarrow> 'p \<Rightarrow> rstr option) \<Rightarrow> 'p turn_diff_tracker \<Rightarrow> bool" where
  "describes v0 v t \<longleftrightarrow>
     (\<forall>q. if base_text t q = None \<and> cur_text t q = None then look v q = look v0 q
          else base_text t q = look v0 q \<and> cur_text t q = look v q)"

lemma texts_None:
  "baseline_by_path t q = None \<longleftrightarrow> base_text t q = None"
  "current_by_path t q = None \<longleftrightarrow> cur_text t q = None"
  by (simp_all add: base_text_def cur_text_def)

lemma texts_unchanged [simp]:
  "base_text (t\<lparr>origin_by_current_path := f\<rparr>) = base_text t" "cur_text (t\<lparr>origin_by_current_path := f\<rparr>) = cur_text t"
  "base_text (t\<lparr>next_revision := n\<rparr>) = base_text t" "cur_text (t\<lparr>next_revision := n\<rparr>) = cur_text t"
  "base_text (t\<lparr>current_by_path := m\<rparr>) = base_text t"
  "cur_text (t\<lparr>current_by_path := (current_by_path t')(q := None)\<rparr>) = (cur_text t')(q := None)"
  "cur_text (t\<lparr>origin_by_current_path := f, current_by_path := (current_by_path t')(q := None)\<rparr>) = (cur_text t')(q := None)"
  by (auto simp: base_text_def cur_text_def fun_eq_iff)

lemma note_baseline_texts [simp]:
  "cur_text (note_baseline q b t) = cur_text t"
  "base_text (note_baseline q b t) =
     (if base_text t q = None \<and> cur_text t q = None then (base_text t)(q := b) else base_text t)"
  by (auto simp: note_baseline_def tracked_content_new_def base_text_def cur_text_def fun_eq_iff split: option.splits)

lemma set_current_texts [simp]:
  "base_text (set_current q c t) = base_text t"
  "cur_text (set_current q c t) = (cur_text t)(q \<mapsto> c)"
  by (auto simp: set_current_def tracked_content_new_def base_text_def cur_text_def fun_eq_iff)

lemma tracked_simps [simp]:
  "tracked e p = tracked e' p' \<longleftrightarrow> e = e' \<and> p = p'"
  "look v (tracked e p) = v e p"
  by (simp_all add: tracked_def look_def)

lemma tracked_cases: obtains e p where "q = tracked e p"
  by (cases q) (auto simp: tracked_def)

lemma tracker_texts:
  "base_text (tracker_add q c b t) = base_text (note_baseline q b t)"
  "cur_text (tracker_add q c b t) = (cur_text t)(q \<mapsto> c)"
  "base_text (tracker_delete q c t) = base_text (note_baseline q (Some c) t)"
  "cur_text (tracker_delete q c t) = (cur_text t)(q := None)"
  "base_text (tracker_update q None c b' c' t) = base_text (note_baseline q (Some c) t)"
  "cur_text (tracker_update q None c b' c' t) = (cur_text t)(q \<mapsto> c')"
  "base_text (tracker_update q (Some d) c b' c' t) = base_text (note_baseline d b' (note_baseline q (Some c) t))"
  "cur_text (tracker_update q (Some d) c b' c' t) = (cur_text t)(q := None, d \<mapsto> c')"
  by (simp_all add: tracker_add_def tracker_delete_def tracker_update_def Let_def)

fun self_move :: "'p applied_patch_change \<Rightarrow> bool" where
  "self_move (p, AppliedUpdate (Some d) _ _ _) \<longleftrightarrow> d = p"
| "self_move _ \<longleftrightarrow> False"

lemma describesI:
  assumes "\<And>q. base_text t' q = look v0 q \<and> cur_text t' q = look v' q \<or>
    base_text t' q = base_text t q \<and> cur_text t' q = cur_text t q \<and> look v' q = look v q"
    "describes v0 v t"
  shows "describes v0 v' t'"
  unfolding describes_def
proof
  fix q
  show "if base_text t' q = None \<and> cur_text t' q = None then look v' q = look v0 q
      else base_text t' q = look v0 q \<and> cur_text t' q = look v' q"
    using assms(1)[of q] assms(2)[unfolded describes_def, rule_format, of q] by (auto split: if_splits)
qed

lemma undo_texts:
  "undo_change (p, AppliedAdd content ov) (replay_change (p, AppliedAdd content ov) u) = u \<Longrightarrow> u p = ov"
  "undo_change (p, AppliedDelete content) (replay_change (p, AppliedDelete content) u) = u \<Longrightarrow> u p = Some content"
  "undo_change (p, AppliedUpdate None old ov new) (replay_change (p, AppliedUpdate None old ov new) u) = u
     \<Longrightarrow> u p = Some old"
  "undo_change (p, AppliedUpdate (Some d) old ov new) (replay_change (p, AppliedUpdate (Some d) old ov new) u) = u
     \<Longrightarrow> d \<noteq> p \<Longrightarrow> u p = Some old"
  "undo_change (p, AppliedUpdate (Some d) old ov new) (replay_change (p, AppliedUpdate (Some d) old ov new) u) = u
     \<Longrightarrow> u d = ov"
  by (drule fun_cong[of _ _ p] fun_cong[of _ _ d], simp)+

lemma describes_base:
  assumes "describes v0 v t"
  shows "(if base_text t q = None \<and> cur_text t q = None then look v q else base_text t q) = look v0 q"
  using assms[unfolded describes_def, rule_format, of q] by auto

lemma apply_change_describes:
  assumes d: "describes v0 v t" and u: "undo_change c (replay_change c (v e)) = v e" and s: "\<not> self_move c"
  shows "describes v0 (v(e := replay_change c (v e))) (apply_change e c t)"
proof (rule describesI[OF _ d])
  fix q
  let ?v' = "v(e := replay_change c (v e))"
  let ?goal = "base_text (apply_change e c t) q = look v0 q \<and> cur_text (apply_change e c t) q = look ?v' q \<or>
    base_text (apply_change e c t) q = base_text t q \<and> cur_text (apply_change e c t) q = cur_text t q
      \<and> look ?v' q = look v q"
  obtain p ch where c: "c = (p, ch)" by (cases c)
  obtain e' p' where q: "q = tracked e' p'" by (rule tracked_cases)
  have b: "(if base_text t q = None \<and> cur_text t q = None then v e' p' else base_text t q) = v0 e' p'"
    using describes_base[OF d, of q] by (simp only: q tracked_simps)
  show ?goal
  proof (cases "q = tracked e p \<or> (\<exists>d. q = tracked e d \<and> (\<exists>old ov new. ch = AppliedUpdate (Some d) old ov new))")
    case False
    then show ?thesis
      by (cases ch; cases "case ch of AppliedUpdate mv _ _ _ \<Rightarrow> mv | _ \<Rightarrow> None") (auto simp: c q tracker_texts)
  next
    case True
    show ?thesis
    proof (cases ch)
      case (AppliedAdd content ov)
      with u c have "v e p = ov" by (blast dest: undo_texts)
      with b True show ?thesis by (auto simp: c AppliedAdd tracker_texts q)
    next
      case (AppliedDelete content)
      with u c have "v e p = Some content" by (blast dest: undo_texts)
      with b True show ?thesis by (auto simp: c AppliedDelete tracker_texts q)
    next
      case (AppliedUpdate mv old ov new)
      show ?thesis
      proof (cases mv)
        case None
        with u c AppliedUpdate have "v e p = Some old" by (blast dest: undo_texts)
        with b True show ?thesis by (auto simp: c AppliedUpdate None tracker_texts q)
      next
        case (Some d)
        with s c AppliedUpdate have "d \<noteq> p" by simp
        moreover from this u c AppliedUpdate Some have "v e p = Some old" "v e d = ov"
          by (blast dest: undo_texts)+
        ultimately show ?thesis
          using b True by (auto simp: c AppliedUpdate Some tracker_texts q)
      qed
    qed
  qed
qed

lemma apply_changes_describe:
  "describes v0 v t \<Longrightarrow> truthful (v e) cs \<Longrightarrow> \<forall>c \<in> set cs. \<not> self_move c \<Longrightarrow>
   describes v0 (v(e := fold replay_change cs (v e))) (fold (apply_change e) cs t)"
proof (induction cs arbitrary: v t)
  case (Cons c cs)
  then have "describes v0 (v(e := replay_change c (v e))) (apply_change e c t)"
    by (intro apply_change_describes) simp_all
  with Cons.IH[OF this] Cons.prems show ?case by (simp add: fun_upd_same del: fun_upd_apply)
qed simp

section \<open>The entries of the diff\<close>

text \<open>The pairs of paths the loop compares, without what it renders.\<close>

fun diff_entries ::
    "('q \<times> 'q) list \<Rightarrow> 'q set \<Rightarrow> 'q list \<Rightarrow> ('q \<times> 'q) list" where
  "diff_entries pairs H [] = []"
| "diff_entries pairs H (p # ps) =
     (if p \<in> H then diff_entries pairs H ps
      else if p \<in> snd ` set pairs then diff_entries pairs (insert p H) ps
      else case map_of pairs p of
             Some d \<Rightarrow> (p, d) # diff_entries pairs (insert d (insert p H)) ps
           | None \<Rightarrow> (p, p) # diff_entries pairs (insert p H) ps)"

definition partner :: "('q \<times> 'q) list \<Rightarrow> 'q \<Rightarrow> 'q" where
  "partner pairs p = (case map_of pairs p of Some d \<Rightarrow> d | None \<Rightarrow> p)"

lemma diff_entries_set:
  "set (diff_entries pairs H ps) = (\<lambda>p. (p, partner pairs p)) ` {p \<in> set ps. p \<notin> H \<and> p \<notin> snd ` set pairs}"
proof (induction ps arbitrary: H)
  case (Cons p ps)
  have "d \<in> snd ` set pairs" if "map_of pairs p = Some d" for d
    using that by (force dest: map_of_SomeD)
  with Cons show ?case by (auto simp: partner_def split: option.splits)
qed simp

lemma diff_entries_distinct: "distinct (map fst (diff_entries pairs H ps))"
proof (induction ps arbitrary: H)
  case (Cons p ps)
  have "p \<notin> fst ` set (diff_entries pairs H' ps)" if "p \<in> H'" for H'
    using that by (auto simp: diff_entries_set)
  with Cons show ?case by (auto split: option.splits)
qed simp

definition rename_ok :: "'p turn_diff_tracker \<Rightarrow> 'p tracked_path \<Rightarrow> 'p tracked_path \<Rightarrow> bool" where
  "rename_ok t s d \<longleftrightarrow> origin_by_current_path t d = Some s \<and> d \<noteq> s \<and> cur_text t s = None \<and> cur_text t d \<noteq> None
     \<and> base_text t s \<noteq> None \<and> base_text t d = None"

lemma rename_pairs_ok:
  "distinct (map fst (rename_pairs ds t)) \<and> (\<forall>(s, d) \<in> set (rename_pairs ds t). rename_ok t s d)"
proof (induction ds rule: rev_induct)
  case Nil
  then show ?case by (simp add: rename_pairs_def)
next
  case (snoc d ds)
  have app: "rename_pairs (ds @ [d]) t = (case origin_by_current_path t d of
      None \<Rightarrow> rename_pairs ds t
    | Some s \<Rightarrow> if rename_ok t s d then AList.update s d (rename_pairs ds t) else rename_pairs ds t)"
    by (auto simp: rename_pairs_def rename_ok_def texts_None split: option.split)
  have "set (AList.update s d m) \<subseteq> insert (s, d) (set m)" for s and m :: "('a tracked_path \<times> 'a tracked_path) list"
    by (induction m) auto
  with snoc show ?case
    unfolding app by (force simp: distinct_update split: option.split)
qed

definition orders_ok :: "'p hash_orders \<Rightarrow> 'p turn_diff_tracker \<Rightarrow> bool" where
  "orders_ok orders t \<longleftrightarrow>
     set (baseline_keys orders) = dom (baseline_by_path t) \<and> set (current_keys orders) = dom (current_by_path t)
     \<and> set (origin_keys orders) = dom (origin_by_current_path t)"

definition net_entries ::
    "'p diff_env \<Rightarrow> 'p hash_orders \<Rightarrow> 'p turn_diff_tracker \<Rightarrow> ('p tracked_path \<times> 'p tracked_path) list" where
  "net_entries de orders t = diff_entries (rename_pairs (origin_keys orders) t) {} (refresh_paths de orders t)"

lemma refresh_paths_set:
  "orders_ok orders t \<Longrightarrow> q \<in> set (refresh_paths de orders t) \<longleftrightarrow> base_text t q \<noteq> None \<or> cur_text t q \<noteq> None"
  by (auto simp: refresh_paths_def orders_ok_def dom_def texts_None[symmetric])

lemma net_entries_cases:
  assumes "orders_ok orders t"
  shows "(l, r) \<in> set (net_entries de orders t) \<Longrightarrow>
      (base_text t l \<noteq> None \<or> cur_text t l \<noteq> None) \<and> (l = r \<or> rename_ok t l r)"
    and "base_text t q \<noteq> None \<or> cur_text t q \<noteq> None \<Longrightarrow>
      (\<exists>r. (q, r) \<in> set (net_entries de orders t)) \<or> (\<exists>l. rename_ok t l q \<and> (l, q) \<in> set (net_entries de orders t))"
    and "(l, r) \<in> set (net_entries de orders t) \<Longrightarrow> (s, l) \<in> set (net_entries de orders t) \<Longrightarrow> s = l"
proof -
  let ?pairs = "rename_pairs (origin_keys orders) t"
  have ok: "distinct (map fst ?pairs)" "\<And>s d. (s, d) \<in> set ?pairs \<Longrightarrow> rename_ok t s d"
    using rename_pairs_ok[of "origin_keys orders" t] by auto
  have E: "set (net_entries de orders t) =
      (\<lambda>p. (p, partner ?pairs p)) ` {p \<in> set (refresh_paths de orders t). p \<notin> snd ` set ?pairs}"
    by (simp add: net_entries_def diff_entries_set)
  have P: "p = partner ?pairs p \<or> rename_ok t p (partner ?pairs p)" for p
    using ok(2) by (auto simp: partner_def dest: map_of_SomeD split: option.split)
  show "(l, r) \<in> set (net_entries de orders t) \<Longrightarrow>
      (base_text t l \<noteq> None \<or> cur_text t l \<noteq> None) \<and> (l = r \<or> rename_ok t l r)"
    unfolding E using P refresh_paths_set[OF assms] by blast
  have "p = partner ?pairs p \<or> partner ?pairs p \<in> snd ` set ?pairs" for p
    by (force simp: partner_def dest: map_of_SomeD split: option.split)
  then show "(l, r) \<in> set (net_entries de orders t) \<Longrightarrow> (s, l) \<in> set (net_entries de orders t) \<Longrightarrow> s = l"
    unfolding E by blast
  assume q: "base_text t q \<noteq> None \<or> cur_text t q \<noteq> None"
  show "(\<exists>r. (q, r) \<in> set (net_entries de orders t)) \<or> (\<exists>l. rename_ok t l q \<and> (l, q) \<in> set (net_entries de orders t))"
  proof (cases "q \<in> snd ` set ?pairs")
    case False
    with q refresh_paths_set[OF assms] show ?thesis unfolding E by blast
  next
    case True
    then obtain l where l: "(l, q) \<in> set ?pairs" by force
    with ok have r: "rename_ok t l q" and "map_of ?pairs l = Some q" by simp_all
    then have "partner ?pairs l = q" by (simp add: partner_def)
    moreover have "l \<notin> snd ` set ?pairs"
      using ok(2) r by (force simp: rename_ok_def)
    moreover have "l \<in> set (refresh_paths de orders t)"
      using r by (simp add: refresh_paths_set[OF assms] rename_ok_def)
    ultimately show ?thesis using r unfolding E by blast
  qed
qed

lemma net_entries_distinct:
  assumes "orders_ok orders t"
  shows "distinct (map fst (net_entries de orders t)) \<and> distinct (map snd (net_entries de orders t))"
proof -
  let ?E = "net_entries de orders t"
  have f: "distinct (map fst ?E)" by (simp add: net_entries_def diff_entries_distinct)
  have "l = l'" if "(l, r) \<in> set ?E" "(l', r) \<in> set ?E" for l l' r
  proof (cases "l = r \<or> l' = r")
    case True
    with that show ?thesis using net_entries_cases(3)[OF assms] by blast
  next
    case False
    with that have "rename_ok t l r" "rename_ok t l' r" using net_entries_cases(1)[OF assms] by blast+
    then show ?thesis by (simp add: rename_ok_def)
  qed
  then have "inj_on snd (set ?E)" by (auto simp: inj_on_def)
  moreover have "distinct ?E" using f by (simp add: distinct_map)
  ultimately show ?thesis using f by (simp add: distinct_map)
qed

text \<open>The texts on one side of the diff, read off the entries and the texts on the other side.\<close>

definition patched ::
    "('q \<times> 'q) list \<Rightarrow> ('q \<Rightarrow> rstr option) \<Rightarrow> ('q \<Rightarrow> rstr option) \<Rightarrow> 'q \<Rightarrow> rstr option" where
  "patched E new u q = (if q \<in> snd ` set E then new q else if q \<in> fst ` set E then None else u q)"

definition unpatched ::
    "('q \<times> 'q) list \<Rightarrow> ('q \<Rightarrow> rstr option) \<Rightarrow> ('q \<Rightarrow> rstr option) \<Rightarrow> 'q \<Rightarrow> rstr option" where
  "unpatched E old u q = (if q \<in> fst ` set E then old q else if q \<in> snd ` set E then None else u q)"

lemma describes_known:
  "describes v0 v t \<Longrightarrow> base_text t q \<noteq> None \<or> cur_text t q \<noteq> None \<Longrightarrow>
   base_text t q = look v0 q \<and> cur_text t q = look v q"
  "describes v0 v t \<Longrightarrow> base_text t q = None \<Longrightarrow> cur_text t q = None \<Longrightarrow> look v q = look v0 q"
  unfolding describes_def by (metis)+

lemma net_entries_exact:
  assumes d: "describes v0 v t" and o: "orders_ok orders t"
  shows "patched (net_entries de orders t) (cur_text t) (look v0) = look v"
    and "unpatched (net_entries de orders t) (base_text t) (look v) = look v0"
proof -
  let ?E = "net_entries de orders t"
  have known: "base_text t q = look v0 q \<and> cur_text t q = look v q" if "q \<in> fst ` set ?E \<or> q \<in> snd ` set ?E" for q
    using that net_entries_cases(1)[OF o] describes_known(1)[OF d, of q]
    by (auto simp: rename_ok_def) blast+
  have unknown: "look v q = look v0 q" if "q \<notin> fst ` set ?E" "q \<notin> snd ` set ?E" for q
    using that net_entries_cases(2)[OF o, of q de] describes_known(2)[OF d, of q] by force
  show "patched ?E (cur_text t) (look v0) = look v"
  proof
    fix q
    have "cur_text t q = None" if "q \<in> fst ` set ?E" "q \<notin> snd ` set ?E"
      using that net_entries_cases(1)[OF o] by (force simp: rename_ok_def)
    then show "patched ?E (cur_text t) (look v0) q = look v q"
      using known[of q] unknown[of q] by (auto simp: patched_def)
  qed
  show "unpatched ?E (base_text t) (look v) = look v0"
  proof
    fix q
    have "base_text t q = None" if "q \<in> snd ` set ?E" "q \<notin> fst ` set ?E"
      using that net_entries_cases(1)[OF o] by (force simp: rename_ok_def)
    then show "unpatched ?E (base_text t) (look v) q = look v0 q"
      using known[of q] unknown[of q] by (auto simp: unpatched_def)
  qed
qed

section \<open>The cache\<close>

text \<open>
  A revision stands for one text for the whole turn, given by \<open>hist\<close>; a cached diff is the one of
  the texts its key stands for.
\<close>

definition revisions_ok :: "(nat \<Rightarrow> rstr) \<Rightarrow> 'p turn_diff_tracker \<Rightarrow> bool" where
  "revisions_ok hist t \<longleftrightarrow>
     (\<forall>c \<in> ran (baseline_by_path t) \<union> ran (current_by_path t).
        tc_revision c < next_revision t \<and> hist (tc_revision c) = tc_content c)"

definition diffs_ok ::
    "'p diff_env \<Rightarrow> (nat \<Rightarrow> rstr) \<Rightarrow> 'p turn_diff_tracker \<Rightarrow> ('p diff_cache_key \<rightharpoonup> rstr option) \<Rightarrow> bool" where
  "diffs_ok de hist t m \<longleftrightarrow>
     (\<forall>key r. m key = Some r \<longrightarrow>
        (\<forall>n \<in> set_option (left_revision key) \<union> set_option (right_revision key). n < next_revision t)
        \<and> r = render_diff de t (left_path key) (map_option hist (left_revision key))
                (right_path key) (map_option hist (right_revision key)))"

definition cache_ok :: "'p diff_env \<Rightarrow> 'p turn_diff_tracker \<Rightarrow> bool" where
  "cache_ok de t \<longleftrightarrow> (\<exists>hist. revisions_ok hist t \<and> diffs_ok de hist t (rendered_diffs t))"

lemma render_diff_cong:
  "display_roots_by_environment t' = display_roots_by_environment t \<Longrightarrow> render_diff de t' = render_diff de t"
  by (intro ext) (simp add: render_diff_def display_path_def)

lemma cache_ok_fresh:
  assumes "cache_ok de t" "next_revision t + 1 < 2 ^ 64"
    and t': "display_roots_by_environment t' = display_roots_by_environment t" "rendered_diffs t' = rendered_diffs t"
      "next_revision t' = next_revision t + 1"
    and c: "ran (baseline_by_path t') \<union> ran (current_by_path t') \<subseteq>
      insert \<lparr>tc_content = content, tc_revision = next_revision t\<rparr>
        (ran (baseline_by_path t) \<union> ran (current_by_path t))"
  shows "cache_ok de t'"
proof -
  obtain hist where h: "revisions_ok hist t" "diffs_ok de hist t (rendered_diffs t)"
    using assms(1) by (auto simp: cache_ok_def)
  let ?h = "hist(next_revision t := content)"
  have "revisions_ok ?h t'"
    unfolding revisions_ok_def t'(3)
  proof
    fix x
    assume "x \<in> ran (baseline_by_path t') \<union> ran (current_by_path t')"
    with c consider "x = \<lparr>tc_content = content, tc_revision = next_revision t\<rparr>"
      | "x \<in> ran (baseline_by_path t) \<union> ran (current_by_path t)" by blast
    then show "tc_revision x < next_revision t + 1 \<and> ?h (tc_revision x) = tc_content x"
    proof cases
      case 2
      with h(1) have "tc_revision x < next_revision t \<and> hist (tc_revision x) = tc_content x"
        unfolding revisions_ok_def by blast
      then show ?thesis by simp
    qed simp
  qed
  moreover have "diffs_ok de ?h t' (rendered_diffs t')"
    unfolding diffs_ok_def t'(2,3) render_diff_cong[OF t'(1)]
  proof (intro allI impI)
    fix key r
    assume "rendered_diffs t key = Some r"
    with h(2) have n: "\<forall>n \<in> set_option (left_revision key) \<union> set_option (right_revision key). n < next_revision t"
      and r: "r = render_diff de t (left_path key) (map_option hist (left_revision key))
                (right_path key) (map_option hist (right_revision key))"
      unfolding diffs_ok_def by blast+
    have "map_option ?h x = map_option hist x" if "\<forall>n \<in> set_option x. n < next_revision t" for x
      using that by (cases x) auto
    with n r show "(\<forall>n \<in> set_option (left_revision key) \<union> set_option (right_revision key). n < next_revision t + 1)
        \<and> r = render_diff de t (left_path key) (map_option ?h (left_revision key))
                (right_path key) (map_option ?h (right_revision key))"
      by (simp add: less_SucI ball_Un)
  qed
  ultimately show ?thesis by (auto simp: cache_ok_def)
qed

lemma cache_ok_sub:
  assumes "cache_ok de t" "display_roots_by_environment t' = display_roots_by_environment t"
    "rendered_diffs t' = rendered_diffs t" "next_revision t' = next_revision t"
    "ran (baseline_by_path t') \<union> ran (current_by_path t') \<subseteq> ran (baseline_by_path t) \<union> ran (current_by_path t)"
  shows "cache_ok de t'"
proof -
  obtain hist where h: "revisions_ok hist t" "diffs_ok de hist t (rendered_diffs t)"
    using assms(1) by (auto simp: cache_ok_def)
  then have "revisions_ok hist t'" "diffs_ok de hist t' (rendered_diffs t')"
    using assms(4,5) unfolding revisions_ok_def diffs_ok_def assms(3,4) render_diff_cong[OF assms(2)] by blast+
  then show ?thesis by (auto simp: cache_ok_def)
qed

lemma ran_upd_subset: "ran (m(q \<mapsto> c)) \<subseteq> insert c (ran m)" "ran (m(q := None)) \<subseteq> ran m"
  by (auto simp: ran_def split: if_splits)

text \<open>An operation that uses at most \<open>k\<close> revisions and keeps the cache right.\<close>

definition keeps_cache ::
    "'p diff_env \<Rightarrow> nat \<Rightarrow> 'p turn_diff_tracker \<Rightarrow> 'p turn_diff_tracker \<Rightarrow> bool" where
  "keeps_cache de k t t' \<longleftrightarrow>
     (cache_ok de t \<longrightarrow> next_revision t + k < 2 ^ 64 \<longrightarrow> cache_ok de t' \<and> next_revision t' \<le> next_revision t + k)"

lemma keeps_cache_trans:
  "keeps_cache de k t t' \<Longrightarrow> keeps_cache de l t' t'' \<Longrightarrow> keeps_cache de (k + l) t t''"
  unfolding keeps_cache_def by auto

lemma keeps_cache_note [simp]: "keeps_cache de 1 t (note_baseline q b t)"
  unfolding keeps_cache_def
proof (intro impI)
  assume a: "cache_ok de t" "next_revision t + 1 < 2 ^ 64"
  show "cache_ok de (note_baseline q b t) \<and> next_revision (note_baseline q b t) \<le> next_revision t + 1"
  proof (cases "b \<noteq> None \<and> current_by_path t q = None \<and> baseline_by_path t q = None")
    case True
    then obtain content where b: "b = Some content" by blast
    have "cache_ok de (note_baseline q b t)"
      by (rule cache_ok_fresh[OF a, where content = content])
        (use True a(2) ran_upd_subset in \<open>auto simp: note_baseline_def b tracked_content_new_def\<close>)
    with True a(2) show ?thesis by (simp add: note_baseline_def b tracked_content_new_def)
  next
    case False
    then have "note_baseline q b t = t" by (auto simp: note_baseline_def split: option.split)
    with a(1) show ?thesis by simp
  qed
qed

lemma keeps_cache_set [simp]: "keeps_cache de 1 t (set_current q content t)"
  unfolding keeps_cache_def
proof (intro impI)
  assume a: "cache_ok de t" "next_revision t + 1 < 2 ^ 64"
  have "cache_ok de (set_current q content t)"
    by (rule cache_ok_fresh[OF a, where content = content])
      (use a(2) ran_upd_subset(1)[of "current_by_path t" q] in \<open>auto simp: set_current_def tracked_content_new_def\<close>)
  with a(2) show "cache_ok de (set_current q content t) \<and> next_revision (set_current q content t) \<le> next_revision t + 1"
    by (simp add: set_current_def tracked_content_new_def)
qed

lemma keeps_cache_drop [simp]:
  "keeps_cache de 0 t (t\<lparr>origin_by_current_path := f\<rparr>)"
  "keeps_cache de 0 t (t\<lparr>current_by_path := (current_by_path t)(q := None), origin_by_current_path := f\<rparr>)"
  "keeps_cache de 0 t (t\<lparr>origin_by_current_path := f, current_by_path := (current_by_path t)(q := None)\<rparr>)"
  using ran_upd_subset(2)[of "current_by_path t" q]
  by (auto simp: keeps_cache_def elim!: cache_ok_sub)

lemma keeps_cache_mono: "keeps_cache de k t t' \<Longrightarrow> k \<le> l \<Longrightarrow> keeps_cache de l t t'"
  by (auto simp: keeps_cache_def)

lemma keeps_cache_change: "keeps_cache de 3 t (apply_change e c t)"
proof -
  have add: "keeps_cache de 2 t (tracker_add q content b t)" for q content b
  proof -
    let ?t = "t\<lparr>origin_by_current_path := (origin_by_current_path t)(q := None)\<rparr>"
    have "keeps_cache de (0 + 1 + 1) t (set_current q content (note_baseline q b ?t))"
      by (intro keeps_cache_trans) (rule keeps_cache_drop keeps_cache_note keeps_cache_set)+
    then show ?thesis by (simp add: tracker_add_def Let_def numeral_2_eq_2)
  qed
  have del: "keeps_cache de 1 t (tracker_delete q content t)" for q content
    using keeps_cache_trans[OF keeps_cache_note keeps_cache_drop(2)] by (simp add: tracker_delete_def Let_def)
  have upd: "keeps_cache de 3 t (tracker_update q None old b new t)" for q old b new
    unfolding tracker_update_def Let_def option.case
    by (rule keeps_cache_mono[OF keeps_cache_trans[OF keeps_cache_note keeps_cache_set]]) simp
  have move: "keeps_cache de 3 t (tracker_update q (Some d) old b new t)" for q d old b new
  proof -
    let ?n = "note_baseline d b (note_baseline q (Some old) t)"
    let ?u = "?n\<lparr>origin_by_current_path := (origin_by_current_path ?n)(q := None),
      current_by_path := (current_by_path ?n)(q := None)\<rparr>"
    have "keeps_cache de (1 + 1 + 0 + 1 + 0) t ((set_current d new ?u)\<lparr>origin_by_current_path := f\<rparr>)" for f
      by (intro keeps_cache_trans) (rule keeps_cache_drop keeps_cache_note keeps_cache_set)+
    then show ?thesis by (simp add: tracker_update_def Let_def numeral_3_eq_3)
  qed
  show ?thesis
  proof (cases "(e, c, t)" rule: apply_change.cases)
    case (3 e path mv)
    with upd move show ?thesis by (cases mv) auto
  qed (auto intro: keeps_cache_mono[OF add] keeps_cache_mono[OF del])
qed

lemma keeps_cache_changes:
  "keeps_cache de (3 * length cs) t (fold (apply_change e) cs t)"
proof (induction cs arbitrary: t)
  case (Cons c cs)
  from keeps_cache_trans[OF keeps_cache_change Cons] show ?case by (simp add: algebra_simps)
qed (simp add: keeps_cache_def)

lemma revision_texts:
  assumes "revisions_ok hist t"
  shows "map_option hist (map_option tc_revision (baseline_by_path t q)) = base_text t q"
    "map_option hist (map_option tc_revision (current_by_path t q)) = cur_text t q"
    "n \<in> set_option (map_option tc_revision (baseline_by_path t q)) \<Longrightarrow> n < next_revision t"
    "n \<in> set_option (map_option tc_revision (current_by_path t q)) \<Longrightarrow> n < next_revision t"
  using assms
  by (cases "baseline_by_path t q"; cases "current_by_path t q"; auto simp: revisions_ok_def base_text_def cur_text_def ran_def)+

definition render_entry :: "'p diff_env \<Rightarrow> 'p turn_diff_tracker \<Rightarrow> rstr \<Rightarrow> 'p tracked_path \<times> 'p tracked_path \<Rightarrow> rstr" where
  "render_entry de t acc entry =
     push_diff acc (render_diff de t (fst entry) (base_text t (fst entry)) (snd entry) (cur_text t (snd entry)))"

lemma diffs_okD:
  "diffs_ok de hist t m \<Longrightarrow> m key = Some r \<Longrightarrow>
   r = render_diff de t (left_path key) (map_option hist (left_revision key))
         (right_path key) (map_option hist (right_revision key))"
  by (auto simp: diffs_ok_def)

lemma diffs_ok_empty: "diffs_ok de hist t Map.empty"
  by (simp add: diffs_ok_def)

lemma refresh_pair_ok:
  assumes "revisions_ok hist t" "diffs_ok de hist t (previous_diffs st)" "diffs_ok de hist t (new_diffs st)"
  shows "diffs_ok de hist t (previous_diffs (refresh_pair de t l r st))"
    "diffs_ok de hist t (new_diffs (refresh_pair de t l r st))"
    "handled (refresh_pair de t l r st) = handled st"
    "aggregated (refresh_pair de t l r st) = render_entry de t (aggregated st) (l, r)"
proof -
  let ?key = "cache_key t l r" and ?fresh = "render_diff de t l (base_text t l) r (cur_text t r)"
  note texts = revision_texts[OF assms(1)]
  have "x = ?fresh" if "previous_diffs st ?key = Some x" for x
    using diffs_okD[OF assms(2) that] by (simp add: cache_key_def texts)
  then have eq: "refresh_pair de t l r st = st\<lparr>previous_diffs := (previous_diffs st)(?key := None),
      aggregated := push_diff (aggregated st) ?fresh, new_diffs := (new_diffs st)(?key \<mapsto> ?fresh)\<rparr>"
    by (auto simp: refresh_pair_def Let_def base_text_def cur_text_def split: option.split)
  show "diffs_ok de hist t (previous_diffs (refresh_pair de t l r st))"
    using assms(2) by (auto simp: eq diffs_ok_def)
  show "diffs_ok de hist t (new_diffs (refresh_pair de t l r st))"
    using assms(3) texts(3)[of _ l] texts(4)[of _ r] by (auto simp: eq diffs_ok_def cache_key_def texts(1,2))
  show "handled (refresh_pair de t l r st) = handled st" by (simp add: eq)
  show "aggregated (refresh_pair de t l r st) = render_entry de t (aggregated st) (l, r)"
    by (simp add: eq render_entry_def)
qed

lemma refresh_loop:
  assumes "revisions_ok hist t"
  shows "diffs_ok de hist t (previous_diffs st) \<Longrightarrow> diffs_ok de hist t (new_diffs st) \<Longrightarrow>
    diffs_ok de hist t (new_diffs (fold (refresh_path de t pairs) ps st)) \<and>
    aggregated (fold (refresh_path de t pairs) ps st) =
      foldl (render_entry de t) (aggregated st) (diff_entries pairs (handled st) ps)"
proof (induction ps arbitrary: st)
  case (Cons p ps)
  have "diffs_ok de hist t (previous_diffs (refresh_path de t pairs p st))"
    "diffs_ok de hist t (new_diffs (refresh_path de t pairs p st))"
    using Cons.prems refresh_pair_ok(1,2)[OF assms] by (auto simp: refresh_path_def Let_def split: option.split)
  from Cons.IH[OF this] show ?case
    using Cons.prems refresh_pair_ok(3,4)[OF assms] by (auto simp: refresh_path_def Let_def split: option.splits)
qed simp

section \<open>A turn\<close>

text \<open>The diff rendered from the maps alone.\<close>

definition fresh_diff :: "'p diff_env \<Rightarrow> 'p hash_orders \<Rightarrow> 'p turn_diff_tracker \<Rightarrow> rstr option" where
  "fresh_diff de orders t =
     (let s = foldl (render_entry de t) [] (net_entries de orders t) in if s = [] then None else Some s)"

lemma refresh_unchanged:
  "fresh_diff de orders (t\<lparr>rendered_diffs := m, unified_diff := u\<rparr>) = fresh_diff de orders t"
  "orders_ok orders (t\<lparr>rendered_diffs := m, unified_diff := u\<rparr>) = orders_ok orders t"
  "describes v0 v (t\<lparr>rendered_diffs := m, unified_diff := u\<rparr>) = describes v0 v t"
proof -
  let ?t = "t\<lparr>rendered_diffs := m, unified_diff := u\<rparr>"
  have texts: "base_text ?t = base_text t" "cur_text ?t = cur_text t"
    by (simp_all add: base_text_def cur_text_def fun_eq_iff)
  then show "describes v0 v ?t = describes v0 v t" by (simp add: describes_def)
  show "orders_ok orders ?t = orders_ok orders t" by (simp add: orders_ok_def)
  have "render_entry de ?t = render_entry de t"
    using render_diff_cong[of ?t t de] by (simp add: render_entry_def texts fun_eq_iff)
  moreover have "display_path de ?t = display_path de t" by (simp add: display_path_def fun_eq_iff)
  then have "net_entries de orders ?t = net_entries de orders t"
    by (simp add: net_entries_def rename_pairs_def refresh_paths_def cong: if_cong option.case_cong)
  ultimately show "fresh_diff de orders ?t = fresh_diff de orders t" by (simp add: fresh_diff_def)
qed

lemma refresh_unified_diff_fresh:
  assumes "cache_ok de t"
  shows "cache_ok de (refresh_unified_diff de orders t)"
    "unified_diff (refresh_unified_diff de orders t) = fresh_diff de orders (refresh_unified_diff de orders t)"
proof -
  obtain hist where h: "revisions_ok hist t" "diffs_ok de hist t (rendered_diffs t)"
    using assms by (auto simp: cache_ok_def)
  let ?pairs = "rename_pairs (origin_keys orders) t" and ?ps = "refresh_paths de orders t"
    and ?st = "\<lparr>handled = {}, previous_diffs = rendered_diffs t, new_diffs = Map.empty, aggregated = []\<rparr>"
  let ?st' = "fold (refresh_path de t ?pairs) ?ps ?st"
  have loop: "diffs_ok de hist t (new_diffs ?st')"
    "aggregated ?st' = foldl (render_entry de t) [] (net_entries de orders t)"
    using refresh_loop[OF h(1), of de ?st ?pairs ?ps] h(2) diffs_ok_empty[of de hist t]
    by (simp_all add: net_entries_def)
  have eq: "refresh_unified_diff de orders t = t\<lparr>rendered_diffs := new_diffs ?st',
      unified_diff := (if aggregated ?st' = [] then None else Some (aggregated ?st'))\<rparr>"
    by (simp add: refresh_unified_diff_def Let_def)
  show "unified_diff (refresh_unified_diff de orders t) = fresh_diff de orders (refresh_unified_diff de orders t)"
    unfolding eq refresh_unchanged by (simp add: fresh_diff_def loop(2) Let_def)
  define t' where "t' = refresh_unified_diff de orders t"
  have t': "display_roots_by_environment t' = display_roots_by_environment t" "rendered_diffs t' = new_diffs ?st'"
    "next_revision t' = next_revision t" "baseline_by_path t' = baseline_by_path t"
    "current_by_path t' = current_by_path t"
    by (simp_all add: t'_def eq)
  have "diffs_ok de hist t' (rendered_diffs t')"
    using loop(1) unfolding diffs_ok_def t'(2,3) render_diff_cong[OF t'(1)] .
  moreover have "revisions_ok hist t'"
    using h(1) unfolding revisions_ok_def t' .
  ultimately have "cache_ok de t'"
    unfolding cache_ok_def by blast
  then show "cache_ok de (refresh_unified_diff de orders t)" by (simp only: t'_def)
qed

text \<open>
  A turn: every environment has its world; patches are applied one after another, each to the world of
  its environment, and the reported delta is tracked, whether or not the patch succeeded.  At any time
  the tracker may be told that the files changed in another way.  Between the patches the files
  stay as they are, no patch moves a file onto itself, and the \<open>u64\<close> revisions are not exhausted.
\<close>

inductive turn ::
    "'p diff_env \<Rightarrow> (rstr \<Rightarrow> ('p, 'w) patch_env) \<Rightarrow> 'o writer \<Rightarrow> bool \<Rightarrow> (rstr \<Rightarrow> 'w) \<Rightarrow>
     'p turn_diff_tracker \<Rightarrow> (rstr \<Rightarrow> 'w) \<Rightarrow> bool"
  for de env emit follow ws0 where
  start: "turn de env emit follow ws0 (with_environment_display_roots roots) ws0"
| patch: "turn de env emit follow ws0 t ws \<Longrightarrow> follow_symlinks options = follow \<Longrightarrow>
    apply_patch_with_options (env e) emit patch_text options cwd run = (run', r) \<Longrightarrow> run_world run = ws e \<Longrightarrow>
    \<forall>c \<in> set (changes (reported_delta r)). \<not> self_move c \<Longrightarrow>
    next_revision t + 3 * length (changes (reported_delta r)) < 2 ^ 64 \<Longrightarrow>
    orders_ok orders (fold (apply_change e) (changes (reported_delta r)) t) \<Longrightarrow>
    turn de env emit follow ws0 (track_delta de orders e (reported_delta r) t) (ws(e := run_world run'))"
| other: "turn de env emit follow ws0 t ws \<Longrightarrow> turn de env emit follow ws0 (invalidate t) ws'"

definition texts_of ::
    "(rstr \<Rightarrow> ('p, 'w) patch_env) \<Rightarrow> bool \<Rightarrow> (rstr \<Rightarrow> 'w) \<Rightarrow> rstr \<Rightarrow> 'p \<Rightarrow> rstr option" where
  "texts_of env follow ws e = file_text (env e) follow (ws e)"

definition turn_inv ::
    "'p diff_env \<Rightarrow> (rstr \<Rightarrow> 'p \<Rightarrow> rstr option) \<Rightarrow> (rstr \<Rightarrow> 'p \<Rightarrow> rstr option) \<Rightarrow> 'p turn_diff_tracker \<Rightarrow> bool" where
  "turn_inv de v0 v t \<longleftrightarrow>
     (if tracker_valid t
      then describes v0 v t \<and> cache_ok de t \<and> (\<exists>orders. orders_ok orders t \<and> unified_diff t = fresh_diff de orders t)
      else unified_diff t = None)"

lemma start_inv: "turn_inv de v v (with_environment_display_roots roots)"
proof -
  let ?t = "with_environment_display_roots roots :: 'a turn_diff_tracker"
  have m: "baseline_by_path ?t = Map.empty" "current_by_path ?t = Map.empty" "origin_by_current_path ?t = Map.empty"
    "rendered_diffs ?t = Map.empty" "unified_diff ?t = None" "tracker_valid ?t"
    by (simp_all add: with_environment_display_roots_def tracker_new_def)
  let ?o = "\<lparr>baseline_keys = [], current_keys = [], origin_keys = []\<rparr>"
  have "fresh_diff de ?o ?t = None"
    by (simp add: fresh_diff_def net_entries_def refresh_paths_def)
  moreover have "orders_ok ?o ?t" by (simp add: orders_ok_def m)
  ultimately have "\<exists>orders. orders_ok orders ?t \<and> unified_diff ?t = fresh_diff de orders ?t"
    using m(5) by (intro exI[of _ ?o]) simp
  moreover have "cache_ok de ?t"
    unfolding cache_ok_def by (intro exI[of _ "\<lambda>_. []"]) (simp add: revisions_ok_def diffs_ok_def m)
  moreover have "describes v v ?t"
    by (simp add: describes_def base_text_def cur_text_def m)
  ultimately show ?thesis by (simp add: turn_inv_def m)
qed

lemma apply_change_valid [simp]: "tracker_valid (apply_change e c t) = tracker_valid t"
proof -
  have n: "tracker_valid (note_baseline q b t) = tracker_valid t" for q b and t :: "'a turn_diff_tracker"
    by (simp add: note_baseline_def tracked_content_new_def split: option.split)
  have s: "tracker_valid (set_current q b t) = tracker_valid t" for q b and t :: "'a turn_diff_tracker"
    by (simp add: set_current_def tracked_content_new_def)
  show ?thesis
    by (cases "(e, c, t)" rule: apply_change.cases)
      (auto simp: tracker_add_def tracker_delete_def tracker_update_def Let_def n s split: option.split)
qed

lemma apply_changes_valid [simp]: "tracker_valid (fold (apply_change e) cs t) = tracker_valid t"
  by (induction cs arbitrary: t) simp_all

lemma track_delta_valid: "tracker_valid (track_delta de orders e d t) \<longleftrightarrow> tracker_valid t \<and> exact d"
  by (simp add: track_delta_def invalidate_def refresh_unified_diff_def Let_def)

lemma track_inv:
  assumes inv: "turn_inv de v0 v t" and d: "exact d \<Longrightarrow> truthful (v e) (changes d) \<and> fold replay_change (changes d) (v e) = u"
    and moves: "\<forall>c \<in> set (changes d). \<not> self_move c"
    and bound: "next_revision t + 3 * length (changes d) < 2 ^ 64"
    and o: "orders_ok orders (fold (apply_change e) (changes d) t)"
  shows "turn_inv de v0 (v(e := u)) (track_delta de orders e d t)"
proof (cases "tracker_valid t \<and> exact d")
  case False
  with inv show ?thesis by (auto simp: track_delta_def turn_inv_def invalidate_def)
next
  case True
  let ?t = "fold (apply_change e) (changes d) t"
  obtain m x where eq: "refresh_unified_diff de orders ?t = ?t\<lparr>rendered_diffs := m, unified_diff := x\<rparr>"
    by (simp add: refresh_unified_diff_def Let_def)
  from True inv have t: "describes v0 v t" "cache_ok de t" by (simp_all add: turn_inv_def)
  have "cache_ok de ?t"
    using keeps_cache_changes[of de "changes d" t e] t(2) bound by (simp add: keeps_cache_def)
  note fresh = refresh_unified_diff_fresh[OF this, of orders]
  have "describes v0 (v(e := u)) ?t"
    using apply_changes_describe[OF t(1), of e "changes d"] d True moves by simp
  then have "describes v0 (v(e := u)) (refresh_unified_diff de orders ?t)"
    unfolding eq refresh_unchanged .
  moreover have "orders_ok orders (refresh_unified_diff de orders ?t)"
    using o unfolding eq refresh_unchanged .
  moreover have "tracker_valid (refresh_unified_diff de orders ?t)"
    using True by (simp add: eq)
  ultimately have "turn_inv de v0 (v(e := u)) (refresh_unified_diff de orders ?t)"
    using fresh unfolding turn_inv_def by auto
  with True show ?thesis by (simp add: track_delta_def)
qed

lemma turn_invariant:
  assumes "\<And>e. fs_laws (env e) follow"
  shows "turn de env emit follow ws0 t ws \<Longrightarrow>
    turn_inv de (texts_of env follow ws0) (texts_of env follow ws) t"
proof (induction rule: turn.induct)
  case (start roots)
  show ?case by (rule start_inv)
next
  case (patch t ws options e patch_text cwd run run' r orders)
  have "tracks (env e) follow (texts_of env follow ws e) (run_world run', reported_delta r)"
    using apply_patch_tracks[OF _ patch.hyps(3)] assms[of e] patch.hyps(2,4) by (simp add: texts_of_def)
  then have "turn_inv de (texts_of env follow ws0)
      ((texts_of env follow ws)(e := file_text (env e) follow (run_world run')))
      (track_delta de orders e (reported_delta r) t)"
    using patch.hyps(5-7) by (intro track_inv[OF patch.IH]) (simp_all add: tracks_def)
  moreover have "(texts_of env follow ws)(e := file_text (env e) follow (run_world run'))
      = texts_of env follow (ws(e := run_world run'))"
    by (simp add: texts_of_def fun_eq_iff)
  ultimately show ?case by (simp only:)
next
  case (other t ws ws')
  then show ?case by (simp add: turn_inv_def invalidate_def)
qed


text \<open>
  Moving a file onto itself deletes it, but the tracker believes that it has the new text.
\<close>

lemma self_move_misreported:
  "cur_text (apply_change e (p, AppliedUpdate (Some p) old ov new) t) (tracked e p) = Some new"
  "replay_change (p, AppliedUpdate (Some p) old ov new) u p = None"
  by (simp_all add: tracker_texts)

section \<open>An example turn\<close>

definition plain_diff_env :: "rstr diff_env" where
  "plain_diff_env =
     \<lparr>relative_path_from = (\<lambda>_ _. None), inferred_native_path_string = (\<lambda>p. p), sha1_hex = (\<lambda>_. str ''0''),
      unified_text_diff = (\<lambda>old_header new_header old new. str ''-'' @ old @ str ''+'' @ new)\<rparr>"

definition example_orders :: "rstr hash_orders" where
  "example_orders =
     \<lparr>baseline_keys = [tracked [] (str ''d/f'')], current_keys = [tracked [] (str ''d/h''), tracked [] (str ''d/g'')],
      origin_keys = [tracked [] (str ''d/g'')]\<rparr>"

definition example_tracker :: "rstr turn_diff_tracker" where
  "example_tracker = track_delta plain_diff_env example_orders [] example_delta (with_environment_display_roots [])"

lemma example_orders_ok:
  "orders_ok example_orders (fold (apply_change []) (changes example_delta) (with_environment_display_roots []))"
  by (auto simp: orders_ok_def example_orders_def with_environment_display_roots_def tracker_new_def
      tracker_update_def tracker_add_def note_baseline_def set_current_def tracked_content_new_def str_eval)


end
