(* ===== verification/Shell_Commands.thy ===== *)
theory Shell_Commands
  imports Absolute_Path "HOL-Library.Multiset"
begin

text \<open>
  \<open>shell-command/src/bash.rs\<close>, \<open>shell_detect.rs\<close> (\<open>detect_shell_type\<close>) and
  \<open>command_safety/is_dangerous_command.rs\<close>, as compiled for Unix: taking the commands out of a shell
  script and recognising a forced \<open>rm\<close> behind any nesting of wrappers.  The Tree-sitter parser is a
  parameter that yields a syntax tree; a node has its kind, whether it is named, its start, its
  text and its children.

  The theorems: the commands of a word-only script are all the commands in its tree, and the search for
  dangerous commands sees through any number of \<open>sudo\<close>, \<open>env\<close>, \<open>trap\<close> and shell wrappers.
\<close>

section \<open>Syntax trees\<close>

datatype ts_node =
  TsNode (ts_kind: rstr) (is_named: bool) (start_byte: nat) (utf8_text: "rstr option") (ts_children: "ts_node list")

record ts_tree =
  root_node :: ts_node
  has_error :: bool

type_synonym shell_parser = "rstr \<Rightarrow> ts_tree option"

definition named_children :: "ts_node \<Rightarrow> ts_node list" where
  "named_children node = filter is_named (ts_children node)"

definition named_child_0 :: "ts_node \<Rightarrow> ts_node option" where
  "named_child_0 node = (case named_children node of [] \<Rightarrow> None | c # _ \<Rightarrow> Some c)"

section \<open>Literal words\<close>

definition word_kind :: "rstr \<Rightarrow> bool" where
  "word_kind k \<longleftrightarrow> k = str ''word'' \<or> k = str ''number''"

text \<open>Braces, asterisk, question mark, square brackets, backslash, tilde, caret, hash, dollar and backquote.\<close>

definition expansion_chars :: rstr where
  "expansion_chars = [123, 125, 42, 63, 91, 93, 92, 126, 94, 35, 36, 96]"

definition is_literal_word_or_number :: "ts_node \<Rightarrow> bool" where
  "is_literal_word_or_number node \<longleftrightarrow>
     word_kind (ts_kind node) \<and> named_children node = [] \<and>
     (case utf8_text node of
        Some word \<Rightarrow> \<not> prefix (str ''='') word \<and> \<not> list_ex (\<lambda>c. c \<in> set expansion_chars) word
      | None \<Rightarrow> False)"

text \<open>A backslash before \<open>$\<close>, a backquote, a double quote, a backslash or a line feed.\<close>

fun has_escape :: "rstr \<Rightarrow> bool" where
  "has_escape (a # b # s) \<longleftrightarrow> a = 92 \<and> b \<in> {36, 96, 34, 92, LF} \<or> has_escape (b # s)"
| "has_escape _ \<longleftrightarrow> False"

definition parse_double_quoted_string :: "ts_node \<Rightarrow> rstr option" where
  "parse_double_quoted_string node =
     (if ts_kind node \<noteq> str ''string'' then None
      else if list_ex (\<lambda>part. ts_kind part \<noteq> str ''string_content'') (named_children node) then None
      else Option.bind (utf8_text node) (\<lambda>raw.
           Option.bind (Option.bind (strip_prefix [34] raw) (strip_suffix [34])) (\<lambda>stripped.
           if has_escape stripped then None else Some stripped)))"

definition parse_raw_string :: "ts_node \<Rightarrow> rstr option" where
  "parse_raw_string node =
     (if ts_kind node \<noteq> str ''raw_string'' then None
      else Option.bind (utf8_text node) (\<lambda>raw. Option.bind (strip_prefix [39] raw) (strip_suffix [39])))"

fun parse_literal_shell_word :: "ts_node \<Rightarrow> rstr option"
  and concat_literal :: "ts_node list \<Rightarrow> rstr option" where
  "parse_literal_shell_word (TsNode k n s t cs) =
     (if word_kind k then (if is_literal_word_or_number (TsNode k n s t cs) then t else None)
      else if k = str ''string'' then parse_double_quoted_string (TsNode k n s t cs)
      else if k = str ''raw_string'' then parse_raw_string (TsNode k n s t cs)
      else if k = str ''concatenation''
      then (case concat_literal cs of
              Some concatenated \<Rightarrow> if concatenated = [] then None else Some concatenated
            | None \<Rightarrow> None)
      else None)"
| "concat_literal [] = Some []"
| "concat_literal (c # cs) =
     (if is_named c
      then (case parse_literal_shell_word c of
              Some word \<Rightarrow> map_option ((@) word) (concat_literal cs)
            | None \<Rightarrow> None)
      else concat_literal cs)"

section \<open>Commands of a node\<close>

definition plain_part :: "ts_node \<Rightarrow> rstr option" where
  "plain_part part =
     (if word_kind (ts_kind part) then utf8_text part
      else if ts_kind part = str ''string'' then parse_double_quoted_string part
      else if ts_kind part = str ''raw_string'' then parse_raw_string part
      else None)"

definition plain_word :: "ts_node \<Rightarrow> rstr option" where
  "plain_word child =
     (if ts_kind child = str ''command_name''
      then Option.bind (named_child_0 child) (\<lambda>word_node.
             if ts_kind word_node \<noteq> str ''word'' then None else utf8_text word_node)
      else if ts_kind child = str ''concatenation''
      then (case those (map plain_part (named_children child)) of
              Some parts \<Rightarrow> if concat parts = [] then None else Some (concat parts)
            | None \<Rightarrow> None)
      else plain_part child)"

definition parse_plain_command_from_node :: "ts_node \<Rightarrow> rstr list option" where
  "parse_plain_command_from_node cmd =
     (if ts_kind cmd \<noteq> str ''command'' then None else those (map plain_word (named_children cmd)))"

fun literal_words :: "rstr list \<Rightarrow> bool \<Rightarrow> ts_node list \<Rightarrow> rstr list option" where
  "literal_words words found_command_name [] = (if found_command_name then Some words else None)"
| "literal_words words found_command_name (child # cs) =
     (if ts_kind child = str ''command_name''
      then Option.bind (Option.bind (named_child_0 child) parse_literal_shell_word) (\<lambda>command_name.
             literal_words (words @ [command_name]) True cs)
      else case (if found_command_name then parse_literal_shell_word child else None) of
             Some word \<Rightarrow> literal_words (words @ [word]) found_command_name cs
           | None \<Rightarrow> literal_words words found_command_name cs)"

definition parse_literal_command_from_node :: "ts_node \<Rightarrow> rstr list option" where
  "parse_literal_command_from_node cmd =
     (if ts_kind cmd \<noteq> str ''command'' then None else literal_words [] False (named_children cmd))"

section \<open>Commands of a script\<close>

definition allowed_kinds :: "rstr list" where
  "allowed_kinds = map str [''program'', ''list'', ''pipeline'', ''command'', ''command_name'', ''word'', ''string'',
     ''string_content'', ''raw_string'', ''number'', ''concatenation'']"

definition allowed_punct_tokens :: "rstr list" where
  "allowed_punct_tokens = [str ''&&'', str ''||'', str '';'', str ''|'', [34], [39]]"

definition node_allowed :: "ts_node \<Rightarrow> bool" where
  "node_allowed node \<longleftrightarrow>
     (let kind = ts_kind node
      in if is_named node
         then kind \<in> set allowed_kinds \<and> (word_kind kind \<longrightarrow> is_literal_word_or_number node)
         else \<not> (list_ex (\<lambda>c. c \<in> set (str ''&;|'')) kind \<and> kind \<notin> set allowed_punct_tokens)
           \<and> (kind \<in> set allowed_punct_tokens \<or> trim kind = []))"

text \<open>The walks; the top of the stack is the head of the list.\<close>

lemma children_size: "sum_list (map size (rev (ts_children node))) < size node"
  by (cases node) (simp add: size_list_conv_sum_list sum_list_rev flip: rev_map)

lemma named_children_size: "sum_list (map size (rev (named_children node))) < size node"
proof -
  have "sum_list (map size (filter P cs)) \<le> sum_list (map size cs)" for P and cs :: "ts_node list"
    by (induction cs) auto
  then show ?thesis
    using children_size[of node] by (simp add: named_children_def rev_map[symmetric]) (meson le_less_trans)
qed

function word_only_loop :: "ts_node list \<Rightarrow> ts_node list \<Rightarrow> ts_node list option" where
  "word_only_loop [] command_nodes = Some command_nodes"
| "word_only_loop (node # stack) command_nodes =
     (if \<not> node_allowed node then None
      else word_only_loop (rev (ts_children node) @ stack)
             (if is_named node \<and> ts_kind node = str ''command'' then command_nodes @ [node] else command_nodes))"
  by pat_completeness auto
termination
  by (relation "measure (\<lambda>(stack, _). sum_list (map size stack))") (use children_size in auto)

function literal_loop :: "ts_node list \<Rightarrow> rstr list list \<Rightarrow> rstr list list" where
  "literal_loop [] commands = commands"
| "literal_loop (node # stack) commands =
     literal_loop (rev (named_children node) @ stack)
       (case parse_literal_command_from_node node of
          Some command \<Rightarrow> commands @ [command]
        | None \<Rightarrow> commands)"
  by pat_completeness auto
termination
  by (relation "measure (\<lambda>(stack, _). sum_list (map size stack))") (use named_children_size in auto)

definition try_parse_word_only_commands_sequence :: "ts_tree \<Rightarrow> rstr list list option" where
  "try_parse_word_only_commands_sequence tree =
     (if has_error tree then None
      else Option.bind (word_only_loop [root_node tree] []) (\<lambda>command_nodes.
             those (map parse_plain_command_from_node (sort_key start_byte command_nodes))))"

definition parse_shell_script_into_commands :: "shell_parser \<Rightarrow> rstr \<Rightarrow> rstr list list option" where
  "parse_shell_script_into_commands try_parse_shell script =
     Option.bind (try_parse_shell script) try_parse_word_only_commands_sequence"

section \<open>Shell invocations\<close>

text \<open>
  \<open>Path::file_stem\<close>: the file name up to its last dot, unless that is its first character.
\<close>

definition file_stem :: "rstr \<Rightarrow> rstr option" where
  "file_stem path = map_option (\<lambda>name.
     case rsplit_once_char 46 name of
       Some (before, after) \<Rightarrow> if before = [] then name else before
     | None \<Rightarrow> name) (file_name_of (path_components path))"

lemma split_char_length:
  "part \<in> set (split_char c s) \<Longrightarrow> part = s \<or> length part < length s"
proof (induction s arbitrary: part)
  case (Cons d s)
  show ?case
  proof (cases "d = c")
    case True
    with Cons show ?thesis by fastforce
  next
    case False
    then show ?thesis using Cons by (cases "split_char c s") fastforce+
  qed
qed simp

lemma file_stem_length:
  assumes "file_stem path = Some stem" "stem \<noteq> path"
  shows "length stem < length path"
proof -
  obtain name where n: "file_name_of (path_components path) = Some name"
    and s: "stem = (case rsplit_once_char 46 name of
       Some (before, after) \<Rightarrow> if before = [] then name else before | None \<Rightarrow> name)"
    using assms(1) by (auto simp: file_stem_def)
  have "NormalDir name \<in> set (path_components path)"
    using n by (auto simp: last_opt_def split: if_splits path_component.splits option.splits dest: last_in_set)
  then have "name \<in> set (split_char SLASH path)"
    by (auto simp: path_components_def Let_def split: if_splits)
  then have "name = path \<or> length name < length path" by (rule split_char_length)
  moreover have "length before < length name" if "rsplit_once_char 46 name = Some (before, after)" for before after
  proof -
    from that have m: "46 \<in> set name" and b: "before = butlast (rev (dropWhile (\<lambda>d. d \<noteq> 46) (rev name)))"
      by (auto simp: rsplit_once_char_def split: if_splits)
    then have "length before \<le> length name - 1"
      using length_dropWhile_le[of "\<lambda>d. d \<noteq> 46" "rev name"] by simp
    moreover from m have "name \<noteq> []" by auto
    ultimately show ?thesis by (cases name) auto
  qed
  then have "stem = name \<or> length stem < length name" by (auto simp: s split: option.splits)
  ultimately show ?thesis using assms(2) by auto
qed

datatype shell_type = Zsh | Bash | PowerShellType | Sh | CmdType

definition shell_of_name :: "rstr \<Rightarrow> shell_type option" where
  "shell_of_name name =
     (if name = str ''zsh'' then Some Zsh
      else if name = str ''sh'' then Some Sh
      else if name = str ''cmd'' then Some CmdType
      else if name = str ''bash'' then Some Bash
      else if name = str ''pwsh'' then Some PowerShellType
      else if name = str ''powershell'' then Some PowerShellType
      else None)"

function detect_shell_type :: "rstr \<Rightarrow> shell_type option" where
  "detect_shell_type shell_path =
     (case shell_of_name shell_path of
        Some shell \<Rightarrow> Some shell
      | None \<Rightarrow>
          (case file_stem shell_path of
             Some shell_name \<Rightarrow>
               if path_components shell_name \<noteq> path_components shell_path
               then detect_shell_type shell_name else None
           | None \<Rightarrow> None))"
  by pat_completeness auto
termination
  by (relation "measure length") (auto intro: file_stem_length)

declare detect_shell_type.simps [simp del]

definition extract_bash_command :: "rstr list \<Rightarrow> (rstr \<times> rstr) option" where
  "extract_bash_command command =
     (case command of
        [shell, flag, script] \<Rightarrow>
          if flag \<notin> {str ''-lc'', str ''-c''} \<or> detect_shell_type shell \<notin> {Some Zsh, Some Bash, Some Sh} then None
          else Some (shell, script)
      | _ \<Rightarrow> None)"

definition parse_shell_lc_plain_commands :: "shell_parser \<Rightarrow> rstr list \<Rightarrow> rstr list list option" where
  "parse_shell_lc_plain_commands try_parse_shell command =
     Option.bind (extract_bash_command command) (\<lambda>(_, script).
       parse_shell_script_into_commands try_parse_shell script)"

definition parse_shell_lc_literal_commands :: "shell_parser \<Rightarrow> rstr list \<Rightarrow> rstr list list option" where
  "parse_shell_lc_literal_commands try_parse_shell command =
     Option.bind (extract_bash_command command) (\<lambda>(_, script).
     Option.bind (try_parse_shell script) (\<lambda>tree.
       if has_error tree then None else Some (literal_loop [root_node tree] [])))"

section \<open>Dangerous commands\<close>

datatype dangerous_command_kind = ForcedRm | OtherDanger

abbreviation MAX_DANGEROUS_COMMAND_WRAPPER_DEPTH :: nat where
  "MAX_DANGEROUS_COMMAND_WRAPPER_DEPTH \<equiv> 8"

definition executable_name_lookup_key :: "rstr \<Rightarrow> rstr option" where
  "executable_name_lookup_key raw = file_name_of (path_components raw)"

definition rm_args_include_force_option :: "rstr list \<Rightarrow> bool" where
  "rm_args_include_force_option args \<longleftrightarrow>
     list_ex (\<lambda>arg. arg = str ''--force'' \<or>
         (case strip_prefix (str ''-'') arg of
            Some flags \<Rightarrow> \<not> prefix (str ''-'') flags \<and> contains (str ''f'') flags
          | None \<Rightarrow> False))
       (takeWhile (\<lambda>arg. arg \<noteq> str ''--'') args)"

text \<open>The arguments of \<open>env\<close> from the command on.\<close>

fun env_command :: "rstr list \<Rightarrow> rstr list" where
  "env_command [] = []"
| "env_command (argument # args) =
     (if argument = str ''--'' then args
      else if argument \<in> {str ''-i'', str ''--ignore-environment''} \<or>
        (case split_once (str ''='') argument of
           Some (name, _) \<Rightarrow> name \<noteq> [] \<and> \<not> prefix (str ''-'') name
         | None \<Rightarrow> False)
      then env_command args
      else argument # args)"

definition trap_action :: "rstr list \<Rightarrow> rstr option" where
  "trap_action args =
     (let rest = (case args of a # as \<Rightarrow> if a = str ''--'' then as else args | [] \<Rightarrow> [])
      in case rest of
           action # _ \<Rightarrow> if prefix (str ''-'') action then None else Some action
         | [] \<Rightarrow> None)"

text \<open>\<open>Iterator::find_map\<close>.\<close>

fun find_map :: "('a \<Rightarrow> 'b option) \<Rightarrow> 'a list \<Rightarrow> 'b option" where
  "find_map f [] = None"
| "find_map f (x # xs) = (case f x of Some y \<Rightarrow> Some y | None \<Rightarrow> find_map f xs)"

lemma find_map_cong [fundef_cong]:
  "xs = ys \<Longrightarrow> (\<And>x. x \<in> set ys \<Longrightarrow> f x = g x) \<Longrightarrow> find_map f xs = find_map g ys"
  by (induction ys arbitrary: xs) (auto split: option.split)

text \<open>
  The mutual recursion ends because the depth grows with every wrapper and nothing is looked at
  beyond the maximal depth.
\<close>

function dangerous_command_match_with_depth ::
    "shell_parser \<Rightarrow> rstr list \<Rightarrow> nat \<Rightarrow> dangerous_command_kind option"
  and dangerous_command_match_for_exec ::
    "shell_parser \<Rightarrow> rstr list \<Rightarrow> nat \<Rightarrow> dangerous_command_kind option"
  and dangerous_command_match_for_env ::
    "shell_parser \<Rightarrow> rstr list \<Rightarrow> nat \<Rightarrow> dangerous_command_kind option"
  and dangerous_command_match_for_trap ::
    "shell_parser \<Rightarrow> rstr list \<Rightarrow> nat \<Rightarrow> dangerous_command_kind option" where
  "dangerous_command_match_with_depth P command depth =
     (if depth > MAX_DANGEROUS_COMMAND_WRAPPER_DEPTH then Some OtherDanger
      else case dangerous_command_match_for_exec P command depth of
             Some dangerous_match \<Rightarrow> Some dangerous_match
           | None \<Rightarrow>
               (case parse_shell_lc_literal_commands P command of
                  Some commands \<Rightarrow>
                    find_map (\<lambda>command. dangerous_command_match_with_depth P command (depth + 1)) commands
                | None \<Rightarrow> None))"
| "dangerous_command_match_for_exec P command depth =
     (case command of
        [] \<Rightarrow> None
      | program # args \<Rightarrow>
          if executable_name_lookup_key program = Some (str ''rm'') \<and> rm_args_include_force_option args
          then Some ForcedRm
          else if executable_name_lookup_key program = Some (str ''sudo'')
          then dangerous_command_match_with_depth P args (depth + 1)
          else if executable_name_lookup_key program = Some (str ''env'')
          then dangerous_command_match_for_env P args depth
          else if executable_name_lookup_key program = Some (str ''trap'')
          then dangerous_command_match_for_trap P args depth
          else None)"
| "dangerous_command_match_for_env P args depth =
     dangerous_command_match_with_depth P (env_command args) (depth + 1)"
| "dangerous_command_match_for_trap P args depth =
     (case trap_action args of
        Some action \<Rightarrow> dangerous_command_match_with_depth P [str ''sh'', str ''-c'', action] (depth + 1)
      | None \<Rightarrow> None)"
  by pat_completeness auto
termination
  by (relation "measure (\<lambda>x. case x of
        Inl (Inl (_, _, d)) \<Rightarrow> if d > MAX_DANGEROUS_COMMAND_WRAPPER_DEPTH then 0 else 3 * (9 - d) + 3
      | Inl (Inr (_, _, d)) \<Rightarrow> 3 * (9 - d) + 2
      | Inr (Inl (_, _, d)) \<Rightarrow> 3 * (9 - d) + 1
      | Inr (Inr (_, _, d)) \<Rightarrow> 3 * (9 - d) + 1)") auto

declare dangerous_command_match_with_depth.simps [simp del] dangerous_command_match_for_exec.simps [simp del]

definition dangerous_command_match :: "shell_parser \<Rightarrow> rstr list \<Rightarrow> dangerous_command_kind option" where
  "dangerous_command_match P command = dangerous_command_match_with_depth P command 0"

section \<open>The commands of a word-only script\<close>

fun nodes_of :: "ts_node \<Rightarrow> ts_node list" where
  "nodes_of (TsNode k n s t cs) = TsNode k n s t cs # concat (map nodes_of cs)"

lemma nodes_of_eq: "nodes_of node = node # concat (map nodes_of (ts_children node))"
  by (cases node) simp

definition is_command :: "ts_node \<Rightarrow> bool" where
  "is_command node \<longleftrightarrow> is_named node \<and> ts_kind node = str ''command''"

lemma word_only_loop_Some:
  "word_only_loop stack cs = Some res \<Longrightarrow>
   (\<forall>node \<in> set (concat (map nodes_of stack)). node_allowed node) \<and>
   mset res = mset cs + mset (filter is_command (concat (map nodes_of stack)))"
proof (induction stack cs arbitrary: res rule: word_only_loop.induct)
  case (2 node stack cs)
  have "set (concat (map nodes_of (rev (ts_children node)))) = set (concat (map nodes_of (ts_children node)))"
    by simp
  moreover have "mset (filter is_command (concat (map nodes_of (rev xs))))
      = mset (filter is_command (concat (map nodes_of xs)))" for xs
    by (induction xs) (simp_all add: filter_concat)
  ultimately show ?case
    using 2 by (auto simp: nodes_of_eq[of node] is_command_def split: if_splits)
qed simp

lemma those_Some: "those xs = Some ys \<longleftrightarrow> xs = map Some ys"
  by (induction xs arbitrary: ys) (auto split: option.splits)

lemma script_commands:
  assumes "parse_shell_script_into_commands P script = Some commands"
  obtains tree nodes where "P script = Some tree" "\<not> has_error tree"
    "\<forall>node \<in> set (nodes_of (root_node tree)). node_allowed node"
    "mset nodes = filter_mset is_command (mset (nodes_of (root_node tree)))"
    "sorted (map start_byte nodes)" "map parse_plain_command_from_node nodes = map Some commands"
proof -
  from assms obtain tree found where t: "P script = Some tree" "\<not> has_error tree"
    and l: "word_only_loop [root_node tree] [] = Some found"
    and c: "those (map parse_plain_command_from_node (sort_key start_byte found)) = Some commands"
    by (auto simp: parse_shell_script_into_commands_def try_parse_word_only_commands_sequence_def
        split: Option.bind_splits if_splits)
  from word_only_loop_Some[OF l] c show thesis
    by (intro that[OF t, of "sort_key start_byte found"]) (simp_all add: those_Some mset_filter)
qed

text \<open>
  C18. Nothing in a script escapes the segments it is split into: when a script is accepted as a sequence
  of word-only commands, its syntax tree has no error and only nodes of the permitted kinds with
  literal words, and the segments are, in source order, the commands of all command nodes of the tree.
\<close>

theorem word_only_commands_complete:
  assumes "parse_shell_script_into_commands P script = Some commands"
  shows "\<exists>tree nodes. P script = Some tree \<and> \<not> has_error tree \<and>
    (\<forall>node \<in> set (nodes_of (root_node tree)). node_allowed node) \<and>
    mset nodes = filter_mset is_command (mset (nodes_of (root_node tree))) \<and>
    sorted (map start_byte nodes) \<and> map parse_plain_command_from_node nodes = map Some commands"
  using script_commands[OF assms] by metis

section \<open>Wrappers\<close>

text \<open>A forced \<open>rm\<close>, directly or behind wrappers.\<close>

inductive forced_rm :: "shell_parser \<Rightarrow> rstr list \<Rightarrow> bool" for P where
  rm: "executable_name_lookup_key program = Some (str ''rm'') \<Longrightarrow> rm_args_include_force_option args \<Longrightarrow>
    forced_rm P (program # args)"
| sudo: "executable_name_lookup_key program = Some (str ''sudo'') \<Longrightarrow> forced_rm P args \<Longrightarrow> forced_rm P (program # args)"
| env: "executable_name_lookup_key program = Some (str ''env'') \<Longrightarrow> forced_rm P (env_command args) \<Longrightarrow>
    forced_rm P (program # args)"
| trap: "executable_name_lookup_key program = Some (str ''trap'') \<Longrightarrow> trap_action args = Some action \<Longrightarrow>
    forced_rm P [str ''sh'', str ''-c'', action] \<Longrightarrow> forced_rm P (program # args)"
| script: "parse_shell_lc_literal_commands P command = Some commands \<Longrightarrow> c \<in> set commands \<Longrightarrow> forced_rm P c \<Longrightarrow>
    forced_rm P command"

lemma str_eq [simp]: "str a = str b \<longleftrightarrow> a = b"
  unfolding str_def by (rule inj_map_eq_map) (rule injI, simp)

lemma find_map_None: "find_map f xs = None \<longleftrightarrow> (\<forall>x \<in> set xs. f x = None)"
  by (induction xs) (auto split: option.split)

lemma find_map_Some: "find_map f xs = Some y \<Longrightarrow> \<exists>x \<in> set xs. f x = Some y"
  by (induction xs) (auto split: option.splits)

lemmas dangerous_simps =
  dangerous_command_match_with_depth.simps dangerous_command_match_for_exec.simps

lemma dangerous_exec:
  "dangerous_command_match_for_exec P command depth \<noteq> None \<Longrightarrow>
   dangerous_command_match_with_depth P command depth \<noteq> None"
  unfolding dangerous_simps(1)[of P command depth] by (auto split: option.split)

lemma forced_rm_found: "forced_rm P command \<Longrightarrow> dangerous_command_match_with_depth P command depth \<noteq> None"
proof (induction arbitrary: depth rule: forced_rm.induct)
  case (rm program args)
  then show ?case by (intro dangerous_exec) (simp add: dangerous_simps(2))
next
  case (sudo program args)
  then show ?case using sudo.IH[of "depth + 1"] by (intro dangerous_exec) (simp add: dangerous_simps(2))
next
  case (env program args)
  then show ?case using env.IH[of "depth + 1"] by (intro dangerous_exec) (simp add: dangerous_simps(2))
next
  case (trap program args action)
  then show ?case using trap.IH[of "depth + 1"] by (intro dangerous_exec) (simp add: dangerous_simps(2))
next
  case (script command commands c)
  let ?found = "find_map (\<lambda>command. dangerous_command_match_with_depth P command (depth + 1)) commands"
  have "?found \<noteq> None"
  proof
    assume "?found = None"
    then have "\<forall>x \<in> set commands. dangerous_command_match_with_depth P x (depth + 1) = None"
      by (simp only: find_map_None)
    with script.hyps(2) script.IH[of "depth + 1"] show False by simp
  qed
  with script.hyps(1) show ?case
    unfolding dangerous_simps(1)[of P command depth] by (auto split: option.split)
qed

lemma found_forced_rm:
  "dangerous_command_match_with_depth P command depth = Some ForcedRm \<Longrightarrow> forced_rm P command"
  "dangerous_command_match_for_exec P command depth = Some ForcedRm \<Longrightarrow> forced_rm P command"
  "dangerous_command_match_for_env P args depth = Some ForcedRm \<Longrightarrow> forced_rm P (env_command args)"
  "dangerous_command_match_for_trap P args depth = Some ForcedRm \<Longrightarrow>
     \<exists>action. trap_action args = Some action \<and> forced_rm P [str ''sh'', str ''-c'', action]"
proof (induction P command depth and P command depth and P args depth and P args depth
    rule: dangerous_command_match_with_depth_dangerous_command_match_for_exec_dangerous_command_match_for_env_dangerous_command_match_for_trap.induct)
  case (1 P command depth)
  note found = 1(3)[unfolded dangerous_simps(1)[of P command depth]]
  from found have d: "\<not> MAX_DANGEROUS_COMMAND_WRAPPER_DEPTH < depth" by (auto split: if_splits)
  show ?case
  proof (cases "dangerous_command_match_for_exec P command depth")
    case None
    with found d obtain commands where c: "parse_shell_lc_literal_commands P command = Some commands"
      and "find_map (\<lambda>command. dangerous_command_match_with_depth P command (depth + 1)) commands = Some ForcedRm"
      by (auto split: option.splits)
    then obtain x where "x \<in> set commands" "dangerous_command_match_with_depth P x (depth + 1) = Some ForcedRm"
      by (auto dest: find_map_Some)
    with 1(2)[OF d None c] c show ?thesis by (auto intro: forced_rm.script)
  next
    case (Some m)
    with found d 1(1)[OF d] show ?thesis by simp
  qed
next
  case (2 P command depth)
  then show ?case
    by (cases command) (auto simp: dangerous_simps(2) split: if_splits intro: forced_rm.intros)
qed (auto split: option.splits)


section \<open>Segments and literal commands\<close>

text \<open>In the Bash grammar the name of a command is the first named child of its node, and only that.\<close>

definition names_first :: "ts_tree \<Rightarrow> bool" where
  "names_first tree \<longleftrightarrow>
     (\<forall>node \<in> set (nodes_of (root_node tree)). is_command node \<longrightarrow>
        (case named_children node of
           [] \<Rightarrow> True
         | c # cs \<Rightarrow> ts_kind c = str ''command_name'' \<and> (\<forall>d \<in> set cs. ts_kind d \<noteq> str ''command_name'')))"

lemma nodes_of_child: "c \<in> set (ts_children node) \<Longrightarrow> set (nodes_of c) \<subseteq> set (nodes_of node)"
  by (subst (2) nodes_of_eq) auto

lemma nodes_of_self: "node \<in> set (nodes_of node)"
  by (subst nodes_of_eq) simp

lemma literal_loop_nodes:
  "command \<in> set (literal_loop stack cs) \<Longrightarrow> command \<in> set cs \<or>
   (\<exists>node \<in> set (concat (map nodes_of stack)). parse_literal_command_from_node node = Some command)"
proof (induction stack cs rule: literal_loop.induct)
  case (2 node stack cs)
  have "set (concat (map nodes_of (rev (named_children node)))) \<subseteq> set (nodes_of node)"
    using nodes_of_child[of _ node] by (auto simp: named_children_def)
  with 2 nodes_of_self[of node] show ?case
    by (fastforce split: option.splits)
qed simp

lemma literal_part:
  assumes "plain_part node = Some w" "is_named node" "node_allowed node"
  shows "parse_literal_shell_word node = Some w"
  using assms by (cases node) (auto simp: plain_part_def node_allowed_def Let_def split: if_splits)

lemma literal_parts:
  "those (map plain_part (filter is_named cs)) = Some ps \<Longrightarrow> \<forall>c \<in> set cs. node_allowed c \<Longrightarrow>
   concat_literal cs = Some (concat ps)"
proof (induction cs arbitrary: ps)
  case (Cons c cs)
  then show ?case by (auto simp: literal_part split: if_splits option.splits)
qed simp

lemma literal_word:
  assumes "plain_word node = Some w" "ts_kind node \<noteq> str ''command_name''" "is_named node"
    "\<forall>n \<in> set (nodes_of node). node_allowed n"
  shows "parse_literal_shell_word node = Some w"
proof (cases "ts_kind node = str ''concatenation''")
  case False
  with assms have "plain_part node = Some w" by (simp add: plain_word_def)
  then show ?thesis using assms(3,4) nodes_of_self by (intro literal_part) blast+
next
  case True
  obtain k n s t cs where node: "node = TsNode k n s t cs" by (cases node)
  from True assms(1,2) obtain ps where ps: "those (map plain_part (filter is_named cs)) = Some ps"
    and w: "concat ps \<noteq> []" "w = concat ps"
    by (auto simp: plain_word_def named_children_def node split: option.splits if_splits)
  have "\<forall>c \<in> set cs. node_allowed c"
    using assms(4) nodes_of_self by (auto simp: node)
  from literal_parts[OF ps this] w True show ?thesis
    by (simp add: node word_kind_def)
qed

lemma literal_words_plain:
  "those (map plain_word cs) = Some ws \<Longrightarrow> \<forall>c \<in> set cs. ts_kind c \<noteq> str ''command_name'' \<and> is_named c \<and>
     (\<forall>n \<in> set (nodes_of c). node_allowed n) \<Longrightarrow>
   literal_words acc True cs = Some (acc @ ws)"
  by (induction cs arbitrary: acc ws) (auto simp: literal_word split: option.splits)

lemma named_child_allowed:
  assumes "d \<in> set (named_children e)" "\<forall>n \<in> set (nodes_of e). node_allowed n"
  shows "is_named d" "\<forall>n \<in> set (nodes_of d). node_allowed n" "node_allowed d"
proof -
  from assms(1) have d: "d \<in> set (ts_children e)" "is_named d" by (simp_all add: named_children_def)
  then show "is_named d" by simp
  show all: "\<forall>n \<in> set (nodes_of d). node_allowed n" using nodes_of_child[OF d(1)] assms(2) by blast
  then show "node_allowed d" using nodes_of_self by blast
qed

lemma plain_name:
  assumes "plain_word c = Some w" "ts_kind c = str ''command_name''" "\<forall>n \<in> set (nodes_of c). node_allowed n"
  shows "Option.bind (named_child_0 c) parse_literal_shell_word = Some w"
proof -
  from assms(1,2) obtain wn where wn: "named_child_0 c = Some wn" "ts_kind wn = str ''word''" "utf8_text wn = Some w"
    by (cases "named_child_0 c") (auto simp: plain_word_def split: if_splits)
  then have "wn \<in> set (named_children c)" by (auto simp: named_child_0_def split: list.splits)
  note a = named_child_allowed[OF this assms(3)]
  from wn have "plain_part wn = Some w" by (simp add: plain_part_def word_kind_def)
  with wn(1) literal_part[OF _ a(1,3)] show ?thesis by simp
qed

lemma plain_literal_command:
  assumes "names_first tree" "node \<in> set (nodes_of (root_node tree))" "is_command node"
    and a: "\<forall>n \<in> set (nodes_of node). node_allowed n"
    and p: "parse_plain_command_from_node node = Some words"
    and l: "parse_literal_command_from_node node = Some command"
  shows "command = words"
proof (cases "named_children node")
  case Nil
  with l show ?thesis by (simp add: parse_literal_command_from_node_def split: if_splits)
next
  case (Cons c cs)
  have "case named_children node of [] \<Rightarrow> True
      | c # cs \<Rightarrow> ts_kind c = str ''command_name'' \<and> (\<forall>d \<in> set cs. ts_kind d \<noteq> str ''command_name'')"
    using assms(1-3) unfolding names_first_def by blast
  then have k: "ts_kind c = str ''command_name''" "\<forall>d \<in> set cs. ts_kind d \<noteq> str ''command_name''"
    unfolding Cons by simp_all
  have kind: "ts_kind node = str ''command''" using assms(3) by (simp add: is_command_def)
  with p have "map plain_word (named_children node) = map Some words"
    by (simp add: parse_plain_command_from_node_def those_Some)
  with Cons obtain w ws where w: "plain_word c = Some w" "those (map plain_word cs) = Some ws" "words = w # ws"
    by (cases words) (simp_all add: those_Some)
  have c: "c \<in> set (named_children node)" and cs: "\<And>d. d \<in> set cs \<Longrightarrow> d \<in> set (named_children node)"
    using Cons by simp_all
  have "\<forall>d \<in> set cs. ts_kind d \<noteq> str ''command_name'' \<and> is_named d \<and> (\<forall>n \<in> set (nodes_of d). node_allowed n)"
    using k(2) named_child_allowed(1,2)[OF cs a] by blast
  from literal_words_plain[OF w(2) this, of "[w]"] have "literal_words [w] True cs = Some words"
    using w(3) by simp
  then show ?thesis
    using l kind k(1) plain_name[OF w(1) k(1) named_child_allowed(2)[OF c a]]
    unfolding parse_literal_command_from_node_def Cons by simp
qed

lemma wrapper_stem:
  assumes "file_name_of (path_components p) = Some n" "n \<in> {str ''rm'', str ''sudo'', str ''env'', str ''trap''}"
  shows "file_stem p = Some n"
proof -
  have "46 \<notin> set n" using assms(2) by (auto simp: str_def)
  with assms(1) show ?thesis by (simp add: file_stem_def rsplit_once_char_def del: file_name_of.simps)
qed

lemma wrapper_name:
  assumes "n \<in> {str ''rm'', str ''sudo'', str ''env'', str ''trap''}"
  shows "file_name_of (path_components n) = Some n" "shell_of_name n = None"
  using assms by (elim insertE emptyE; simp add: policy_eval str_eval shell_of_name_def)+

lemma shell_name:
  assumes "shell_of_name p \<noteq> None"
  shows "file_name_of (path_components p) = Some p"
proof -
  from assms have "p \<in> {str ''zsh'', str ''sh'', str ''cmd'', str ''bash'', str ''pwsh'', str ''powershell''}"
    by (simp add: shell_of_name_def split: if_splits)
  then show ?thesis by (elim insertE emptyE; simp add: policy_eval str_eval)
qed

lemma wrapper_not_shell:
  assumes "executable_name_lookup_key shell = Some n" and n: "n \<in> {str ''rm'', str ''sudo'', str ''env'', str ''trap''}"
  shows "detect_shell_type shell = None"
proof -
  have f: "file_name_of (path_components shell) = Some n"
    using assms(1) by (simp only: executable_name_lookup_key_def)
  have "shell_of_name shell = None"
  proof (rule ccontr)
    assume s: "shell_of_name shell \<noteq> None"
    then have "shell = n" using shell_name[OF s] f by (simp only: option.inject)
    with s wrapper_name(2)[OF n] show False by simp
  qed
  moreover have "detect_shell_type n = None"
    by (subst detect_shell_type.simps)
      (simp only: wrapper_name(2)[OF n] wrapper_stem[OF wrapper_name(1)[OF n] n] option.case simp_thms if_False)
  ultimately show ?thesis
    by (subst detect_shell_type.simps) (simp only: wrapper_stem[OF f n] option.case if_cancel)
qed

lemma allowed_command:
  assumes "node_allowed node" "ts_kind node = str ''command''"
  shows "is_command node"
proof -
  have "str ''command'' \<notin> set allowed_punct_tokens" "trim (str ''command'') \<noteq> []"
    by (simp_all add: allowed_punct_tokens_def str_eval)
  with assms show ?thesis by (simp add: node_allowed_def is_command_def Let_def split: if_splits)
qed

lemma nodes_of_trans: "m \<in> set (nodes_of r) \<Longrightarrow> set (nodes_of m) \<subseteq> set (nodes_of r)"
proof (induction r)
  case (TsNode k nm s t cs)
  then consider "m = TsNode k nm s t cs" | c where "c \<in> set cs" "m \<in> set (nodes_of c)" by auto
  then show ?case
  proof cases
    case 2
    with TsNode.IH[OF 2(1,2)] nodes_of_child[of c "TsNode k nm s t cs"] show ?thesis by auto
  qed simp
qed

lemma segments_forced_rm:
  assumes grammar: "\<And>script tree. P script = Some tree \<Longrightarrow> names_first tree"
    and segs: "parse_shell_lc_plain_commands P command = Some segments"
    and rm: "forced_rm P command"
  shows "\<exists>segment \<in> set segments. forced_rm P segment"
proof -
  obtain shell flag script where c: "command = [shell, flag, script]"
    and e: "extract_bash_command command = Some (shell, script)"
    and p: "parse_shell_script_into_commands P script = Some segments"
    using segs by (cases "extract_bash_command command")
      (auto simp: parse_shell_lc_plain_commands_def extract_bash_command_def split: list.splits if_splits)
  have "detect_shell_type shell \<noteq> None"
    using e c by (auto simp: extract_bash_command_def split: if_splits)
  then have name: "executable_name_lookup_key shell \<noteq> Some n"
    if "n \<in> {str ''rm'', str ''sudo'', str ''env'', str ''trap''}" for n
    using wrapper_not_shell[OF _ that, of shell] by (intro notI) simp
  from rm obtain commands x where l: "parse_shell_lc_literal_commands P command = Some commands"
    "x \<in> set commands" "forced_rm P x"
    by (cases rule: forced_rm.cases)
      (use name[of "str ''rm''"] name[of "str ''sudo''"] name[of "str ''env''"] name[of "str ''trap''"] c in simp_all)
  obtain tree nodes where t: "P script = Some tree" "\<not> has_error tree"
    "\<forall>node \<in> set (nodes_of (root_node tree)). node_allowed node"
    "mset nodes = filter_mset is_command (mset (nodes_of (root_node tree)))"
    "map parse_plain_command_from_node nodes = map Some segments"
    using script_commands[OF p] by metis
  from l(1) e t(1,2) have "commands = literal_loop [root_node tree] []"
    by (simp add: parse_shell_lc_literal_commands_def)
  with l(2) literal_loop_nodes[of x "[root_node tree]" "[]"] obtain node where
    n: "node \<in> set (nodes_of (root_node tree))" "parse_literal_command_from_node node = Some x"
    by auto
  then have kind: "ts_kind node = str ''command''"
    by (simp add: parse_literal_command_from_node_def split: if_splits)
  from n(1) t(3) have "node_allowed node" by blast
  then have "is_command node" by (rule allowed_command[OF _ kind])
  moreover have "set nodes = {node \<in> set (nodes_of (root_node tree)). is_command node}"
    using arg_cong[OF t(4), of set_mset] by simp
  ultimately have "node \<in> set nodes" using n(1) by blast
  then have "parse_plain_command_from_node node \<in> set (map Some segments)"
    unfolding t(5)[symmetric] by simp
  then obtain seg where seg: "parse_plain_command_from_node node = Some seg" "seg \<in> set segments"
    by auto
  have "\<forall>m \<in> set (nodes_of node). node_allowed m"
    using nodes_of_trans[OF n(1)] t(3) by blast
  from plain_literal_command[OF grammar[OF t(1)] n(1) \<open>is_command node\<close> this seg(1) n(2)] seg(2) l(3)
  show ?thesis by blast
qed

section \<open>Examples\<close>

definition ls_tree :: ts_tree where
  "ls_tree = \<lparr>root_node = TsNode (str ''program'') True 0 (Some (str ''ls''))
     [TsNode (str ''command'') True 0 (Some (str ''ls''))
       [TsNode (str ''command_name'') True 0 (Some (str ''ls'')) [TsNode (str ''word'') True 0 (Some (str ''ls'')) []]]],
     has_error = False\<rparr>"

lemma ls_tree_commands: "parse_shell_script_into_commands (\<lambda>_. Some ls_tree) (str ''ls'') = Some [[str ''ls'']]"
  by (simp add: parse_shell_script_into_commands_def try_parse_word_only_commands_sequence_def ls_tree_def
      node_allowed_def allowed_kinds_def word_kind_def is_literal_word_or_number_def named_children_def
      parse_plain_command_from_node_def plain_word_def named_child_0_def expansion_chars_def str_eval)

theorem word_only_commands_complete_witness:
  "parse_shell_script_into_commands (\<lambda>_. Some ls_tree) (str ''ls'') = Some [[str ''ls'']] \<and>
   (\<exists>nodes. mset nodes = filter_mset is_command (mset (nodes_of (root_node ls_tree))) \<and>
      map parse_plain_command_from_node nodes = map Some [[str ''ls'']])"
  using word_only_commands_complete[OF ls_tree_commands] ls_tree_commands by auto


end
