(* ===== verification/Command_Approval.thy ===== *)
theory Command_Approval
  imports Exec_Policy Shell_Commands Policy_Amend
begin

text \<open>
  \<open>core/src/exec_policy.rs\<close> and \<open>exec_policy/model_policy.rs\<close>, as compiled for Unix: whether a command may
  run, needs the approval of the user or is forbidden, from the rules of the execution policy, the
  heuristics for commands no rule matches, and the approval policy of the session; and the rule that an
  approval adds.  The manager's state is its policy; its lock and the tasks it spawns only order
  the calls, and their own failures (a closed lock, a task that cannot be joined) are left out.  The Tree-sitter parser and \<open>shlex\<close> quoting are arguments.  On Unix the level of the Windows
  sandbox is not read, and all commands have the generic origin.
\<close>

section \<open>Sandbox and approval settings\<close>

datatype sandbox_permissions = UseDefault | RequireEscalated | WithAdditionalPermissions

definition requests_sandbox_override :: "sandbox_permissions \<Rightarrow> bool" where
  "requests_sandbox_override p \<longleftrightarrow> p \<noteq> UseDefault"

datatype file_system_sandbox_kind = RestrictedKind | UnrestrictedKind | ExternalSandboxKind

record 'e file_system_sandbox_policy =
  fs_kind :: file_system_sandbox_kind
  glob_scan_max_depth :: "nat option"
  fs_entries :: "'e list"

definition fs_unrestricted :: "'e file_system_sandbox_policy" where
  "fs_unrestricted = \<lparr>fs_kind = UnrestrictedKind, glob_scan_max_depth = None, fs_entries = []\<rparr>"

definition fs_external_sandbox :: "'e file_system_sandbox_policy" where
  "fs_external_sandbox = \<lparr>fs_kind = ExternalSandboxKind, glob_scan_max_depth = None, fs_entries = []\<rparr>"

datatype network_sandbox_policy = NetworkRestricted | NetworkEnabled

datatype 'e managed_file_system_permissions = ManagedRestricted "'e list" "nat option" | ManagedUnrestricted

fun to_sandbox_policy :: "'e managed_file_system_permissions \<Rightarrow> 'e file_system_sandbox_policy" where
  "to_sandbox_policy (ManagedRestricted entries depth) =
     \<lparr>fs_kind = RestrictedKind, glob_scan_max_depth = depth, fs_entries = entries\<rparr>"
| "to_sandbox_policy ManagedUnrestricted = fs_unrestricted"

datatype 'e permission_profile =
    ManagedProfile "'e managed_file_system_permissions" network_sandbox_policy
  | DisabledProfile
  | ExternalProfile network_sandbox_policy

fun profile_sandbox_policy :: "'e permission_profile \<Rightarrow> 'e file_system_sandbox_policy" where
  "profile_sandbox_policy (ManagedProfile file_system _) = to_sandbox_policy file_system"
| "profile_sandbox_policy DisabledProfile = fs_unrestricted"
| "profile_sandbox_policy (ExternalProfile _) = fs_external_sandbox"

record granular_approval_config =
  sandbox_approval :: bool
  rules_approval :: bool
  skill_approval :: bool
  request_permissions :: bool
  mcp_elicitations :: bool

datatype ask_for_approval = UnlessTrusted | OnRequest | Granular granular_approval_config | Never

definition prompt_is_rejected_by_policy :: "ask_for_approval \<Rightarrow> bool \<Rightarrow> rstr option" where
  "prompt_is_rejected_by_policy policy prompt_is_rule =
     (case policy of
        Never \<Rightarrow> Some (str ''approval required by policy, but AskForApproval is set to Never'')
      | OnRequest \<Rightarrow> None
      | UnlessTrusted \<Rightarrow> None
      | Granular config \<Rightarrow>
          if prompt_is_rule
          then if \<not> rules_approval config
               then Some (str ''approval required by policy rule, but AskForApproval::Granular.rules is false'')
               else None
          else if \<not> sandbox_approval config
          then Some (str ''approval required by policy, but AskForApproval::Granular.sandbox_approval is false'')
          else None)"

section \<open>Commands that no rule matches\<close>

record 'e unmatched_command_context =
  ucc_approval_policy :: ask_for_approval
  ucc_permission_profile :: "'e permission_profile"
  ucc_sandbox_permissions :: sandbox_permissions

definition decision_by_sandbox :: "file_system_sandbox_kind \<Rightarrow> sandbox_permissions \<Rightarrow> decision" where
  "decision_by_sandbox kind permissions =
     (case kind of
        UnrestrictedKind \<Rightarrow> Allow
      | ExternalSandboxKind \<Rightarrow> Allow
      | RestrictedKind \<Rightarrow> if requests_sandbox_override permissions then Prompt else Allow)"

definition render_decision_for_unmatched_command ::
    "shell_parser \<Rightarrow> rstr list \<Rightarrow> 'e unmatched_command_context \<Rightarrow> decision" where
  "render_decision_for_unmatched_command P command context =
     (let kind = fs_kind (profile_sandbox_policy (ucc_permission_profile context))
      in if dangerous_command_match P command \<noteq> None
         then (case ucc_approval_policy context of Never \<Rightarrow> Forbidden | _ \<Rightarrow> Prompt)
         else (case ucc_approval_policy context of
                 Never \<Rightarrow> Allow
               | UnlessTrusted \<Rightarrow> Prompt
               | OnRequest \<Rightarrow> decision_by_sandbox kind (ucc_sandbox_permissions context)
               | Granular _ \<Rightarrow> decision_by_sandbox kind (ucc_sandbox_permissions context)))"

definition commands_for_exec_policy :: "shell_parser \<Rightarrow> rstr list \<Rightarrow> rstr list list" where
  "commands_for_exec_policy P command =
     (case parse_shell_lc_plain_commands P command of
        Some commands \<Rightarrow> if commands \<noteq> [] then commands else [command]
      | None \<Rightarrow> [command])"

section \<open>Reasons\<close>

fun is_policy_match :: "rule_match \<Rightarrow> bool" where
  "is_policy_match (PrefixRuleMatch _ _ _ _) \<longleftrightarrow> True"
| "is_policy_match (HeuristicsRuleMatch _ _) \<longleftrightarrow> False"

type_synonym shlex_join = "rstr list \<Rightarrow> rstr option"

definition render_shlex_command :: "shlex_join \<Rightarrow> rstr list \<Rightarrow> rstr" where
  "render_shlex_command shlex_try_join args =
     (case shlex_try_join args of Some s \<Rightarrow> s | None \<Rightarrow> join (str '' '') args)"

text \<open>\<open>Iterator::max_by_key\<close>: the last of the greatest elements.\<close>

definition max_by_key :: "('a \<Rightarrow> nat) \<Rightarrow> 'a list \<Rightarrow> 'a option" where
  "max_by_key key xs =
     foldl (\<lambda>best x. case best of None \<Rightarrow> Some x | Some b \<Rightarrow> if key b \<le> key x then Some x else Some b) None xs"

fun prefix_match_with :: "decision \<Rightarrow> rule_match \<Rightarrow> (rstr list \<times> rstr option) option" where
  "prefix_match_with d (PrefixRuleMatch matched_prefix d' _ justification) =
     (if d' = d then Some (matched_prefix, justification) else None)"
| "prefix_match_with d (HeuristicsRuleMatch _ _) = None"

definition most_specific :: "decision \<Rightarrow> evaluation \<Rightarrow> (rstr list \<times> rstr option) option" where
  "most_specific d ev =
     max_by_key (\<lambda>(matched_prefix, _). length matched_prefix)
       (List.map_filter (prefix_match_with d) (ev_matched_rules ev))"

definition derive_prompt_reason :: "shlex_join \<Rightarrow> rstr list \<Rightarrow> evaluation \<Rightarrow> rstr option" where
  "derive_prompt_reason sj command_args ev =
     (let command = render_shlex_command sj command_args
      in case most_specific Prompt ev of
           Some (_, Some justification) \<Rightarrow>
             Some (str ''`'' @ command @ str ''` requires approval: '' @ justification)
         | Some (_, None) \<Rightarrow> Some (str ''`'' @ command @ str ''` requires approval by policy'')
         | None \<Rightarrow> None)"

fun dangerous_command_rejection_reason :: "dangerous_command_kind \<Rightarrow> rstr" where
  "dangerous_command_rejection_reason ForcedRm =
     str ''rm -f style commands are not permitted. Use a safer approach''"
| "dangerous_command_rejection_reason OtherDanger = str ''blocked by policy''"

definition derive_forbidden_reason ::
    "shlex_join \<Rightarrow> rstr list \<Rightarrow> evaluation \<Rightarrow> dangerous_command_kind option \<Rightarrow> rstr" where
  "derive_forbidden_reason sj command_args ev dangerous =
     (let command = render_shlex_command sj command_args
      in case most_specific Forbidden ev of
           Some (_, Some justification) \<Rightarrow> str ''`'' @ command @ str ''` rejected: '' @ justification
         | Some (matched_prefix, None) \<Rightarrow>
             str ''`'' @ command @ str ''` rejected: policy forbids commands starting with `'' @
             render_shlex_command sj matched_prefix @ str ''`''
         | None \<Rightarrow>
             (case dangerous of
                Some m \<Rightarrow> str ''`'' @ command @ str ''` rejected: '' @ dangerous_command_rejection_reason m
              | None \<Rightarrow> str ''`'' @ command @ str ''` rejected: blocked by policy''))"

definition derive_rejected_prompt_reason :: "rstr \<Rightarrow> dangerous_command_kind option \<Rightarrow> rstr" where
  "derive_rejected_prompt_reason fallback_reason dangerous =
     (case dangerous of
        Some ForcedRm \<Rightarrow> dangerous_command_rejection_reason ForcedRm
      | _ \<Rightarrow> fallback_reason)"

fun heuristics_match_with :: "decision \<Rightarrow> rule_match \<Rightarrow> rstr list option" where
  "heuristics_match_with d (HeuristicsRuleMatch command d') = (if d' = d then Some command else None)"
| "heuristics_match_with d (PrefixRuleMatch _ _ _ _) = None"

definition dangerous_command_match_for_heuristics ::
    "shell_parser \<Rightarrow> evaluation \<Rightarrow> decision \<Rightarrow> dangerous_command_kind option" where
  "dangerous_command_match_for_heuristics P ev d =
     find_map (\<lambda>m. Option.bind (heuristics_match_with d m) (dangerous_command_match P)) (ev_matched_rules ev)"

section \<open>Proposed amendments\<close>

definition BANNED_PREFIX_SUGGESTIONS :: "rstr list list" where
  "BANNED_PREFIX_SUGGESTIONS = map (map str)
       [[''/bin/bash''], [''/bin/bash'', ''-c''], [''/bin/bash'', ''-lc''], [''/bin/sh''],
        [''/bin/sh'', ''-c''], [''/bin/sh'', ''-lc''], [''/bin/zsh''], [''/bin/zsh'', ''-c''],
        [''/bin/zsh'', ''-lc''], [''Rscript''], [''bash''], [''bash'', ''-c''], [''bash'', ''-lc''],
        [''bun''], [''bun'', ''-e''], [''bun'', ''run''], [''cmd''], [''cmd'', ''/c''], [''cmd'', ''/k''],
        [''cmd.exe''], [''cmd.exe'', ''/c''], [''cmd.exe'', ''/k''], [''dash''], [''dash'', ''-c''],
        [''deno''], [''deno'', ''eval''], [''env''], [''fish''], [''fish'', ''-c''], [''git''], [''julia''],
        [''julia'', ''-e''], [''ksh''], [''ksh'', ''-c''], [''lua''], [''lua'', ''-e''], [''node''],
        [''node'', ''-e''], [''nodejs''], [''nodejs'', ''-e''], [''npm'', ''run''], [''osascript''],
        [''perl''], [''perl'', ''-e''], [''php''], [''php'', ''-r''], [''pnpm'', ''run''], [''powershell''],
        [''powershell'', ''-Command''], [''powershell'', ''-EncodedCommand''], [''powershell'', ''-File''],
        [''powershell'', ''-c''], [''powershell.exe''], [''powershell.exe'', ''-Command''],
        [''powershell.exe'', ''-EncodedCommand''], [''powershell.exe'', ''-File''],
        [''powershell.exe'', ''-c''], [''pwsh''], [''pwsh'', ''-Command''], [''pwsh'', ''-EncodedCommand''],
        [''pwsh'', ''-File''], [''pwsh'', ''-c''], [''pwsh'', ''-e''], [''pwsh'', ''-ec''],
        [''pwsh'', ''-f''], [''py''], [''py'', ''-3''], [''pypy''], [''pypy3''], [''python''],
        [''python'', ''-''], [''python'', ''-c''], [''python3''], [''python3'', ''-''],
        [''python3'', ''-c''], [''pythonw''], [''pyw''], [''rm''], [''ruby''], [''ruby'', ''-e''], [''sh''],
        [''sh'', ''-c''], [''sh'', ''-lc''], [''sudo''], [''yarn'', ''run''], [''zsh''], [''zsh'', ''-c''],
        [''zsh'', ''-lc'']]"

definition is_prompt_rule :: "rule_match \<Rightarrow> bool" where
  "is_prompt_rule m \<longleftrightarrow> is_policy_match m \<and> match_decision m = Prompt"

definition is_allow_rule :: "rule_match \<Rightarrow> bool" where
  "is_allow_rule m \<longleftrightarrow> is_policy_match m \<and> match_decision m = Allow"

definition try_derive_execpolicy_amendment_for_prompt_rules :: "rule_match list \<Rightarrow> rstr list option" where
  "try_derive_execpolicy_amendment_for_prompt_rules matched_rules =
     (if list_ex is_prompt_rule matched_rules then None
      else find_map (heuristics_match_with Prompt) matched_rules)"

definition try_derive_execpolicy_amendment_for_allow_rules :: "rule_match list \<Rightarrow> rstr list option" where
  "try_derive_execpolicy_amendment_for_allow_rules matched_rules =
     (if list_ex is_policy_match matched_rules then None
      else find_map (heuristics_match_with Allow) matched_rules)"

text \<open>A check with a fallback always has a result (\<open>matches_nonempty\<close>).\<close>

definition prefix_rule_would_approve_all_commands ::
    "'m rule_map \<Rightarrow> process_dirs \<Rightarrow> 'm policy \<Rightarrow> rstr list \<Rightarrow> rstr list list \<Rightarrow> (rstr list \<Rightarrow> decision) \<Rightarrow>
     match_options \<Rightarrow> bool" where
  "prefix_rule_would_approve_all_commands mm dirs p prefix_rule commands fallback options =
     (case add_prefix_rule mm p prefix_rule Allow of
        Inl _ \<Rightarrow> False
      | Inr policy_with_prefix_rule \<Rightarrow>
          list_all (\<lambda>command. map_option ev_decision
            (check_with_options mm dirs policy_with_prefix_rule command fallback options) = Some Allow) commands)"

definition derive_requested_execpolicy_amendment_from_prefix_rule ::
    "'m rule_map \<Rightarrow> process_dirs \<Rightarrow> rstr list option \<Rightarrow> rule_match list \<Rightarrow> 'm policy \<Rightarrow> rstr list list \<Rightarrow>
     (rstr list \<Rightarrow> decision) \<Rightarrow> match_options \<Rightarrow> rstr list option" where
  "derive_requested_execpolicy_amendment_from_prefix_rule mm dirs prefix_rule matched_rules p commands fallback options =
     (case prefix_rule of
        None \<Rightarrow> None
      | Some prefix_rule \<Rightarrow>
          if prefix_rule = [] \<or> prefix_rule \<in> set BANNED_PREFIX_SUGGESTIONS
             \<or> list_ex is_policy_match matched_rules then None
          else if prefix_rule_would_approve_all_commands mm dirs p prefix_rule commands fallback options
          then Some prefix_rule else None)"

section \<open>The requirement\<close>

datatype exec_approval_requirement =
    Skip bool "rstr list option"  \<comment> \<open>bypass the sandbox, proposed amendment\<close>
  | NeedsApproval "rstr option" "rstr list option"  \<comment> \<open>reason, proposed amendment\<close>
  | ForbiddenCommand rstr

datatype allow_prefix_rules = Honor | IgnoreForCyberModel

record ('m, 'e) exec_approval_request =
  req_command :: "rstr list"
  req_approval_policy :: ask_for_approval
  req_permission_profile :: "'e permission_profile"
  req_environment_policy :: "'m policy option"
  req_sandbox_permissions :: sandbox_permissions
  req_prefix_rule :: "rstr list option"
  req_allow_prefix_rules :: allow_prefix_rules

definition current_for_prefix_rules :: "'m rule_map \<Rightarrow> 'm policy \<Rightarrow> allow_prefix_rules \<Rightarrow> 'm policy" where
  "current_for_prefix_rules mm p allow_prefix_rules =
     (if allow_prefix_rules = Honor then p
      else policy_from_parts
        (insert_rules mm (mm_new mm)
           (map (\<lambda>(program, rules). (program, filter (\<lambda>rule. pr_decision rule \<noteq> Allow) rules))
              (mm_iter_all mm (rules_by_program p))))
        (network_rules p) (host_executables_by_name p))"

definition current_for_environment ::
    "'m rule_map \<Rightarrow> 'm policy \<Rightarrow> 'm policy option \<Rightarrow> allow_prefix_rules \<Rightarrow> 'm policy" where
  "current_for_environment mm p environment_policy allow_prefix_rules =
     (let p = current_for_prefix_rules mm p allow_prefix_rules
      in case environment_policy of Some overlay \<Rightarrow> merge_overlay mm p overlay | None \<Rightarrow> p)"

definition exec_policy_fallback :: "shell_parser \<Rightarrow> ('m, 'e) exec_approval_request \<Rightarrow> rstr list \<Rightarrow> decision" where
  "exec_policy_fallback P req cmd =
     render_decision_for_unmatched_command P cmd
       \<lparr>ucc_approval_policy = req_approval_policy req, ucc_permission_profile = req_permission_profile req,
        ucc_sandbox_permissions = req_sandbox_permissions req\<rparr>"

abbreviation host_options :: match_options where
  "host_options \<equiv> \<lparr>resolve_host_executables = True\<rparr>"

definition create_exec_approval_requirement_for_parsed_commands ::
    "'m rule_map \<Rightarrow> process_dirs \<Rightarrow> shell_parser \<Rightarrow> shlex_join \<Rightarrow> 'm policy \<Rightarrow> ('m, 'e) exec_approval_request \<Rightarrow>
     rstr list list \<Rightarrow> exec_approval_requirement option" where
  "create_exec_approval_requirement_for_parsed_commands mm dirs P sj policy req commands =
     (let p = current_for_environment mm policy (req_environment_policy req) (req_allow_prefix_rules req);
          auto_amendment_allowed = (req_allow_prefix_rules req = Honor);
          fallback = exec_policy_fallback P req
      in Option.bind (check_multiple_with_options mm dirs p commands fallback host_options) (\<lambda>ev.
           let requested_amendment =
                 (if auto_amendment_allowed
                  then derive_requested_execpolicy_amendment_from_prefix_rule mm dirs (req_prefix_rule req)
                         (ev_matched_rules ev) p commands fallback host_options
                  else None)
           in Some (case ev_decision ev of
                Forbidden \<Rightarrow>
                  ForbiddenCommand (derive_forbidden_reason sj (req_command req) ev
                    (dangerous_command_match_for_heuristics P ev Forbidden))
              | Prompt \<Rightarrow>
                  (let prompt_is_rule = list_ex is_prompt_rule (ev_matched_rules ev)
                   in case prompt_is_rejected_by_policy (req_approval_policy req) prompt_is_rule of
                        Some reason \<Rightarrow>
                          ForbiddenCommand (if prompt_is_rule then reason
                            else derive_rejected_prompt_reason reason
                                   (dangerous_command_match_for_heuristics P ev Prompt))
                      | None \<Rightarrow>
                          NeedsApproval (derive_prompt_reason sj (req_command req) ev)
                            (case requested_amendment of
                               Some amendment \<Rightarrow> Some amendment
                             | None \<Rightarrow>
                                 if auto_amendment_allowed
                                 then try_derive_execpolicy_amendment_for_prompt_rules (ev_matched_rules ev)
                                 else None))
              | Allow \<Rightarrow>
                  Skip (list_all (\<lambda>command. list_ex is_allow_rule
                          (matches_for_command_with_options mm dirs p command None host_options)) commands)
                    (if auto_amendment_allowed
                     then try_derive_execpolicy_amendment_for_allow_rules (ev_matched_rules ev) else None))))"

definition create_exec_approval_requirement_for_command ::
    "'m rule_map \<Rightarrow> process_dirs \<Rightarrow> shell_parser \<Rightarrow> shlex_join \<Rightarrow> 'm policy \<Rightarrow> ('m, 'e) exec_approval_request \<Rightarrow>
     exec_approval_requirement option" where
  "create_exec_approval_requirement_for_command mm dirs P sj policy req =
     create_exec_approval_requirement_for_parsed_commands mm dirs P sj policy req
       (commands_for_exec_policy P (req_command req))"

section \<open>Adding rules\<close>

datatype exec_policy_update_error = AppendRule rstr amend_error | AddRule exec_error

definition default_policy_path :: "rstr \<Rightarrow> rstr" where
  "default_policy_path codex_home = path_join (path_join codex_home (str ''rules'')) (str ''default.rules'')"

text \<open>\<open>None\<close> is a failing \<open>expect\<close>.  The policy changes only when the file was written.\<close>

definition append_amendment_and_update ::
    "'m rule_map \<Rightarrow> process_dirs \<Rightarrow> json \<Rightarrow> 'w amend_io \<Rightarrow> rstr \<Rightarrow> rstr list \<Rightarrow> 'm policy \<Rightarrow> 'w \<Rightarrow>
     ('w \<times> (exec_policy_update_error + 'm policy)) option" where
  "append_amendment_and_update mm dirs js io codex_home amendment p w =
     (let policy_path = default_policy_path codex_home
      in case blocking_append_allow_prefix_rule js io policy_path amendment w of
           (w, Inl e) \<Rightarrow> Some (w, Err (AppendRule policy_path e))
         | (w, Inr _) \<Rightarrow>
             map_option (\<lambda>existing.
               if ev_decision existing = Allow \<and> list_ex is_allow_rule (ev_matched_rules existing)
               then (w, Ok p)
               else (w, case add_prefix_rule mm p amendment Allow of Inl e \<Rightarrow> Err (AddRule e) | Inr p' \<Rightarrow> Ok p'))
               (check_multiple_with_options mm dirs p [amendment] (\<lambda>_. Forbidden) host_options))"

definition append_network_rule_and_update ::
    "json \<Rightarrow> 'w amend_io \<Rightarrow> rstr \<Rightarrow> rstr \<Rightarrow> network_rule_protocol \<Rightarrow> decision \<Rightarrow> rstr option \<Rightarrow> 'm policy \<Rightarrow> 'w \<Rightarrow>
     'w \<times> (exec_policy_update_error + 'm policy)" where
  "append_network_rule_and_update js io codex_home host protocol dec justification p w =
     (let policy_path = default_policy_path codex_home
      in case blocking_append_network_rule js io policy_path host protocol dec justification w of
           (w, Inl e) \<Rightarrow> (w, Err (AppendRule policy_path e))
         | (w, Inr _) \<Rightarrow>
             (w, case add_network_rule p host protocol dec justification of Inl e \<Rightarrow> Err (AddRule e) | Inr p' \<Rightarrow> Ok p'))"

section \<open>Segments and their decisions\<close>

text \<open>The rules that match one segment, and the decision for it: the strictest rule, else the heuristics.\<close>

abbreviation segment_rules :: "'m rule_map \<Rightarrow> process_dirs \<Rightarrow> 'm policy \<Rightarrow> rstr list \<Rightarrow> rule_match list" where
  "segment_rules mm dirs p cmd \<equiv> matches_for_command_with_options mm dirs p cmd None host_options"

definition segment_decision ::
    "'m rule_map \<Rightarrow> process_dirs \<Rightarrow> 'm policy \<Rightarrow> (rstr list \<Rightarrow> decision) \<Rightarrow> rstr list \<Rightarrow> decision" where
  "segment_decision mm dirs p fallback cmd =
     (if segment_rules mm dirs p cmd = [] then fallback cmd
      else Max (match_decision ` set (segment_rules mm dirs p cmd)))"

lemma rules_or_heuristics:
  "matches_for_command_with_options mm dirs p cmd (Some f) options =
     (if matches_for_command_with_options mm dirs p cmd None options = [] then [HeuristicsRuleMatch cmd (f cmd)]
      else matches_for_command_with_options mm dirs p cmd None options)"
  by (simp add: matches_for_command_with_options_def Let_def)

lemma rule_matches_policy: "rule_matches rule cmd = Some m \<Longrightarrow> is_policy_match m"
  by (auto simp: rule_matches_def)

lemma with_resolved_program_policy: "is_policy_match (with_resolved_program program m) = is_policy_match m"
  by (cases m) simp_all

lemma exact_policy_match:
  "match_exact_rules mm p cmd = Some ms \<Longrightarrow> m \<in> set ms \<Longrightarrow> is_policy_match m"
  by (auto simp: match_exact_rules_def map_filter_def split: list.splits) (erule rule_matches_policy)

lemma segment_rules_policy:
  assumes "m \<in> set (matches_for_command_with_options mm dirs p cmd None options)"
  shows "is_policy_match m"
proof -
  consider ms where "match_exact_rules mm p cmd = Some ms" "m \<in> set ms"
    | "m \<in> set (match_host_executable_rules mm dirs p cmd)"
    using assms by (auto simp: matches_for_command_with_options_def Let_def split: if_splits option.splits)
  then show ?thesis
  proof cases
    case 2
    then show ?thesis
      by (rule host_executable_matchE) (auto simp: with_resolved_program_policy dest: rule_matches_policy)
  qed (rule exact_policy_match)
qed

lemma segment_decision_Max:
  "Max (match_decision ` set (matches_for_command_with_options mm dirs p cmd (Some f) host_options)) =
     segment_decision mm dirs p f cmd"
  by (subst rules_or_heuristics) (simp add: segment_decision_def)

lemma check_with_options_decision:
  "check_with_options mm dirs p cmd f host_options =
     Some \<lparr>ev_decision = segment_decision mm dirs p f cmd,
       ev_matched_rules = matches_for_command_with_options mm dirs p cmd (Some f) host_options\<rparr>"
  by (simp add: check_with_options_def evaluation_from_matches_def max_decision_Some matches_nonempty segment_decision_Max)

definition all_matches ::
    "'m rule_map \<Rightarrow> process_dirs \<Rightarrow> 'm policy \<Rightarrow> (rstr list \<Rightarrow> decision) \<Rightarrow> rstr list list \<Rightarrow> rule_match list" where
  "all_matches mm dirs p f commands =
     concat (map (\<lambda>cmd. matches_for_command_with_options mm dirs p cmd (Some f) host_options) commands)"

lemma check_multiple_decision:
  assumes "commands \<noteq> []"
  shows "check_multiple_with_options mm dirs p commands f host_options =
     Some \<lparr>ev_decision = Max (segment_decision mm dirs p f ` set commands),
       ev_matched_rules = all_matches mm dirs p f commands\<rparr>"
proof -
  let ?m = "\<lambda>cmd. matches_for_command_with_options mm dirs p cmd (Some f) host_options"
  have ne: "all_matches mm dirs p f commands \<noteq> []"
    using assms matches_nonempty[of mm dirs p _ f host_options] by (cases commands) (simp_all add: all_matches_def)
  have "match_decision ` set (all_matches mm dirs p f commands) =
      (\<Union>cmd \<in> set commands. match_decision ` set (?m cmd))"
    by (auto simp: all_matches_def)
  then have "Max (match_decision ` set (all_matches mm dirs p f commands)) =
      Max ((\<lambda>cmd. Max (match_decision ` set (?m cmd))) ` set commands)"
    using assms matches_nonempty[of mm dirs p _ f host_options] by (simp only:) (intro Max_UN, auto)
  with ne show ?thesis
    by (simp add: check_multiple_with_options_def evaluation_from_matches_def max_decision_Some
        segment_decision_Max flip: all_matches_def)
qed

lemma prompt_rule_segments:
  "list_ex is_prompt_rule (all_matches mm dirs p f commands) \<longleftrightarrow>
     (\<exists>cmd \<in> set commands. Prompt \<in> match_decision ` set (segment_rules mm dirs p cmd))"
proof -
  have "list_ex is_prompt_rule (matches_for_command_with_options mm dirs p cmd (Some f) host_options) \<longleftrightarrow>
      Prompt \<in> match_decision ` set (segment_rules mm dirs p cmd)" for cmd
    using segment_rules_policy[of _ mm dirs p cmd host_options]
    by (subst rules_or_heuristics) (force simp: list_ex_iff is_prompt_rule_def image_iff)
  then show ?thesis by (auto simp: all_matches_def list_ex_iff)
qed

lemma policy_match_segments:
  "list_ex is_policy_match (all_matches mm dirs p f commands) \<longleftrightarrow>
     (\<exists>cmd \<in> set commands. segment_rules mm dirs p cmd \<noteq> [])"
proof -
  have "list_ex is_policy_match (matches_for_command_with_options mm dirs p cmd (Some f) host_options) \<longleftrightarrow>
      segment_rules mm dirs p cmd \<noteq> []" for cmd
    using segment_rules_policy[of _ mm dirs p cmd host_options]
    by (subst rules_or_heuristics) (cases "segment_rules mm dirs p cmd"; simp)
  then show ?thesis by (auto simp: all_matches_def list_ex_iff)
qed

lemma decision_Max_cases:
  fixes D :: "decision set"
  assumes "finite D" "D \<noteq> {}"
  shows "(Max D = Allow \<longleftrightarrow> D \<subseteq> {Allow}) \<and> (Max D = Forbidden \<longleftrightarrow> Forbidden \<in> D) \<and>
    (Max D = Prompt \<longleftrightarrow> Prompt \<in> D \<and> Forbidden \<notin> D)"
proof -
  have le: "d \<le> Max D" if "d \<in> D" for d using that assms by simp
  have "Max D \<in> D" using assms by simp
  moreover have "D \<subseteq> {Allow}" if "Prompt \<notin> D" "Forbidden \<notin> D"
    using that by (auto intro: decision.exhaust)
  ultimately show ?thesis
    using le[of Forbidden] le[of Prompt] by (cases "Max D") (auto simp: less_eq_decision_def)
qed

lemma commands_nonempty: "commands_for_exec_policy P command \<noteq> []"
  by (simp add: commands_for_exec_policy_def split: option.split)

lemma allowed_segment_rules:
  assumes "segment_decision mm dirs p f cmd = Allow"
  shows "list_ex is_allow_rule (segment_rules mm dirs p cmd) \<longleftrightarrow> segment_rules mm dirs p cmd \<noteq> []"
proof (cases "segment_rules mm dirs p cmd = []")
  case False
  then obtain m where m: "m \<in> set (segment_rules mm dirs p cmd)" by (cases "segment_rules mm dirs p cmd") auto
  from assms False decision_Max_cases[of "match_decision ` set (segment_rules mm dirs p cmd)"]
  have "match_decision ` set (segment_rules mm dirs p cmd) \<subseteq> {Allow}"
    by (simp add: segment_decision_def)
  with m segment_rules_policy[OF m] have "is_allow_rule m" by (auto simp: is_allow_rule_def)
  with m False show ?thesis by (auto simp: list_ex_iff)
qed simp

text \<open>What a requirement says about the segments it was made for.\<close>

definition requirement_sound ::
    "'m rule_map \<Rightarrow> process_dirs \<Rightarrow> 'm policy \<Rightarrow> (rstr list \<Rightarrow> decision) \<Rightarrow> ask_for_approval \<Rightarrow> rstr list list \<Rightarrow>
     exec_approval_requirement \<Rightarrow> bool" where
  "requirement_sound mm dirs p f approval commands r =
     (let decide = segment_decision mm dirs p f;
          prompting = list_ex (\<lambda>cmd. Prompt \<in> match_decision ` set (segment_rules mm dirs p cmd)) commands;
          prompt = list_ex (\<lambda>cmd. decide cmd = Prompt) commands \<and> \<not> list_ex (\<lambda>cmd. decide cmd = Forbidden) commands
      in case r of
           Skip bypass_sandbox _ \<Rightarrow>
             list_all (\<lambda>cmd. decide cmd = Allow) commands \<and>
             (bypass_sandbox \<longleftrightarrow> list_all (\<lambda>cmd. segment_rules mm dirs p cmd \<noteq> []) commands)
         | NeedsApproval _ _ \<Rightarrow> prompt \<and> prompt_is_rejected_by_policy approval prompting = None
         | ForbiddenCommand _ \<Rightarrow>
             list_ex (\<lambda>cmd. decide cmd = Forbidden) commands \<or>
             prompt \<and> prompt_is_rejected_by_policy approval prompting \<noteq> None)"

lemma requirement_for_commands:
  assumes "commands \<noteq> []"
  shows "\<exists>r. create_exec_approval_requirement_for_parsed_commands mm dirs P sj policy req commands = Some r \<and>
    requirement_sound mm dirs
      (current_for_environment mm policy (req_environment_policy req) (req_allow_prefix_rules req))
      (exec_policy_fallback P req) (req_approval_policy req) commands r"
proof -
  define p where "p = current_for_environment mm policy (req_environment_policy req) (req_allow_prefix_rules req)"
  define f where "f = exec_policy_fallback P req"
  let ?D = "segment_decision mm dirs p f ` set commands"
  have D: "finite ?D" "?D \<noteq> {}" using assms by simp_all
  note cases = decision_Max_cases[OF D]
  note create = create_exec_approval_requirement_for_parsed_commands_def[of mm dirs P sj policy req commands,
      unfolded Let_def, folded p_def f_def, unfolded check_multiple_decision[OF assms] Option.bind.simps
      evaluation.simps prompt_rule_segments]
  note sound = requirement_sound_def[of mm dirs p f "req_approval_policy req" commands, unfolded Let_def]
  have "requirement_sound mm dirs p f (req_approval_policy req) commands r"
    if r: "create_exec_approval_requirement_for_parsed_commands mm dirs P sj policy req commands = Some r" for r
  proof (cases "Max ?D")
    case Allow
    with cases have all: "\<forall>cmd \<in> set commands. segment_decision mm dirs p f cmd = Allow" by auto
    then have "list_all (\<lambda>cmd. list_ex is_allow_rule (segment_rules mm dirs p cmd)) commands \<longleftrightarrow>
        list_all (\<lambda>cmd. segment_rules mm dirs p cmd \<noteq> []) commands"
      by (intro list.pred_cong[OF refl] allowed_segment_rules) blast
    with r all Allow show ?thesis unfolding create sound by (auto simp: list_all_iff)
  next
    case Prompt
    with cases have "Prompt \<in> ?D" "Forbidden \<notin> ?D" by auto
    then have "list_ex (\<lambda>cmd. segment_decision mm dirs p f cmd = Prompt) commands"
      "\<not> list_ex (\<lambda>cmd. segment_decision mm dirs p f cmd = Forbidden) commands"
      by (force simp: list_ex_iff)+
    with r Prompt show ?thesis unfolding create sound
      by (cases "prompt_is_rejected_by_policy (req_approval_policy req)
        (\<exists>cmd \<in> set commands. Prompt \<in> match_decision ` set (segment_rules mm dirs p cmd))")
        (auto simp: list_ex_iff[of "\<lambda>cmd. Prompt \<in> match_decision ` set (segment_rules mm dirs p cmd)"])
  next
    case Forbidden
    with cases have "Forbidden \<in> ?D" by auto
    then have "list_ex (\<lambda>cmd. segment_decision mm dirs p f cmd = Forbidden) commands"
      by (force simp: list_ex_iff)
    with r Forbidden show ?thesis unfolding create sound by auto
  qed
  moreover have "\<exists>r. create_exec_approval_requirement_for_parsed_commands mm dirs P sj policy req commands = Some r"
    unfolding create by simp
  ultimately show ?thesis unfolding p_def f_def by blast
qed

section \<open>Rules that match a segment\<close>

lemma mm_get_vec_values:
  "mm_get_vec mm m k = Some vs \<Longrightarrow> mm_values mm m k = vs" "mm_get_vec mm m k = None \<Longrightarrow> mm_values mm m k = []"
  by (simp_all add: mm_values_def)

text \<open>A rule for a program matches a segment as written, or through the base name of the segment's program.\<close>

inductive rule_applies :: "'m rule_map \<Rightarrow> process_dirs \<Rightarrow> 'm policy \<Rightarrow> prefix_rule \<Rightarrow> rstr list \<Rightarrow> bool"
  for mm dirs p rule where
  exact: "rule \<in> set (mm_values mm (rules_by_program p) first) \<Longrightarrow> rule_matches rule (first # args) \<noteq> None \<Longrightarrow>
    rule_applies mm dirs p rule (first # args)"
| host: "from_absolute_path dirs first = Some program \<Longrightarrow> file_name_of program = Some name \<Longrightarrow>
    pred_option (\<lambda>paths. program \<in> set paths) (host_executables_by_name p name) \<Longrightarrow>
    rule \<in> set (mm_values mm (rules_by_program p) name) \<Longrightarrow> rule_matches rule (name # args) \<noteq> None \<Longrightarrow>
    rule_applies mm dirs p rule (first # args)"

lemma segment_rule_applies:
  assumes "m \<in> set (segment_rules mm dirs p cmd)"
  shows "\<exists>rule. rule_applies mm dirs p rule cmd \<and> match_decision m = pr_decision rule"
proof -
  consider ms where "match_exact_rules mm p cmd = Some ms" "m \<in> set ms"
    | "m \<in> set (match_host_executable_rules mm dirs p cmd)"
    using assms by (auto simp: matches_for_command_with_options_def Let_def split: if_splits option.splits)
  then show ?thesis
  proof cases
    case 1
    then obtain first args rule where "cmd = first # args" "rule \<in> set (mm_values mm (rules_by_program p) first)"
      "rule_matches rule (first # args) = Some m"
      by (auto simp: match_exact_rules_def map_filter_def split: list.splits)
    then show ?thesis by (intro exI[of _ rule]) (auto simp: rule_matches_def intro: rule_applies.exact)
  next
    case 2
    then obtain first args basename rules rule prog m' where r:
      "cmd = first # args" "from_absolute_path dirs first = Some prog" "executable_path_lookup_key prog = Some basename"
      "mm_get_vec mm (rules_by_program p) basename = Some rules"
      "pred_option (\<lambda>paths. prog \<in> set paths) (host_executables_by_name p basename)"
      "rule \<in> set rules" "rule_matches rule (basename # args) = Some m'" "m = with_resolved_program prog m'"
      by (rule host_executable_matchE)
    then have "rule_applies mm dirs p rule cmd"
      using mm_get_vec_values(1)[OF r(4)]
      by (auto simp: executable_path_lookup_key_def executable_lookup_key_def simp del: file_name_of.simps
          intro: rule_applies.host)
    moreover have "match_decision m = pr_decision rule"
      using r(7,8) by (auto simp: rule_matches_def)
    ultimately show ?thesis by blast
  qed
qed

lemma applying_rule_found:
  assumes "rule_applies mm dirs p rule cmd"
  shows "segment_rules mm dirs p cmd \<noteq> []"
  using assms
proof cases
  case (exact first args)
  then have "match_exact_rules mm p cmd = Some ms \<Longrightarrow> ms \<noteq> []" for ms
    by (auto simp: match_exact_rules_def map_filter_def filter_empty_conv)
  with exact(1) show ?thesis
    by (auto simp: matches_for_command_with_options_def Let_def match_exact_rules_def)
next
  case (host first program name args)
  then obtain rules where "mm_get_vec mm (rules_by_program p) name = Some rules" "rule \<in> set rules"
    by (cases "mm_get_vec mm (rules_by_program p) name") (auto simp: mm_values_def)
  with host have "match_host_executable_rules mm dirs p cmd \<noteq> []"
    by (cases "host_executables_by_name p name")
      (auto simp: match_host_executable_rules_def executable_path_lookup_key_def executable_lookup_key_def
        map_filter_def filter_empty_conv list_ex_iff simp del: file_name_of.simps)
  then show ?thesis
    by (auto simp: matches_for_command_with_options_def Let_def split: option.splits)
qed

lemma segment_rules_applies: "segment_rules mm dirs p cmd \<noteq> [] \<longleftrightarrow> (\<exists>rule. rule_applies mm dirs p rule cmd)"
proof
  assume "segment_rules mm dirs p cmd \<noteq> []"
  then have "hd (segment_rules mm dirs p cmd) \<in> set (segment_rules mm dirs p cmd)" by simp
  then show "\<exists>rule. rule_applies mm dirs p rule cmd" by (blast dest: segment_rule_applies)
qed (auto dest: applying_rule_found)

lemma applying_rule_stored:
  "rule_applies mm dirs p rule cmd \<Longrightarrow> \<exists>program. rule \<in> set (mm_values mm (rules_by_program p) program)"
  by (auto elim: rule_applies.cases)

section \<open>Forced removal\<close>

lemma stripped_values:
  assumes "multimap_laws mm"
  shows "mm_values mm (rules_by_program (current_for_prefix_rules mm p IgnoreForCyberModel)) k =
    filter (\<lambda>rule. pr_decision rule \<noteq> Allow) (mm_values mm (rules_by_program p) k)"
proof -
  let ?f = "filter (\<lambda>rule. pr_decision rule \<noteq> Allow)"
  let ?xs = "map (\<lambda>(program, rules). (program, ?f rules)) (mm_iter_all mm (rules_by_program p))"
  have "map fst ?xs = map fst (mm_iter_all mm (rules_by_program p))" by auto
  then have "distinct (map fst ?xs)" using multimap_lawsD(3)[OF assms] by (simp only:)
  moreover have "map_of ?xs k = map_option ?f (mm_get_vec mm (rules_by_program p) k)"
    by (simp add: map_of_map multimap_lawsD(4)[OF assms])
  moreover have "mm_values mm (mm_new mm) k = []" by (simp add: mm_values_def multimap_lawsD(1)[OF assms])
  ultimately show ?thesis
    by (simp add: current_for_prefix_rules_def policy_from_parts_def insert_rules_values[OF assms])
      (simp add: mm_values_def split: option.split)
qed

lemma forced_rm_segment:
  assumes "\<And>script tree. P script = Some tree \<Longrightarrow> names_first tree" and "forced_rm P command"
  shows "\<exists>segment \<in> set (commands_for_exec_policy P command). forced_rm P segment"
  using assms(2) segments_forced_rm[OF assms(1) _ assms(2)]
  by (auto simp: commands_for_exec_policy_def split: option.split)

lemma forced_rm_not_allowed: "forced_rm P segment \<Longrightarrow> exec_policy_fallback P req segment \<noteq> Allow"
  using forced_rm_found[of P segment 0]
  by (auto simp: exec_policy_fallback_def render_decision_for_unmatched_command_def dangerous_command_match_def Let_def
      split: ask_for_approval.split)

lemma allowed_by_rules:
  assumes "segment_decision mm dirs p f cmd = Allow" "f cmd \<noteq> Allow"
  shows "segment_rules mm dirs p cmd \<noteq> []" "m \<in> set (segment_rules mm dirs p cmd) \<Longrightarrow> match_decision m = Allow"
proof -
  show "segment_rules mm dirs p cmd \<noteq> []" using assms by (auto simp: segment_decision_def)
  then show "m \<in> set (segment_rules mm dirs p cmd) \<Longrightarrow> match_decision m = Allow"
    using assms decision_Max_cases[of "match_decision ` set (segment_rules mm dirs p cmd)"]
    by (auto simp: segment_decision_def)
qed

section \<open>Remembered approvals\<close>

lemma rule_matches_longer: "rule_matches rule a \<noteq> None \<Longrightarrow> prefix a c \<Longrightarrow> rule_matches rule c \<noteq> None"
proof -
  assume "rule_matches rule a \<noteq> None" and c: "prefix a c"
  then obtain m where "matches_prefix (pr_pattern rule) a = Some m" by (auto simp: rule_matches_def)
  with c have "matches_prefix (pr_pattern rule) c = Some m"
    unfolding matches_prefix_Some_iff by (auto simp: prefix_def)
  then show ?thesis by (simp add: rule_matches_def)
qed

lemma normalize_step_names:
  "NormalDir n \<in> set (foldl normalize_step cs ds) \<Longrightarrow> NormalDir n \<in> set cs \<union> set ds"
proof (induction ds arbitrary: cs)
  case (Cons d ds)
  from Cons.IH[of "normalize_step cs d"] Cons.prems
  have "NormalDir n \<in> set (normalize_step cs d) \<union> set ds" by simp
  moreover have "set (normalize_step cs d) \<subseteq> insert RootDir (set cs \<union> {d})"
    by (cases d) (auto simp: path_pop_def path_push_def dest: in_set_butlastD split: option.splits path_component.splits)
  ultimately show ?case by auto
qed simp

lemma file_name_ok:
  assumes "from_absolute_path dirs first = Some program" "file_name_of program = Some name"
  shows "name_ok name"
proof -
  from assms(1) obtain q where q: "program = normalize_path q"
    by (auto simp: from_absolute_path_def absolutize_def absolutize_from_def split: if_splits)
  have "NormalDir name \<in> set program"
    using assms(2) by (auto simp: last_opt_def split: option.splits path_component.splits if_splits dest: last_in_set)
  then have "NormalDir name \<in> set (path_components q)"
    using normalize_step_names[of name "[]" "path_components q"] q
    by (auto simp: normalize_path_def Let_def split: if_splits)
  then obtain part where "part \<in> set (split_char SLASH q)" "NormalDir name \<in> set (part_component part)"
    by (auto simp: path_components_def Let_def simp del: part_component.simps split: if_splits)
  then show ?thesis using part_component_ok[of part "NormalDir name"] split_char_parts by fastforce
qed

lemma bare_name_path:
  assumes "name_ok name" "name \<noteq> str ''~''" "from_absolute_path dirs name = Some program"
  shows "file_name_of program = Some name"
proof -
  have rel: "\<not> is_absolute name" using assms(1) by (auto simp: is_absolute_def name_ok_def prefix_def)
  have "maybe_expand_home_directory dirs name = name"
    using assms(1,2) by (auto simp: maybe_expand_home_directory_def strip_prefix_def name_ok_def prefix_def
        split: option.splits if_splits)
  with rel assms(3) obtain cwd where prog: "program = normalize_path (cwd @ SLASH # name)"
    by (auto simp: from_absolute_path_def absolutize_def absolutize_from_def path_with_base_def path_join_def)
  have "split_char SLASH (cwd @ SLASH # name) = split_char SLASH cwd @ [name]"
    using assms(1) split_char_append[of SLASH cwd name] by (simp add: name_ok_def split_char_no_sep)
  then have "\<exists>cs. path_components (cwd @ SLASH # name) = cs @ [NormalDir name]"
    using assms(1) by (simp add: path_components_def Let_def name_ok_def)
  then have "\<exists>cs. normalize_path (cwd @ SLASH # name) = cs @ [NormalDir name]"
    by (auto simp: normalize_path_def path_push_def Let_def)
  with prog show ?thesis by (auto simp: last_opt_def)
qed

abbreviation with_allow_rule :: "'m rule_map \<Rightarrow> 'm policy \<Rightarrow> rstr list \<Rightarrow> 'm policy" where
  "with_allow_rule mm p tokens \<equiv>
     p\<lparr>rules_by_program := mm_insert mm (rules_by_program p) (hd tokens) (token_rule tokens Allow)\<rparr>"

text \<open>A segment that only the new rule matches: then the rule's own prefix was not matched before either.\<close>

lemma new_rule_prefix_unmatched:
  assumes laws: "multimap_laws mm" and ne: "tokens \<noteq> []" "hd tokens \<noteq> str ''~''"
    and old: "segment_rules mm dirs p cmd = []"
    and new: "segment_rules mm dirs (with_allow_rule mm p tokens) cmd \<noteq> []"
  shows "segment_rules mm dirs p tokens = []"
proof (rule ccontr)
  obtain t ts where tokens: "tokens = t # ts" using ne by (cases tokens) auto
  have stored: "rule \<in> set (mm_values mm (rules_by_program (with_allow_rule mm p tokens)) k) \<longleftrightarrow>
      rule \<in> set (mm_values mm (rules_by_program p) k) \<or> (k = t \<and> rule = token_rule tokens Allow)" for rule k
    by (auto simp: mm_values_insert[OF laws] tokens)
  assume "segment_rules mm dirs p tokens \<noteq> []"
  then obtain r where r: "rule_applies mm dirs p r (t # ts)" unfolding segment_rules_applies tokens by blast
  from new obtain n where n: "rule_applies mm dirs (with_allow_rule mm p tokens) n cmd"
    unfolding segment_rules_applies by blast
  have none: "\<not> rule_applies mm dirs p rule cmd" for rule using old segment_rules_applies by blast
  from n show False
  proof cases
    case (exact first args)
    with none[of n] stored have m: "first = t" "prefix tokens cmd"
      by (auto simp: token_rule_matches[OF ne(1)] intro: rule_applies.exact split: if_splits)
    from r show False
    proof cases
      case exact
      with m none[of r] rule_matches_longer[of r "t # ts" cmd] show False
        using \<open>cmd = first # args\<close> by (auto simp: tokens intro: rule_applies.exact)
    next
      case (host program name)
      have "prefix (name # ts) (name # args)" using m \<open>cmd = first # args\<close> by (simp add: tokens)
      with host m none[of r] rule_matches_longer[of r "name # ts" "name # args"] show False
        using \<open>cmd = first # args\<close> by (auto simp del: file_name_of.simps intro: rule_applies.host)
    qed
  next
    case (host first program name args)
    with none[of n] stored have m: "name = t" "prefix tokens (t # args)"
      by (auto simp: token_rule_matches[OF ne(1)] simp del: file_name_of.simps intro: rule_applies.host split: if_splits)
    have bare: "file_name_of q = Some t" if "from_absolute_path dirs t = Some q" for q
      using bare_name_path[OF _ _ that] file_name_ok[OF host(2,3)] m ne(2) by (simp add: tokens del: file_name_of.simps)
    have "r \<in> set (mm_values mm (rules_by_program p) t) \<and> rule_matches r (t # ts) \<noteq> None"
      using r by cases (auto simp del: file_name_of.simps dest: bare)
    then have "r \<in> set (mm_values mm (rules_by_program p) t)" "rule_matches r (t # args) \<noteq> None"
      using rule_matches_longer[of r "t # ts" "t # args"] m(2) tokens by auto
    with host m none[of r] show False by (auto simp del: file_name_of.simps intro: rule_applies.host)
  qed
qed

lemma all_allowed_skips:
  assumes "commands \<noteq> []"
    and "\<forall>cmd \<in> set commands. segment_decision mm dirs
      (current_for_environment mm policy (req_environment_policy req) (req_allow_prefix_rules req))
      (exec_policy_fallback P req) cmd = Allow"
  shows "\<exists>bypass am. create_exec_approval_requirement_for_parsed_commands mm dirs P sj policy req commands = Some (Skip bypass am)"
proof -
  from requirement_for_commands[OF assms(1), of mm dirs P sj policy req] obtain r where r:
    "create_exec_approval_requirement_for_parsed_commands mm dirs P sj policy req commands = Some r"
    "requirement_sound mm dirs
      (current_for_environment mm policy (req_environment_policy req) (req_allow_prefix_rules req))
      (exec_policy_fallback P req) (req_approval_policy req) commands r" by blast
  with assms(2) show ?thesis
    by (cases r) (simp_all add: requirement_sound_def Let_def list_ex_iff)
qed

lemma requested_amendment:
  assumes "derive_requested_execpolicy_amendment_from_prefix_rule mm dirs rule (all_matches mm dirs p f commands) p
    commands f host_options = Some am"
  shows "am \<noteq> []" "am \<notin> set BANNED_PREFIX_SUGGESTIONS"
    "cmd \<in> set commands \<Longrightarrow> segment_rules mm dirs p cmd = []"
    "cmd \<in> set commands \<Longrightarrow> segment_decision mm dirs (with_allow_rule mm p am) f cmd = Allow"
proof -
  let ?no_rule = "\<not> list_ex is_policy_match (all_matches mm dirs p f commands)"
  have *: "am \<noteq> [] \<and> am \<notin> set BANNED_PREFIX_SUGGESTIONS \<and> ?no_rule \<and>
      prefix_rule_would_approve_all_commands mm dirs p am commands f host_options"
    using assms by (simp add: derive_requested_execpolicy_amendment_from_prefix_rule_def split: option.splits if_splits)
  then show "am \<noteq> []" "am \<notin> set BANNED_PREFIX_SUGGESTIONS" by simp_all
  from * show "cmd \<in> set commands \<Longrightarrow> segment_rules mm dirs p cmd = []"
    unfolding policy_match_segments by blast
  have "add_prefix_rule mm p am Allow = Inr (with_allow_rule mm p am)"
    using * by (simp add: add_prefix_rule_Ok)
  with * show "cmd \<in> set commands \<Longrightarrow> segment_decision mm dirs (with_allow_rule mm p am) f cmd = Allow"
    by (simp add: prefix_rule_would_approve_all_commands_def check_with_options_decision list_all_iff)
qed

lemma update_stores_rule:
  assumes "append_amendment_and_update mm dirs js io home am p w = Some (w', Ok p')"
    and "segment_rules mm dirs p am = []"
  shows "p' = with_allow_rule mm p am"
proof -
  have "\<not> list_ex is_allow_rule (all_matches mm dirs p (\<lambda>_. Forbidden) [am])"
    using assms(2) by (simp add: all_matches_def rules_or_heuristics[of mm dirs p am] is_allow_rule_def)
  with assms(1) show ?thesis
    by (auto simp: append_amendment_and_update_def Let_def check_multiple_decision add_prefix_rule_Ok
        split: prod.splits sum.splits)
qed

text \<open>
  C14. Whether a command may run is decided by its segments: the procedure always answers; it skips the
  approval exactly when the strictest decision for each segment, that of the matching rules or, where no
  rule matches, of the heuristics, allows it, and bypasses the sandbox only when rules match every
  segment; it asks the user only when some segment prompts, none is forbidden and the approval policy lets
  the prompt through, so never under the policy \<open>Never\<close>; and it refuses only when a segment is
  forbidden or the prompt may not be shown.
\<close>

theorem approval_requirement_decides:
  "\<exists>r. create_exec_approval_requirement_for_command mm dirs P sj policy req = Some r \<and>
     requirement_sound mm dirs
       (current_for_environment mm policy (req_environment_policy req) (req_allow_prefix_rules req))
       (exec_policy_fallback P req) (req_approval_policy req) (commands_for_exec_policy P (req_command req)) r \<and>
     (req_approval_policy req = Never \<longrightarrow> (\<nexists>reason am. r = NeedsApproval reason am))"
proof -
  obtain r where r: "create_exec_approval_requirement_for_command mm dirs P sj policy req = Some r"
    "requirement_sound mm dirs
       (current_for_environment mm policy (req_environment_policy req) (req_allow_prefix_rules req))
       (exec_policy_fallback P req) (req_approval_policy req) (commands_for_exec_policy P (req_command req)) r"
    using requirement_for_commands[OF commands_nonempty]
    unfolding create_exec_approval_requirement_for_command_def by blast
  moreover from r(2) have "req_approval_policy req = Never \<longrightarrow> (\<nexists>reason am. r = NeedsApproval reason am)"
    by (auto simp: requirement_sound_def prompt_is_rejected_by_policy_def Let_def)
  ultimately show ?thesis by blast
qed



section \<open>Examples\<close>

abbreviation no_dirs :: process_dirs where
  "no_dirs \<equiv> \<lparr>home_dir = None, current_dir = None\<rparr>"

abbreviation no_parser :: shell_parser where
  "no_parser \<equiv> \<lambda>_. None"

abbreviation rules_alist :: "(rstr \<times> prefix_rule list) list rule_map" where
  "rules_alist \<equiv> alist_multimap"

definition example_request ::
    "rstr list \<Rightarrow> ask_for_approval \<Rightarrow> ((rstr \<times> prefix_rule list) list, unit) exec_approval_request" where
  "example_request command approval =
     \<lparr>req_command = command, req_approval_policy = approval, req_permission_profile = DisabledProfile,
      req_environment_policy = None, req_sandbox_permissions = UseDefault, req_prefix_rule = Some command,
      req_allow_prefix_rules = Honor\<rparr>"

lemmas approval_eval =
  example_request_def create_exec_approval_requirement_for_command_def
  create_exec_approval_requirement_for_parsed_commands_def commands_for_exec_policy_def
  parse_shell_lc_plain_commands_def extract_bash_command_def current_for_environment_def current_for_prefix_rules_def
  exec_policy_fallback_def render_decision_for_unmatched_command_def dangerous_command_match_def dangerous_simps
  parse_shell_lc_literal_commands_def executable_name_lookup_key_def is_allow_rule_def is_prompt_rule_def
  derive_requested_execpolicy_amendment_from_prefix_rule_def prefix_rule_would_approve_all_commands_def
  try_derive_execpolicy_amendment_for_allow_rules_def derive_prompt_reason_def most_specific_def max_by_key_def
  prompt_is_rejected_by_policy_def

theorem approval_requirement_decides_witness:
  "\<exists>r. create_exec_approval_requirement_for_command rules_alist no_dirs no_parser (\<lambda>_. None) (policy_empty rules_alist)
         (example_request [str ''rm'', str ''-f'', str ''x''] Never) = Some r \<and>
     (\<nexists>reason am. r = NeedsApproval reason am)"
  using approval_requirement_decides[of rules_alist no_dirs no_parser "\<lambda>_. None" "policy_empty rules_alist"
      "example_request [str ''rm'', str ''-f'', str ''x''] Never"]
  by (auto simp: example_request_def)

definition rm_policy :: "(rstr \<times> prefix_rule list) list policy" where
  "rm_policy = policy_new [(str ''rm'', [token_rule [str ''rm''] Allow])]"



end
