(* ===== verification/Spec2Isabelle.thy ===== *)
theory Spec2Isabelle
  imports Patch_Grammar Patch_Invocation Utf8_Stream Assistant_Text Policy_Parser Policy_Amend
    Head_Tail_Buffer Context_Manager Turn_Diff Policy_Loading
begin

text \<open>
  Verification of the deterministic core of the command-line coding agent in \<open>codex-rs\<close>.  All paths below
  are relative to \<open>src/codex-rs\<close>.

  \<^bold>\<open>The program.\<close>  The agent sends a conversation to a model, streams the answer back, and runs the
  tools the model asks for.  Five parts of it decide what happens by computation alone, and these are
  modelled here.
  \<^item> \<open>apply-patch\<close> parses the patches the model writes and applies them to files, keeping a delta from
    which the change can be undone; \<open>core/src/turn_diff_tracker.rs\<close> collects these deltas into the diff of
    a turn.
  \<^item> \<open>utils/stream-parser\<close> takes hidden markup (citations, proposed plans) out of the streamed answer.
  \<^item> \<open>execpolicy\<close> (with \<open>utils/absolute-path\<close>) evaluates commands by policy files it can also amend.
    \<open>core/src/exec_policy.rs\<close> splits a command into segments (\<open>shell-command\<close>), has each evaluated, and decides
    whether it may run, needs approval or is forbidden.
  \<^item> \<open>core/src/unified_exec/head_tail_buffer.rs\<close>, \<open>utils/string\<close> and \<open>utils/output-truncation\<close> keep the
    output of commands within budgets.
  \<^item> \<open>core/src/context_manager\<close> (with \<open>protocol\<close>, \<open>context-fragments\<close> and \<open>utils/audio\<close>) keeps the
    conversation, brings it into the form the model accepts, rolls it back and accounts for its tokens.
    It records tool outputs through the truncation of the previous part.

  \<^bold>\<open>Conventions.\<close>  A Rust string is the list of its scalar values (\<open>rstr\<close>), with byte lengths and
  boundaries computed from them; bytes are numbers.  \<open>Result\<close> is a sum type, \<open>?\<close> is \<open>try_bind\<close>,
  \<open>&mut self\<close> is state passed and returned, and a panic is \<open>None\<close> or an error value of its own, so
  that the absence of panics is a theorem.  Saturating and wrapping arithmetic is written out where the
  source uses it.  \<open>Prelude\<close> and \<open>Rust_Str\<close> hold these and the lemmas on lists and strings the
  components share.

  \<^bold>\<open>Patches.\<close>
  \<^item> \<open>Patch_Types\<close>, \<open>Streaming_Parser\<close>, \<open>Patch_Parser\<close> (\<open>parser.rs\<close>, \<open>streaming_parser.rs\<close>): the parser
    state machine line by line.  Splitting the input into deltas does not matter, and accepted hunks are
    complete.
  \<^item> \<open>Patch_Grammar\<close>: a printer for patches, and that parsing inverts it.
  \<^item> \<open>Seek_Sequence\<close> (\<open>seek_sequence.rs\<close>): the four passes of the line search find the first match of the
    strictest pass that has one.
  \<^item> \<open>Text_File\<close>, \<open>File_Update\<close> (\<open>text_file.rs\<close>, \<open>file_update.rs\<close>): line endings survive a round trip,
    splicing from the back equals rebuilding from the front, and context lines are preserved.
  \<^item> \<open>Apply_Patch\<close>, \<open>Patch_Invocation\<close> (\<open>lib.rs\<close>, \<open>standalone_executable.rs\<close>, \<open>invocation.rs\<close>): the hunk
    loop refines an abstract specification, an exact delta restores the files, parsed patches do
    not panic, and what verification announces is what application does.
  \<^item> \<open>Turn_Diff\<close> (\<open>core/src/turn_diff_tracker.rs\<close>): the cached diff of a turn is the one rendered afresh,
    and its entries lead from the files at the start of the turn to the present ones.

  \<^bold>\<open>Streams.\<close>  \<open>Stream_Text\<close> has the contract of \<open>StreamTextParser\<close> as the locale \<open>stream_text_parser\<close>:
  the result does not depend on how the text is cut into chunks.  \<open>Inline_Hidden_Tag\<close> and \<open>Tagged_Line\<close>
  interpret it (\<open>inline_hidden_tag.rs\<close>, \<open>citation.rs\<close>, \<open>tagged_line_parser.rs\<close>, \<open>proposed_plan.rs\<close>) and
  give each parser a reference definition on the whole text.  \<open>Utf8_Stream\<close> (\<open>utf8_stream.rs\<close>) adds bytes
  split anywhere, with rollback on invalid input, and \<open>Assistant_Text\<close> (\<open>assistant_text.rs\<close>) composes the
  two parsers.

  \<^bold>\<open>Execution policy.\<close>  \<open>Absolute_Path\<close> normalises paths; \<open>Exec_Rule\<close> has decisions, patterns and network
  rules; \<open>Exec_Policy\<close> evaluates commands and merges policies (the strictest matching rule wins, an
  overlay never weakens its base); \<open>Policy_Parser\<close> builds a policy from its files (the examples
  of an accepted rule hold); \<open>Policy_Amend\<close> appends rules once and migrates saved ones.

  \<^bold>\<open>Command approval.\<close>
  \<^item> \<open>Shell_Commands\<close> (\<open>shell-command/src/bash.rs\<close>, \<open>shell_detect.rs\<close>, \<open>is_dangerous_command.rs\<close>): the segments of
    an accepted script are all its commands, and a forced \<open>rm\<close> is found behind any wrappers.
  \<^item> \<open>Command_Approval\<close> (\<open>core/src/exec_policy.rs\<close>, \<open>exec_policy/model_policy.rs\<close>): the requirement for a
    command is the one the decisions for its segments call for, a forced \<open>rm\<close> runs unasked only by
    allowing rules, and a saved approval is not asked for again.  It rests on \<open>Exec_Policy\<close> for the rules,
    \<open>Shell_Commands\<close> for the segments and \<open>Policy_Amend\<close> for saving.
  \<^item> \<open>Policy_Loading\<close> (\<open>core/src/exec_policy.rs\<close>, \<open>config/src/state.rs\<close>): the policy loaded from the configuration
    layers enforces the administrator's requirements, also when a rule file is broken.

  \<^bold>\<open>Output and conversation.\<close>
  \<^item> \<open>Head_Tail_Buffer\<close>: the buffer of a running command is a function of the stream alone,
    and never exceeds its budget.
  \<^item> \<open>Response_Item\<close>: the items of the conversation (\<open>protocol/src/models.rs\<close>) and annotated content.
  \<^item> \<open>Truncation\<close>: cutting text and tool outputs, with what is kept and what the notes count.
  \<^item> \<open>Contextual_Text\<close>: recognising injected context; a rendered fragment is never a turn of the user.
  \<^item> \<open>Context_Normalize\<close> (\<open>normalize.rs\<close>): calls and outputs are paired.  The locale \<open>call_pairing\<close>
    proves this once and is interpreted for function, tool search and custom tool calls.
  \<^item> \<open>Audio_Input\<close> (\<open>utils/audio/src/lib.rs\<close>): canonical audio data; preparing twice changes nothing.
  \<^item> \<open>Context_Manager\<close> (\<open>history.rs\<close>): recording, prompts, removal of the oldest item, rollback of turns
    and token accounting.

  \<^bold>\<open>Interfaces.\<close>  The locale \<open>fallible_machine\<close> (\<open>Prelude\<close>) is a loop of fallible steps that keep an
  invariant; it is interpreted for the hunk loop of \<open>Apply_Patch\<close>, for the builder and the
  loading loop of \<open>Policy_Parser\<close> and for the one of \<open>Policy_Loading\<close>.

  \<^bold>\<open>Code outside the sources\<close> is a parameter, and where a theorem relies on its behaviour, that is a
  hypothesis of the theorem with an instance in the witness: the file system (\<open>fs_laws\<close>), the multimap
  (\<open>multimap_laws\<close>), JSON strings (\<open>json_laws\<close>, \<open>amend_laws\<close>), base64 (\<open>base64_laws\<close>), and the Tree-sitter
  parser (\<open>shell_parser\<close>; one theorem needs that a command node begins with its name, \<open>names_first\<close>).  Shell
  splitting and quoting, the Starlark interpreter, the text diff and hashes behind the turn diff
  (\<open>diff_env\<close>), the XML and JSON decoders (\<open>codec\<close>), UUIDs, and the JSON length and media decoders behind the
  estimates (\<open>estimators\<close>) need no law.

  \<^bold>\<open>Bounds and termination.\<close>  No definition uses fuel: every loop is structural recursion or has
  its termination proof.  Sizes are natural numbers with \<open>usize\<close> saturation at \<open>2 ^ 64 - 1\<close>, and token
  counts are integers with \<open>i64\<close> saturation or wrap-around as in a release build.

  \<^bold>\<open>Not modelled.\<close>  Sessions, tools and threads of \<open>core\<close>, the application server, the model clients,
  persistence and the network proxy are asynchronous code over channels, sockets, databases and processes.
  The terminal interface and the command line are built on third-party frameworks.  Sandboxing calls
  operating system facilities, and configuration is derived deserialisation.  Within the modelled parts,
  these are left out: the Windows variants of paths, canonicalisation against the disk, the text of a
  unified diff, \<open>Display\<close> texts of the UTF-8 errors, the lookup of installed shells, the one-shot marker of the policy migration,
  \<open>update_world_state\<close> and the estimate that reads a turn context (\<open>history.rs\<close>), and the caches
  in front of the estimates.
\<close>

end
